(* ===== verification/Netos_Prelude.thy ===== *)
theory Netos_Prelude
  imports Main "HOL-Library.Word" "HOL-Library.AList"
begin

text \<open>
  What every component shares: the machine integers of the C++ code, the clock readings, the
  association lists that stand for \<^verbatim>\<open>std::unordered_map\<close>, the generic lemmas about them, and
  three interface locales (a codec, a table whose entries expire, a transition system).

  An \<^verbatim>\<open>unordered_map<string, V>\<close> is a list of key/value pairs with distinct keys. The
  order of the list is the traversal order of the container at that moment; the C++ standard
  leaves it unspecified, so every theorem is about an arbitrary list, and results that
  compose several operations are stated through \<^const>\<open>map_of\<close>, which does not depend on it.
\<close>

unbundle bit_operations_syntax

subsection \<open>Machine integers and clocks\<close>

type_synonym u8 = "8 word"
type_synonym u16 = "16 word"
type_synonym u32 = "32 word"
type_synonym u64 = "64 word"

text \<open>
  A C++ \<^verbatim>\<open>int\<close> is an \<^typ>\<open>int\<close> in the 32-bit range; every cast that can leave the range is written
  out. \<^verbatim>\<open>int32_of\<close> is \<^verbatim>\<open>static_cast<int>\<close> of a wider value (C++20: modulo \<open>2^32\<close>) and \<open>size_of\<close>
  is \<^verbatim>\<open>static_cast<size_t>\<close> of an \<^verbatim>\<open>int\<close> (modulo \<open>2^64\<close>).
\<close>

definition in_int32 :: "int \<Rightarrow> bool" where
  "in_int32 i \<longleftrightarrow> - 2147483648 \<le> i \<and> i \<le> 2147483647"

definition int32_of :: "int \<Rightarrow> int" where
  "int32_of i = (i + 2147483648) mod 4294967296 - 2147483648"

definition size_of :: "int \<Rightarrow> u64" where
  "size_of i = word_of_int i"

text \<open>A \<^verbatim>\<open>steady_clock::time_point\<close> is its count of nanoseconds; \<open>ms_ns\<close> is \<^verbatim>\<open>std::chrono::milliseconds\<close>
  converted to that unit, as the comparisons of mixed durations do.\<close>

type_synonym time_ns = int

definition ms_ns :: "int \<Rightarrow> time_ns" where
  "ms_ns d = d * 1000000"

lemma ms_ns_mono [simp]: "ms_ns a \<le> ms_ns b \<longleftrightarrow> a \<le> b"
  by (simp add: ms_ns_def)

lemma ms_ns_pos [simp]: "0 < ms_ns a \<longleftrightarrow> 0 < a" "ms_ns a \<le> 0 \<longleftrightarrow> a \<le> 0" "0 \<le> ms_ns a \<longleftrightarrow> 0 \<le> a"
  by (simp_all add: ms_ns_def)

lemma int32_of_id [simp]: "in_int32 i \<Longrightarrow> int32_of i = i"
  by (simp add: in_int32_def int32_of_def)

lemma in_int32_int32_of [simp]: "in_int32 (int32_of i)"
proof -
  have "0 \<le> (i + 2147483648) mod 4294967296" "(i + 2147483648) mod 4294967296 < 4294967296"
    by simp_all
  then show ?thesis
    unfolding in_int32_def int32_of_def by linarith
qed

lemma unat_size_of: "0 \<le> i \<Longrightarrow> in_int32 i \<Longrightarrow> unat (size_of i) = nat i"
proof -
  assume "0 \<le> i" "in_int32 i"
  then have "uint (word_of_int i :: u64) = i"
    by (simp add: in_int32_def uint_word_of_int)
  then show ?thesis
    by (simp add: size_of_def unat_eq_nat_uint)
qed

subsection \<open>Strings joined by a separator\<close>

lemma sep_prefix_inj:
  "c \<notin> set a \<Longrightarrow> c \<notin> set a' \<Longrightarrow> a @ c # b = a' @ c # b' \<longleftrightarrow> a = a' \<and> b = b'"
proof (induction a arbitrary: a')
  case Nil
  then show ?case by (cases a') auto
next
  case (Cons x a)
  then show ?case by (cases a') auto
qed

lemma sep_suffix_inj:
  assumes "c \<notin> set b" "c \<notin> set b'"
  shows "a @ c # b = a' @ c # b' \<longleftrightarrow> a = a' \<and> b = b'"
proof -
  have "a @ c # b = a' @ c # b' \<longleftrightarrow> rev b @ c # rev a = rev b' @ c # rev a'"
    by (metis append.assoc append_Cons append_Nil rev.simps(2) rev_append rev_rev_ident)
  with assms show ?thesis
    by (auto simp: sep_prefix_inj)
qed

lemma takeWhile_sep: "c \<notin> set a \<Longrightarrow> takeWhile (\<lambda>x. x \<noteq> c) (a @ c # b) = a"
  by (induction a) auto

lemma dropWhile_sep: "c \<notin> set a \<Longrightarrow> dropWhile (\<lambda>x. x \<noteq> c) (a @ c # b) = c # b"
  by (induction a) auto

subsection \<open>Association lists as unordered maps\<close>

type_synonym 'v table = "(string \<times> 'v) list"

definition wf_tbl :: "'v table \<Rightarrow> bool" where
  "wf_tbl t \<longleftrightarrow> distinct (map fst t)"

named_theorems tbl_simps

lemma wf_tbl_Nil [simp]: "wf_tbl []"
  by (simp add: wf_tbl_def)

lemma wf_tbl_update [simp]: "wf_tbl t \<Longrightarrow> wf_tbl (AList.update k v t)"
  by (simp add: wf_tbl_def distinct_update)

lemma wf_tbl_delete [simp]: "wf_tbl t \<Longrightarrow> wf_tbl (AList.delete k t)"
  by (simp add: wf_tbl_def distinct_delete)

lemma wf_tbl_filter [simp]: "wf_tbl t \<Longrightarrow> wf_tbl (filter p t)"
  by (simp add: wf_tbl_def distinct_map_filter)

lemma wf_tbl_ConsD: "wf_tbl ((k, v) # t) \<Longrightarrow> map_of t k = None \<and> wf_tbl t"
  by (auto simp: wf_tbl_def map_of_eq_None_iff)

lemma wf_tbl_mem: "wf_tbl t \<Longrightarrow> (k, v) \<in> set t \<longleftrightarrow> map_of t k = Some v"
  by (auto simp: wf_tbl_def dest: map_of_SomeD)

lemma map_of_update [tbl_simps]: "map_of (AList.update k v t) = (map_of t)(k \<mapsto> v)"
  by (rule update_conv')

lemma map_of_delete [tbl_simps]: "map_of (AList.delete k t) = (map_of t)(k := None)"
  by (rule delete_conv')

lemma map_of_filter_val:
  "wf_tbl t \<Longrightarrow> map_of (filter (\<lambda>(k, v). p k v) t) k =
     (case map_of t k of None \<Rightarrow> None | Some v \<Rightarrow> if p k v then Some v else None)"
proof (induction t)
  case (Cons a t)
  then show ?case
    by (cases a) (auto dest: wf_tbl_ConsD split: option.splits)
qed simp

lemma length_update:
  "length (AList.update k v t) = (if map_of t k = None then Suc (length t) else length t)"
  by (induction t) auto

lemma set_delete_mem: "x \<in> set (AList.delete k t) \<Longrightarrow> x \<in> set t"
  by (induction t) (auto split: if_splits)

lemma update_Nil_mem: "x \<in> set (AList.update k v t) \<Longrightarrow> x = (k, v) \<or> x \<in> set t"
  by (induction t) (auto split: if_splits)

lemma set_update_new: "map_of t k = None \<Longrightarrow> set (AList.update k v t) = insert (k, v) (set t)"
  by (induction t) (auto split: if_splits)

lemma map_of_keyed:
  "map_of (map (\<lambda>n. (f n, g (f n))) xs) k = (if k \<in> f ` set xs then Some (g k) else None)"
  by (induction xs) auto

lemma map_of_filter_mem:
  "map_of (filter p t) k = Some v \<Longrightarrow> wf_tbl t \<Longrightarrow> map_of t k = Some v"
proof -
  assume "map_of (filter p t) k = Some v" "wf_tbl t"
  then have "(k, v) \<in> set t" by (auto dest: map_of_SomeD)
  with \<open>wf_tbl t\<close> show ?thesis by (simp add: wf_tbl_mem)
qed

text \<open>Values of a table that all satisfy a predicate: the shape of every table invariant.\<close>

definition all_vals :: "('v \<Rightarrow> bool) \<Rightarrow> 'v table \<Rightarrow> bool" where
  "all_vals p t \<longleftrightarrow> (\<forall>kv \<in> set t. p (snd kv))"

lemma all_vals_Nil [simp]: "all_vals p []"
  by (simp add: all_vals_def)

lemma all_vals_update [simp]: "all_vals p t \<Longrightarrow> p v \<Longrightarrow> all_vals p (AList.update k v t)"
  by (auto simp: all_vals_def dest!: update_Nil_mem)

lemma all_vals_delete [simp]: "all_vals p t \<Longrightarrow> all_vals p (AList.delete k t)"
  by (auto simp: all_vals_def dest!: set_delete_mem)

lemma all_vals_filter [simp]: "all_vals p t \<Longrightarrow> all_vals p (filter q t)"
  by (auto simp: all_vals_def)

lemma all_vals_map_of: "all_vals p t \<Longrightarrow> map_of t k = Some v \<Longrightarrow> p v"
  by (auto simp: all_vals_def dest!: map_of_SomeD)

subsection \<open>Interface: a codec\<close>

text \<open>
  An encoder and a decoder that inverts it on the valid values. What the clients use is that
  encoding loses nothing (distinct valid values have distinct encodings) and that a decoder
  accepts every encoding.
\<close>

locale codec =
  fixes enc :: "'a \<Rightarrow> 'b"
    and dec :: "'b \<Rightarrow> 'a option"
    and valid :: "'a \<Rightarrow> bool"
  assumes dec_enc: "valid x \<Longrightarrow> dec (enc x) = Some x"
begin

lemma enc_inj: "valid x \<Longrightarrow> valid y \<Longrightarrow> enc x = enc y \<Longrightarrow> x = y"
  using dec_enc by (metis option.inject)

lemma dec_map_enc: "list_all valid xs \<Longrightarrow> map dec (map enc xs) = map Some xs"
  by (induction xs) (auto simp: dec_enc)

lemma distinct_enc: "list_all valid xs \<Longrightarrow> distinct (map enc xs) \<longleftrightarrow> distinct xs"
proof (induction xs)
  case (Cons x xs)
  then show ?case
    by (auto simp: list_all_iff dest: enc_inj)
qed simp

end

subsection \<open>Interface: entries that expire\<close>

text \<open>
  Four tables of the program drop entries by age, each with its own test. The test is a
  predicate on the clock and the entry; the one law is that an entry that has expired stays
  expired. \<open>prune\<close> is the traversal that erases the expired entries.
\<close>

definition prune :: "('v \<Rightarrow> bool) \<Rightarrow> 'v table \<Rightarrow> 'v table" where
  "prune dead t = filter (\<lambda>kv. \<not> dead (snd kv)) t"

lemma wf_tbl_prune [simp]: "wf_tbl t \<Longrightarrow> wf_tbl (prune dead t)"
  by (simp add: prune_def)

lemma map_of_prune:
  "wf_tbl t \<Longrightarrow> map_of (prune dead t) k =
     (case map_of t k of None \<Rightarrow> None | Some v \<Rightarrow> if dead v then None else Some v)"
  using map_of_filter_val [of t "\<lambda>_ v. \<not> dead v" k]
  by (auto simp: prune_def case_prod_unfold split: option.splits)

lemma all_vals_prune [simp]: "all_vals p t \<Longrightarrow> all_vals p (prune dead t)"
  by (simp add: prune_def)

lemma prune_alive: "all_vals (\<lambda>v. \<not> dead v) (prune dead t)"
  by (simp add: prune_def all_vals_def)

locale expiry =
  fixes expired :: "time_ns \<Rightarrow> 'v \<Rightarrow> bool"
  assumes expired_mono: "expired now v \<Longrightarrow> now \<le> later \<Longrightarrow> expired later v"
begin

lemma alive_before: "\<not> expired later v \<Longrightarrow> now \<le> later \<Longrightarrow> \<not> expired now v"
  using expired_mono by blast

lemma prune_twice:
  "now \<le> later \<Longrightarrow> prune (expired later) (prune (expired now) t) = prune (expired later) t"
  by (auto simp: prune_def intro!: filter_cong dest: expired_mono)

lemma prune_keeps:
  "wf_tbl t \<Longrightarrow> map_of t k = Some v \<Longrightarrow> \<not> expired later v \<Longrightarrow> now \<le> later \<Longrightarrow>
   map_of (prune (expired now) t) k = Some v"
  by (simp add: map_of_prune alive_before)

lemma prune_drops:
  "wf_tbl t \<Longrightarrow> map_of t k = Some v \<Longrightarrow> expired now v \<Longrightarrow> now \<le> later \<Longrightarrow>
   map_of (prune (expired later) t) k = None"
  by (simp add: map_of_prune expired_mono)

end

subsection \<open>Interface: an approximate set\<close>

text \<open>
  What the tables built on Bloom filters rely on: a key that was added is reported as present,
  and adding never makes a present key absent. A filter may report keys that were never
  added. The client lemmas are about batches of additions. A mergeable set also has a union
  that loses no key of either side.
\<close>

locale approx_set =
  fixes add :: "'k \<Rightarrow> 's \<Rightarrow> 's"
    and contains :: "'s \<Rightarrow> 'k \<Rightarrow> bool"
    and good :: "'s \<Rightarrow> bool"
  assumes good_add: "good s \<Longrightarrow> good (add k s)"
    and contains_add: "good s \<Longrightarrow> contains (add k s) k"
    and contains_mono: "good s \<Longrightarrow> contains s x \<Longrightarrow> contains (add k s) x"
begin

lemma good_adds: "good s \<Longrightarrow> good (fold add ks s)"
  by (induction ks arbitrary: s) (auto simp: good_add)

lemma adds_mono: "good s \<Longrightarrow> contains s x \<Longrightarrow> contains (fold add ks s) x"
  by (induction ks arbitrary: s) (auto simp: good_add contains_mono)

lemma adds_contain: "good s \<Longrightarrow> k \<in> set ks \<Longrightarrow> contains (fold add ks s) k"
proof (induction ks arbitrary: s)
  case (Cons a ks)
  then show ?case
    by (auto simp: good_add contains_add adds_mono)
qed simp

end

locale mergeable_set = approx_set add contains good
  for add :: "'k \<Rightarrow> 's \<Rightarrow> 's" and contains :: "'s \<Rightarrow> 'k \<Rightarrow> bool" and good :: "'s \<Rightarrow> bool" +
  fixes merge :: "'s \<Rightarrow> 's \<Rightarrow> 's"
    and compatible :: "'s \<Rightarrow> 's \<Rightarrow> bool"
  assumes good_merge: "good s \<Longrightarrow> good t \<Longrightarrow> compatible s t \<Longrightarrow> good (merge s t)"
    and merge_left: "good s \<Longrightarrow> good t \<Longrightarrow> compatible s t \<Longrightarrow> contains s x \<Longrightarrow> contains (merge s t) x"
    and merge_right: "good s \<Longrightarrow> good t \<Longrightarrow> compatible s t \<Longrightarrow> contains t x \<Longrightarrow> contains (merge s t) x"
begin

lemma merge_adds:
  "good s \<Longrightarrow> good t \<Longrightarrow> compatible (fold add ks s) (fold add ls t) \<Longrightarrow> x \<in> set ks \<union> set ls \<Longrightarrow>
   contains (merge (fold add ks s) (fold add ls t)) x"
  by (auto intro: merge_left merge_right good_adds adds_contain)

end

subsection \<open>Interface: a transition system with an invariant\<close>

text \<open>
  Components that are run by an unknown sequence of steps: an initial-state predicate, a step
  relation, and an invariant that both respect. The client lemma is that every state reached
  by any sequence of steps satisfies the invariant.
\<close>

locale invariant_system =
  fixes init :: "'s \<Rightarrow> bool"
    and step :: "'s \<Rightarrow> 's \<Rightarrow> bool"
    and inv :: "'s \<Rightarrow> bool"
  assumes init_inv: "init s \<Longrightarrow> inv s"
    and step_inv: "inv s \<Longrightarrow> step s t \<Longrightarrow> inv t"
begin

lemma steps_inv: "step\<^sup>*\<^sup>* s t \<Longrightarrow> inv s \<Longrightarrow> inv t"
  by (induction rule: rtranclp_induct) (auto intro: step_inv)

lemma reachable_inv: "init s \<Longrightarrow> step\<^sup>*\<^sup>* s t \<Longrightarrow> inv t"
  by (blast intro: init_inv steps_inv)

end

end
