(* ===== verification/Query_Table.thy ===== *)
theory Query_Table
  imports Netos_Prelude
begin

text \<open>
  \<^verbatim>\<open>tables/query_table.cpp\<close>: the table of recently seen request ids that suppresses duplicates. The
  specification is a history that never forgets: an id is a duplicate when it was accepted
  at most TTL ago. The table, which erases expired entries on every call, refines it on every
  sequence of calls with a monotonic clock. The counters satisfy an accounting equation.
\<close>

subsection \<open>State and operations\<close>

record query_table =
  qt_ttl :: int
  qt_table :: "time_ns table"
  qt_attempts :: u64
  qt_duplicates :: u64
  qt_pruned :: u64

record query_stats =
  qs_size :: nat
  qs_attempts :: u64
  qs_duplicates :: u64
  qs_pruned :: u64

definition query_table_new :: "int \<Rightarrow> query_table" where
  "query_table_new ttl =
     \<lparr>qt_ttl = ttl, qt_table = [], qt_attempts = 0, qt_duplicates = 0, qt_pruned = 0\<rparr>"

text \<open>The traversal of \<^verbatim>\<open>prune\<close>: the remaining entries and the number of erased ones.\<close>

fun query_prune_loop :: "int \<Rightarrow> time_ns \<Rightarrow> time_ns table \<Rightarrow> time_ns table \<times> nat" where
  "query_prune_loop ttl now [] = ([], 0)"
| "query_prune_loop ttl now ((k, t) # rest) =
     (let (rest', removed) = query_prune_loop ttl now rest in
      if now - t > ms_ns ttl then (rest', Suc removed) else ((k, t) # rest', removed))"

definition query_prune :: "time_ns \<Rightarrow> query_table \<Rightarrow> nat \<times> query_table" where
  "query_prune now qt = (let (t, removed) = query_prune_loop (qt_ttl qt) now (qt_table qt)
     in (removed, qt\<lparr>qt_table := t\<rparr>))"

text \<open>\<^verbatim>\<open>record_if_new\<close> reads the clock twice: \<open>now\<close> when it prunes, \<open>stamp\<close> when it stores.\<close>

definition record_if_new :: "time_ns \<Rightarrow> time_ns \<Rightarrow> string \<Rightarrow> query_table \<Rightarrow> bool \<times> query_table" where
  "record_if_new now stamp request_id qt0 =
     (let qt1 = qt0\<lparr>qt_attempts := qt_attempts qt0 + 1\<rparr>;
          (removed, qt2) = query_prune now qt1;
          qt3 = qt2\<lparr>qt_pruned := qt_pruned qt2 + of_nat removed\<rparr>
      in case map_of (qt_table qt3) request_id of
           Some _ \<Rightarrow> (False, qt3\<lparr>qt_duplicates := qt_duplicates qt3 + 1\<rparr>)
         | None \<Rightarrow> (True, qt3\<lparr>qt_table := AList.update request_id stamp (qt_table qt3)\<rparr>))"

definition query_stats_of :: "query_table \<Rightarrow> query_stats" where
  "query_stats_of qt = \<lparr>qs_size = length (qt_table qt), qs_attempts = qt_attempts qt,
     qs_duplicates = qt_duplicates qt, qs_pruned = qt_pruned qt\<rparr>"

subsection \<open>Expiry\<close>

definition query_expired :: "int \<Rightarrow> time_ns \<Rightarrow> time_ns \<Rightarrow> bool" where
  "query_expired ttl now t \<longleftrightarrow> now - t > ms_ns ttl"

interpretation query_expiry: expiry "query_expired ttl" for ttl
  by unfold_locales (simp add: query_expired_def)

lemma query_prune_loop_eq:
  "query_prune_loop ttl now t =
     (prune (query_expired ttl now) t, length t - length (prune (query_expired ttl now) t))"
proof (induction ttl now t rule: query_prune_loop.induct)
  case (2 ttl now k t rest)
  moreover have "length (prune (query_expired ttl now) rest) \<le> length rest"
    by (simp add: prune_def)
  ultimately show ?case
    by (simp add: prune_def query_expired_def Suc_diff_le)
qed (simp add: prune_def)

definition qt_wf :: "query_table \<Rightarrow> bool" where
  "qt_wf qt \<longleftrightarrow> wf_tbl (qt_table qt)"

lemma qt_wf_new [simp]: "qt_wf (query_table_new ttl)"
  by (simp add: qt_wf_def query_table_new_def)

text \<open>One call, in terms of the pruned table.\<close>

lemma record_if_new_eq:
  fixes qt :: query_table and now :: time_ns
  defines "t \<equiv> prune (query_expired (qt_ttl qt) now) (qt_table qt)"
  shows "fst (record_if_new now stamp rid qt) \<longleftrightarrow> map_of t rid = None"
    and "qt_table (snd (record_if_new now stamp rid qt)) =
           (if map_of t rid = None then AList.update rid stamp t else t)"
    and "qt_ttl (snd (record_if_new now stamp rid qt)) = qt_ttl qt"
  by (simp_all add: record_if_new_def query_prune_def query_prune_loop_eq t_def Let_def
      split: option.splits)

lemma record_if_new_wf: "qt_wf qt \<Longrightarrow> qt_wf (snd (record_if_new now stamp rid qt))"
  by (simp add: qt_wf_def record_if_new_eq)

subsection \<open>Accounting\<close>

text \<open>Every call is counted once: as a duplicate, or as an entry that is in the table or was pruned
  from it. The counters wrap at \<open>2^64\<close>, and the equation holds modulo that.\<close>

definition qt_accounts :: "query_table \<Rightarrow> bool" where
  "qt_accounts qt \<longleftrightarrow> qt_attempts qt = qt_duplicates qt + qt_pruned qt + of_nat (length (qt_table qt))"

lemma record_if_new_accounts:
  assumes "qt_accounts qt"
  shows "qt_accounts (snd (record_if_new now stamp rid qt))"
proof -
  let ?t = "prune (query_expired (qt_ttl qt) now) (qt_table qt)"
  have le: "length ?t \<le> length (qt_table qt)"
    by (simp add: prune_def)
  show ?thesis
    using assms le
    by (simp add: qt_accounts_def record_if_new_def query_prune_def query_prune_loop_eq Let_def
        length_update split: option.splits)
qed

subsection \<open>The specification: a history that never forgets\<close>

type_synonym call = "time_ns \<times> time_ns \<times> string"

fun run_records :: "query_table \<Rightarrow> call list \<Rightarrow> bool list \<times> query_table" where
  "run_records qt [] = ([], qt)"
| "run_records qt ((now, stamp, rid) # calls) =
     (let (b, qt') = record_if_new now stamp rid qt; (bs, qt'') = run_records qt' calls
      in (b # bs, qt''))"

lemma run_records_Cons:
  "run_records qt ((now, stamp, rid) # calls) =
     (fst (record_if_new now stamp rid qt)
        # fst (run_records (snd (record_if_new now stamp rid qt)) calls),
      snd (run_records (snd (record_if_new now stamp rid qt)) calls))"
  by (simp split: prod.splits)

declare run_records.simps(2) [simp del]

definition seen_recently :: "int \<Rightarrow> (string \<times> time_ns) list \<Rightarrow> time_ns \<Rightarrow> string \<Rightarrow> bool" where
  "seen_recently ttl hist now rid \<longleftrightarrow> (\<exists>(r, t) \<in> set hist. r = rid \<and> now - t \<le> ms_ns ttl)"

fun dedup_spec :: "int \<Rightarrow> (string \<times> time_ns) list \<Rightarrow> call list \<Rightarrow> bool list" where
  "dedup_spec ttl hist [] = []"
| "dedup_spec ttl hist ((now, stamp, rid) # calls) =
     (if seen_recently ttl hist now rid then False # dedup_spec ttl hist calls
      else True # dedup_spec ttl ((rid, stamp) # hist) calls)"

fun clock_ordered :: "time_ns \<Rightarrow> call list \<Rightarrow> bool" where
  "clock_ordered prev [] = True"
| "clock_ordered prev ((now, stamp, rid) # calls) =
     (prev \<le> now \<and> now \<le> stamp \<and> clock_ordered stamp calls)"

text \<open>The table agrees with the history up to entries too old to matter from \<open>prev\<close> on.\<close>

definition refines_history :: "query_table \<Rightarrow> (string \<times> time_ns) list \<Rightarrow> time_ns \<Rightarrow> bool" where
  "refines_history qt hist prev \<longleftrightarrow> qt_wf qt
     \<and> (\<forall>(r, t) \<in> set (qt_table qt). (r, t) \<in> set hist)
     \<and> (\<forall>(r, t) \<in> set hist. (r, t) \<in> set (qt_table qt) \<or> query_expired (qt_ttl qt) prev t)"

lemma refines_seen:
  assumes "refines_history qt hist prev" "prev \<le> now"
  shows "map_of (prune (query_expired (qt_ttl qt) now) (qt_table qt)) rid = None
     \<longleftrightarrow> \<not> seen_recently (qt_ttl qt) hist now rid"
proof -
  have wf: "wf_tbl (qt_table qt)"
    using assms(1) by (simp add: refines_history_def qt_wf_def)
  have "seen_recently (qt_ttl qt) hist now rid \<longleftrightarrow>
      (\<exists>t. (rid, t) \<in> set (qt_table qt) \<and> \<not> query_expired (qt_ttl qt) now t)"
  proof -
    have "(rid, t) \<in> set (qt_table qt)" if "(rid, t) \<in> set hist" "\<not> query_expired (qt_ttl qt) now t" for t
      using that assms query_expiry.alive_before unfolding refines_history_def by fast
    moreover have "(rid, t) \<in> set hist" if "(rid, t) \<in> set (qt_table qt)" for t
      using that assms(1) unfolding refines_history_def by fast
    ultimately have "(\<exists>t. (rid, t) \<in> set hist \<and> \<not> query_expired (qt_ttl qt) now t) \<longleftrightarrow>
        (\<exists>t. (rid, t) \<in> set (qt_table qt) \<and> \<not> query_expired (qt_ttl qt) now t)"
      by blast
    then show ?thesis
      by (auto simp: seen_recently_def query_expired_def not_less)
  qed
  with wf show ?thesis
    by (auto simp: map_of_prune wf_tbl_mem split: option.splits)
qed

lemma refines_step:
  fixes rid :: string
  assumes ref: "refines_history qt hist prev" and ord: "prev \<le> now" "now \<le> stamp"
  defines "hist' \<equiv> (if seen_recently (qt_ttl qt) hist now rid then hist else (rid, stamp) # hist)"
  shows "refines_history (snd (record_if_new now stamp rid qt)) hist' stamp"
proof -
  let ?p = "prune (query_expired (qt_ttl qt) now) (qt_table qt)"
  have mem: "x \<in> set ?p \<longleftrightarrow> x \<in> set (qt_table qt) \<and> \<not> query_expired (qt_ttl qt) now (snd x)" for x
    by (auto simp: prune_def)
  have old: "query_expired (qt_ttl qt) now t \<Longrightarrow> query_expired (qt_ttl qt) stamp t"
    and older: "query_expired (qt_ttl qt) prev t \<Longrightarrow> query_expired (qt_ttl qt) stamp t" for t
    using ord by (auto simp: query_expired_def)
  show ?thesis
    using ref refines_seen [OF ref ord(1), of rid] old older
    by (auto simp: refines_history_def record_if_new_wf record_if_new_eq hist'_def mem set_update_new)
qed

lemma record_decides:
  "refines_history qt hist prev \<Longrightarrow> prev \<le> now \<Longrightarrow>
   fst (record_if_new now stamp rid qt) \<longleftrightarrow> \<not> seen_recently (qt_ttl qt) hist now rid"
  by (simp add: record_if_new_eq refines_seen)

lemma run_refines:
  "refines_history qt hist prev \<Longrightarrow> clock_ordered prev calls \<Longrightarrow>
   fst (run_records qt calls) = dedup_spec (qt_ttl qt) hist calls"
proof (induction calls arbitrary: qt hist prev)
  case (Cons c calls)
  obtain now stamp rid where c: "c = (now, stamp, rid)"
    by (cases c) auto
  let ?qt' = "snd (record_if_new now stamp rid qt)"
  have ord: "prev \<le> now" "now \<le> stamp" "clock_ordered stamp calls"
    using Cons.prems(2) by (simp_all add: c)
  note ref = refines_step [OF Cons.prems(1) ord(1,2), of rid]
  have "fst (run_records ?qt' calls) =
      dedup_spec (qt_ttl qt) (if seen_recently (qt_ttl qt) hist now rid then hist else (rid, stamp) # hist) calls"
    using Cons.IH [OF ref ord(3)] by (simp add: record_if_new_eq)
  with record_decides [OF Cons.prems(1) ord(1), of stamp rid] show ?case
    by (simp add: c run_records_Cons)
qed simp

lemma run_accounts: "qt_accounts qt \<Longrightarrow> qt_accounts (snd (run_records qt calls))"
proof (induction calls arbitrary: qt)
  case (Cons c calls)
  then show ?case
    by (cases c) (simp add: run_records_Cons record_if_new_accounts)
qed simp

lemma refines_new: "refines_history (query_table_new ttl) [] prev"
  by (simp add: refines_history_def) (simp add: query_table_new_def)

subsection \<open>Properties\<close>

text \<open>C20. Refinement. On every sequence of calls with a monotonic clock, the answers of a new table are
  those of the specification that keeps every accepted id for ever and calls an id a
  duplicate exactly when it was accepted at most TTL milliseconds before.\<close>

theorem query_table_refines_history:
  assumes "clock_ordered start calls"
  shows "fst (run_records (query_table_new ttl) calls) = dedup_spec ttl [] calls"
  using run_refines [OF refines_new assms, of ttl] by (simp add: query_table_new_def)

theorem query_table_refines_history_witness:
  "fst (run_records (query_table_new 1)
      [(0, 10, ''a''), (20, 30, ''a''), (1000010, 1000010, ''a''), (1000011, 1000012, ''a'')])
   = [True, False, False, True]"
  using query_table_refines_history
    [of 0 "[(0, 10, ''a''), (20, 30, ''a''), (1000010, 1000010, ''a''), (1000011, 1000012, ''a'')]" 1]
  by (simp add: seen_recently_def ms_ns_def)

text \<open>Accounting. After any sequence of calls on a new table, the number of attempts is the number of
  duplicates plus the number of pruned entries plus the size of the table (modulo \<open>2^64\<close>), so the
  logged statistics never lose a request.\<close>

theorem query_table_accounting:
  "qs_attempts (query_stats_of (snd (run_records (query_table_new ttl) calls))) =
     (let s = query_stats_of (snd (run_records (query_table_new ttl) calls))
      in qs_duplicates s + qs_pruned s + of_nat (qs_size s))"
  using run_accounts [of "query_table_new ttl" calls]
  by (simp add: qt_accounts_def query_table_new_def query_stats_of_def Let_def)

end
