(* ===== verification/C_Strings.thy ===== *)
theory C_Strings
  imports Netos_Prelude
begin

text \<open>
  The parts of the C and C++ standard library that the sources call on strings:
  \<^verbatim>\<open>isspace\<close> and \<^verbatim>\<open>tolower\<close> in the C locale, \<^verbatim>\<open>c_str\<close>, \<^verbatim>\<open>strtol\<close> and \<^verbatim>\<open>strtoull\<close> in base 10 (on a
  platform with 64-bit \<^verbatim>\<open>long\<close>, as the Linux containers of the repository have), and
  \<^verbatim>\<open>std::to_string\<close>. The lemmas show that the parsers read back what \<^verbatim>\<open>to_string\<close> prints, that
  printing is injective, and that it prints digits only.
\<close>

subsection \<open>Characters\<close>

definition is_space :: "char \<Rightarrow> bool" where
  "is_space c \<longleftrightarrow> (of_char c :: nat) = 32 \<or> (9 \<le> (of_char c :: nat) \<and> (of_char c :: nat) \<le> 13)"

definition is_digit :: "char \<Rightarrow> bool" where
  "is_digit c \<longleftrightarrow> 48 \<le> (of_char c :: nat) \<and> (of_char c :: nat) \<le> 57"

definition digit_val :: "char \<Rightarrow> nat" where
  "digit_val c = of_char c - 48"

definition digit_char :: "nat \<Rightarrow> char" where
  "digit_char d = char_of (48 + d)"

definition to_lower :: "char \<Rightarrow> char" where
  "to_lower c = (if 65 \<le> (of_char c :: nat) \<and> (of_char c :: nat) \<le> 90
                 then char_of ((of_char c :: nat) + 32) else c)"

lemma digit_char_props [simp]:
  "d < 10 \<Longrightarrow> is_digit (digit_char d)"
  "d < 10 \<Longrightarrow> digit_val (digit_char d) = d"
  by (simp_all add: is_digit_def digit_val_def digit_char_def)

lemma is_digit_not:
  "is_digit c \<Longrightarrow> \<not> is_space c" "is_digit c \<Longrightarrow> c \<noteq> CHR ''-''" "is_digit c \<Longrightarrow> c \<noteq> CHR ''+''"
  "is_digit c \<Longrightarrow> c \<noteq> CHR ''|''" "is_digit c \<Longrightarrow> c \<noteq> CHR ''.''" "is_digit c \<Longrightarrow> c \<noteq> CHR '':''"
  "is_digit c \<Longrightarrow> c \<noteq> CHR 0x00" "is_digit c \<Longrightarrow> c \<noteq> CHR 0x0D"
  by (auto simp: is_digit_def is_space_def)

subsection \<open>C strings\<close>

text \<open>A C string ends at the first NUL: \<^verbatim>\<open>std::string::c_str\<close> as the C functions read it.\<close>

definition c_str :: "string \<Rightarrow> string" where
  "c_str s = takeWhile (\<lambda>c. c \<noteq> CHR 0x00) s"

lemma c_str_id [simp]: "CHR 0x00 \<notin> set s \<Longrightarrow> c_str s = s"
  unfolding c_str_def by (rule takeWhile_eq_all_conv [THEN iffD2]) auto

subsection \<open>Decimal numerals\<close>

definition digits_val :: "string \<Rightarrow> nat" where
  "digits_val s = foldl (\<lambda>a c. 10 * a + digit_val c) 0 s"

fun show_nat :: "nat \<Rightarrow> string" where
  "show_nat n = (if n < 10 then [digit_char n]
                 else show_nat (n div 10) @ [digit_char (n mod 10)])"

declare show_nat.simps [simp del]

definition show_int :: "int \<Rightarrow> string" where
  "show_int i = (if i < 0 then CHR ''-'' # show_nat (nat (- i)) else show_nat (nat i))"

lemma show_nat_ne [simp]: "show_nat n \<noteq> []"
  by (subst show_nat.simps) simp

lemma show_nat_digits: "list_all is_digit (show_nat n)"
proof (induction n rule: show_nat.induct)
  case (1 n)
  then show ?case
    by (subst show_nat.simps) simp
qed

lemma show_nat_set: "c \<in> set (show_nat n) \<Longrightarrow> is_digit c"
  using show_nat_digits [of n] by (simp add: list_all_iff)

lemma digits_val_show_nat [simp]: "digits_val (show_nat n) = n"
proof (induction n rule: show_nat.induct)
  case (1 n)
  show ?case
  proof (cases "n < 10")
    case True
    then show ?thesis by (subst show_nat.simps) (simp add: digits_val_def)
  next
    case False
    then have "digits_val (show_nat n) = 10 * digits_val (show_nat (n div 10)) + n mod 10"
      by (subst show_nat.simps) (simp add: digits_val_def)
    with "1.IH" False show ?thesis by simp
  qed
qed

lemma show_nat_inj: "show_nat m = show_nat n \<longleftrightarrow> m = n"
  using digits_val_show_nat by metis

lemma show_nat_Cons: "\<exists>c cs. show_nat n = c # cs \<and> is_digit c"
  using show_nat_digits [of n] by (cases "show_nat n") auto

lemma show_int_chars: "c \<in> set (show_int i) \<Longrightarrow> is_digit c \<or> c = CHR ''-''"
  by (auto simp: show_int_def dest: show_nat_set split: if_splits)

lemma show_int_no_bar [simp]: "CHR ''|'' \<notin> set (show_int i)"
  by (auto dest!: show_int_chars simp: is_digit_def)

lemma show_int_no_nul [simp]: "CHR 0x00 \<notin> set (show_int i)"
  by (auto dest!: show_int_chars simp: is_digit_def)

lemma show_nat_no_nul [simp]: "CHR 0x00 \<notin> set (show_nat i)"
  by (auto dest!: show_nat_set simp: is_digit_def)

lemma show_nat_no_bar [simp]: "CHR ''|'' \<notin> set (show_nat i)"
  by (auto dest!: show_nat_set simp: is_digit_def)

lemma show_int_ne [simp]: "show_int i \<noteq> []"
  by (simp add: show_int_def)

subsection \<open>strtol and strtoull\<close>

text \<open>
  Both return the value and the rest of the string (where \<^verbatim>\<open>end\<close> points); the rest is the whole
  string when no digit was found. Out-of-range values saturate.
\<close>

definition parse_sign :: "string \<Rightarrow> bool \<times> string" where
  "parse_sign s = (case s of [] \<Rightarrow> (False, [])
     | c # r \<Rightarrow> if c = CHR ''-'' then (True, r) else if c = CHR ''+'' then (False, r) else (False, s))"

definition clamp_long :: "int \<Rightarrow> int" where
  "clamp_long v = max (- 9223372036854775808) (min 9223372036854775807 v)"

definition strtol :: "string \<Rightarrow> int \<times> string" where
  "strtol s = (let (neg, u) = parse_sign (dropWhile is_space s); ds = takeWhile is_digit u in
     if ds = [] then (0, s)
     else (clamp_long (if neg then - int (digits_val ds) else int (digits_val ds)), dropWhile is_digit u))"

definition strtoull :: "string \<Rightarrow> u64 \<times> string" where
  "strtoull s = (let (neg, u) = parse_sign (dropWhile is_space s); ds = takeWhile is_digit u in
     if ds = [] then (0, s)
     else (if digits_val ds \<ge> 2 ^ 64 then - 1
           else if neg then - of_nat (digits_val ds) else of_nat (digits_val ds), dropWhile is_digit u))"

lemma takeWhile_show_nat [simp]:
  "takeWhile is_digit (show_nat n) = show_nat n" "dropWhile is_digit (show_nat n) = []"
  using show_nat_digits [of n] by (auto simp: list_all_iff takeWhile_eq_all_conv dropWhile_eq_Nil_conv)

lemma parse_sign_show_nat [simp]:
  "parse_sign (dropWhile is_space (show_nat n)) = (False, show_nat n)"
  using show_nat_Cons [of n] by (auto simp: parse_sign_def is_digit_not)

lemma strtol_show_int:
  "- 9223372036854775808 \<le> i \<Longrightarrow> i \<le> 9223372036854775807 \<Longrightarrow> strtol (show_int i) = (i, [])"
proof (cases "i < 0")
  case True
  have "dropWhile is_space (CHR ''-'' # show_nat (nat (- i))) = CHR ''-'' # show_nat (nat (- i))"
    by (simp add: is_space_def)
  moreover assume "- 9223372036854775808 \<le> i" "i \<le> 9223372036854775807"
  ultimately show ?thesis
    using True by (simp add: strtol_def show_int_def parse_sign_def clamp_long_def)
next
  case False
  moreover assume "- 9223372036854775808 \<le> i" "i \<le> 9223372036854775807"
  ultimately show ?thesis
    by (simp add: strtol_def show_int_def clamp_long_def)
qed

lemma strtoull_show_nat: "strtoull (show_nat (unat (w :: u64))) = (w, [])"
proof -
  have "unat w < 2 ^ 64"
    using unsigned_less [of w] by simp
  then show ?thesis
    by (simp add: strtoull_def)
qed

end
