(* ===== verification/Redis_Client.thy ===== *)
theory Redis_Client
  imports C_Strings
begin

text \<open>
  \<^verbatim>\<open>cache/redis_client.cpp\<close>: the client of the local Redis instance, which speaks RESP over a Unix
  socket. The socket is a parameter: \<open>send\<close> and \<open>recv\<close> act on an unknown state, and what the
  theorems need of them is that a stream socket delivers bytes in order, in pieces of any size. The
  lemmas show that a command is sent as one exact byte string whatever the kernel accepts per
  call, and that the reader consumes exactly one reply and hands back the bytes of a bulk string,
  however the stream is cut into pieces.
\<close>

subsection \<open>The socket and the state of the client\<close>

text \<open>\<^verbatim>\<open>recv\<close> returns no bytes (an error or the end of the stream, with the text of \<^verbatim>\<open>errno\<close>) or at least
  one. \<^verbatim>\<open>send\<close> returns the text of \<^verbatim>\<open>errno\<close> when its result is not positive, or the number of bytes
  taken, given here less one.\<close>

datatype recv_result = NoBytes string | Bytes char string

datatype send_result = SendFailed string | SentBytes nat

type_synonym 's receiver = "nat \<Rightarrow> 's \<Rightarrow> recv_result \<times> 's"
type_synonym 's sender = "string \<Rightarrow> 's \<Rightarrow> send_result \<times> 's"

record redis_client =
  rc_path :: string
  rc_connected :: bool  \<comment> \<open>\<^verbatim>\<open>fd_ >= 0\<close>\<close>

record resp_value =
  rv_type :: char
  rv_payload :: string
  rv_is_null :: bool

definition redis_client_new :: "string \<Rightarrow> redis_client" where
  "redis_client_new path = \<lparr>rc_path = path, rc_connected = False\<rparr>"

definition crlf :: string where
  "crlf = [CHR 0x0D, CHR 0x0A]"

text \<open>\<^verbatim>\<open>connect\<close>, given the errors of the calls \<^verbatim>\<open>socket\<close> and \<^verbatim>\<open>connect\<close>, if any. The result is the error
  text, or \<^const>\<open>None\<close> for success. A path that is too long leaves an unconnected socket open.\<close>

definition redis_connect :: "string option \<Rightarrow> string option \<Rightarrow> redis_client \<Rightarrow> string option \<times> redis_client" where
  "redis_connect socket_error connect_error rc =
     (case socket_error of
        Some e \<Rightarrow> (Some (''socket() failed: '' @ e), rc\<lparr>rc_connected := False\<rparr>)
      | None \<Rightarrow>
          let rc1 = rc\<lparr>rc_connected := True\<rparr>
          in if length (rc_path rc1) \<ge> 108 then (Some ''socket path too long'', rc1)
             else (case connect_error of
                     Some e \<Rightarrow> (Some (''connect() failed: '' @ e), rc1)
                   | None \<Rightarrow> (None, rc1)))"

subsection \<open>Sending\<close>

definition resp_arg :: "string \<Rightarrow> string" where
  "resp_arg arg = ''$'' @ show_nat (length arg) @ crlf @ arg @ crlf"

definition resp_command :: "string list \<Rightarrow> string" where
  "resp_command args = ''*'' @ show_nat (length args) @ crlf @ concat (map resp_arg args)"

function send_loop :: "'s sender \<Rightarrow> string \<Rightarrow> 's \<Rightarrow> string option \<times> 's" where
  "send_loop send payload s =
     (if payload = [] then (None, s)
      else case send payload s of
             (SendFailed e, s') \<Rightarrow> (Some (''send() failed: '' @ e), s')
           | (SentBytes k, s') \<Rightarrow> send_loop send (drop (Suc k) payload) s')"
  by pat_completeness auto

termination
  by (relation "measure (\<lambda>(_, payload, _). length payload)") (auto simp: length_greater_0_conv)

declare send_loop.simps [simp del]

definition send_command :: "'s sender \<Rightarrow> redis_client \<Rightarrow> string list \<Rightarrow> 's \<Rightarrow> string option \<times> 's" where
  "send_command send rc args s =
     (if \<not> rc_connected rc then (Some ''redis socket not connected'', s)
      else send_loop send (resp_command args) s)"

subsection \<open>Receiving\<close>

text \<open>A line may never end: the loop is partial, and \<^const>\<open>None\<close> means that it does not return.\<close>

partial_function (option) read_line :: "'s receiver \<Rightarrow> string \<Rightarrow> 's \<Rightarrow> ((string + string) \<times> 's) option" where
  "read_line recv out s =
     (case recv 1 s of
        (NoBytes e, s') \<Rightarrow> Some (Inl (''recv() failed: '' @ e), s')
      | (Bytes ch _, s') \<Rightarrow>
          if ch = CHR 0x0D
          then (case recv 1 s' of
                  (NoBytes e, s'') \<Rightarrow> Some (Inl ''invalid line ending'', s'')
                | (Bytes next _, s'') \<Rightarrow>
                    if next \<noteq> CHR 0x0A then Some (Inl ''invalid line ending'', s'') else Some (Inr out, s''))
          else read_line recv (out @ [ch]) s')"

text \<open>\<^verbatim>\<open>read_exact\<close> asks for at most 256 bytes at a time.\<close>

function read_exact :: "'s receiver \<Rightarrow> nat \<Rightarrow> string \<Rightarrow> 's \<Rightarrow> (string + string) \<times> 's" where
  "read_exact recv len out s =
     (if length out < len
      then let remaining = len - length out;
               chunk = (if remaining < 256 then remaining else 256)
           in case recv chunk s of
                (NoBytes e, s') \<Rightarrow> (Inl (''recv() failed: '' @ e), s')
              | (Bytes c cs, s') \<Rightarrow> read_exact recv len (out @ c # cs) s'
      else (Inr out, s))"
  by pat_completeness auto

termination
  by (relation "measure (\<lambda>(_, len, out, _). len - length out)") auto

declare read_exact.simps [simp del]

text \<open>\<^verbatim>\<open>std::stoi\<close>: \<^verbatim>\<open>strtol\<close>, with an exception when there is no number or it is not an \<^verbatim>\<open>int\<close>.\<close>

definition stoi :: "string \<Rightarrow> int option" where
  "stoi s = (let (v, rest) = strtol s in if rest = s \<or> \<not> in_int32 v then None else Some v)"

definition read_resp :: "'s receiver \<Rightarrow> 's \<Rightarrow> ((string + resp_value) \<times> 's) option" where
  "read_resp recv s =
     (case read_line recv [] s of
        None \<Rightarrow> None
      | Some (Inl e, s1) \<Rightarrow> Some (Inl e, s1)
      | Some (Inr line, s1) \<Rightarrow>
          if line = [] then Some (Inl ''empty response'', s1)
          else let ty = hd line; payload = tl line
               in if ty = CHR ''$''
                  then (case stoi payload of
                          None \<Rightarrow> Some (Inl ''invalid bulk length'', s1)
                        | Some len \<Rightarrow>
                            if len < 0 then Some (Inr \<lparr>rv_type = ty, rv_payload = [], rv_is_null = True\<rparr>, s1)
                            else (case read_exact recv (nat len + 2) [] s1 of
                                    (Inl e, s2) \<Rightarrow> Some (Inl e, s2)
                                  | (Inr bulk, s2) \<Rightarrow>
                                      Some (Inr \<lparr>rv_type = ty,
                                        rv_payload = (if length bulk \<ge> 2 then take (length bulk - 2) bulk else []),
                                        rv_is_null = False\<rparr>, s2)))
                  else Some (Inr \<lparr>rv_type = ty, rv_payload = payload, rv_is_null = False\<rparr>, s1))"

subsection \<open>The two commands\<close>

text \<open>\<^verbatim>\<open>set\<close> returns success or the error text; \<^verbatim>\<open>get\<close> the value, if any, and the error text it stored,
  if any.\<close>

definition redis_set ::
  "'s sender \<Rightarrow> 's receiver \<Rightarrow> redis_client \<Rightarrow> string \<Rightarrow> string \<Rightarrow> 's \<Rightarrow> (string option \<times> 's) option" where
  "redis_set send recv rc key val s =
     (case send_command send rc [''SET'', key, val] s of
        (Some e, s1) \<Rightarrow> Some (Some e, s1)
      | (None, s1) \<Rightarrow>
          (case read_resp recv s1 of
             None \<Rightarrow> None
           | Some (Inl e, s2) \<Rightarrow> Some (Some e, s2)
           | Some (Inr resp, s2) \<Rightarrow>
               if rv_type resp = CHR ''-'' then Some (Some (''redis error: '' @ rv_payload resp), s2)
               else Some (None, s2)))"

definition redis_get ::
  "'s sender \<Rightarrow> 's receiver \<Rightarrow> redis_client \<Rightarrow> string \<Rightarrow> 's \<Rightarrow> ((string option \<times> string option) \<times> 's) option" where
  "redis_get send recv rc key s =
     (case send_command send rc [''GET'', key] s of
        (Some e, s1) \<Rightarrow> Some ((None, Some e), s1)
      | (None, s1) \<Rightarrow>
          (case read_resp recv s1 of
             None \<Rightarrow> None
           | Some (Inl e, s2) \<Rightarrow> Some ((None, Some e), s2)
           | Some (Inr resp, s2) \<Rightarrow>
               if rv_type resp = CHR ''$''
               then Some ((if rv_is_null resp then None else Some (rv_payload resp), None), s2)
               else if rv_type resp = CHR ''-''
               then Some ((None, Some (''redis error: '' @ rv_payload resp)), s2)
               else Some ((None, None), s2)))"

subsection \<open>What a stream socket promises\<close>

text \<open>\<open>incoming s\<close> are the bytes that will arrive and \<open>sent s\<close> the bytes taken so far. A receive returns a
  first piece of the bytes that are to arrive and fails only when there are none; a send takes a first piece
  of its bytes or nothing.\<close>

definition stream_recv :: "'s receiver \<Rightarrow> ('s \<Rightarrow> string) \<Rightarrow> bool" where
  "stream_recv recv incoming \<longleftrightarrow>
     (\<forall>n s. 0 < n \<longrightarrow> (case recv n s of
        (NoBytes e, s') \<Rightarrow> incoming s = [] \<and> incoming s' = []
      | (Bytes c cs, s') \<Rightarrow> Suc (length cs) \<le> n \<and> incoming s = c # cs @ incoming s'))"

definition stream_send :: "'s sender \<Rightarrow> ('s \<Rightarrow> string) \<Rightarrow> bool" where
  "stream_send send sent \<longleftrightarrow>
     (\<forall>d s. d \<noteq> [] \<longrightarrow> (case send d s of
        (SendFailed e, s') \<Rightarrow> sent s' = sent s
      | (SentBytes k, s') \<Rightarrow> k < length d \<and> sent s' = sent s @ take (Suc k) d))"

lemma recv_cases:
  assumes law: "stream_recv recv incoming" and n: "0 < n"
  obtains (none) e s' where "recv n s = (NoBytes e, s')" "incoming s = []" "incoming s' = []"
    | (data) c cs s' where "recv n s = (Bytes c cs, s')" "Suc (length cs) \<le> n" "incoming s = c # cs @ incoming s'"
proof -
  obtain a s' where call: "recv n s = (a, s')" by fastforce
  have "case recv n s of (NoBytes e, s') \<Rightarrow> incoming s = [] \<and> incoming s' = []
      | (Bytes c cs, s') \<Rightarrow> Suc (length cs) \<le> n \<and> incoming s = c # cs @ incoming s'"
    by (rule law [unfolded stream_recv_def, rule_format, OF n])
  then have r: "case a of NoBytes e \<Rightarrow> incoming s = [] \<and> incoming s' = []
      | Bytes c cs \<Rightarrow> Suc (length cs) \<le> n \<and> incoming s = c # cs @ incoming s'"
    by (simp add: call)
  show thesis
  proof (cases a)
    case (NoBytes e)
    with r call show thesis by (intro none [of e s']) simp_all
  next
    case (Bytes c cs)
    with r call show thesis by (intro data [of c cs s']) simp_all
  qed
qed

lemma recv_one:
  assumes "stream_recv recv incoming" "incoming s = c # r"
  obtains s' where "recv 1 s = (Bytes c [], s')" "incoming s' = r"
  by (rule recv_cases [OF assms(1) zero_less_one, of s]) (use assms(2) in auto)

lemma send_cases:
  assumes law: "stream_send send sent" and d: "d \<noteq> []"
  obtains (failed) e s' where "send d s = (SendFailed e, s')" "sent s' = sent s"
    | (some) k s' where "send d s = (SentBytes k, s')" "k < length d" "sent s' = sent s @ take (Suc k) d"
proof -
  obtain a s' where call: "send d s = (a, s')" by fastforce
  have "case send d s of (SendFailed e, s') \<Rightarrow> sent s' = sent s
      | (SentBytes k, s') \<Rightarrow> k < length d \<and> sent s' = sent s @ take (Suc k) d"
    by (rule law [unfolded stream_send_def, rule_format, OF d])
  then have r: "case a of SendFailed e \<Rightarrow> sent s' = sent s
      | SentBytes k \<Rightarrow> k < length d \<and> sent s' = sent s @ take (Suc k) d"
    by (simp add: call)
  show thesis
  proof (cases a)
    case (SendFailed e)
    with r call show thesis by (intro failed [of e s']) simp_all
  next
    case (SentBytes k)
    with r call show thesis by (intro some [of k s']) simp_all
  qed
qed

lemma send_loop_sent:
  assumes "stream_send send sent" "send_loop send d s = (r, s')"
  shows "case r of None \<Rightarrow> sent s' = sent s @ d | Some e \<Rightarrow> \<exists>p q. sent s' = sent s @ p \<and> d = p @ q \<and> q \<noteq> []"
  using assms(2)
proof (induction d arbitrary: s rule: length_induct)
  case (1 d)
  show ?case
  proof (cases "d = []")
    case True
    with "1.prems" show ?thesis by (auto simp: send_loop.simps [of send "[]"])
  next
    case False
    show ?thesis
    proof (rule send_cases [OF assms(1) False, of s])
      fix e s1 assume "send d s = (SendFailed e, s1)" "sent s1 = sent s"
      with "1.prems" False show ?thesis
        by (auto simp: send_loop.simps [of send d])
    next
      fix k s1 assume call: "send d s = (SentBytes k, s1)" and k: "k < length d" "sent s1 = sent s @ take (Suc k) d"
      have "send_loop send (drop (Suc k) d) s1 = (r, s')"
        using "1.prems" False call by (simp add: send_loop.simps [of send d])
      moreover have "length (drop (Suc k) d) < length d"
        using k(1) by simp
      ultimately have IH: "case r of None \<Rightarrow> sent s' = sent s1 @ drop (Suc k) d
          | Some e \<Rightarrow> \<exists>p q. sent s' = sent s1 @ p \<and> drop (Suc k) d = p @ q \<and> q \<noteq> []"
        using "1.IH" by blast
      show ?thesis
      proof (cases r)
        case None
        with IH k show ?thesis by simp
      next
        case (Some e)
        with IH obtain p q where pq: "sent s' = sent s1 @ p" "drop (Suc k) d = p @ q" "q \<noteq> []" by auto
        then have "sent s' = sent s @ (take (Suc k) d @ p) \<and> d = (take (Suc k) d @ p) @ q"
          using k by (metis append.assoc append_take_drop_id)
        then show ?thesis
          unfolding Some option.case using pq(3) by blast
      qed
    qed
  qed
qed

subsection \<open>Commands are self-delimiting\<close>

lemma show_nat_no_cr: "CHR 0x0D \<notin> set (show_nat n)"
  by (auto dest!: show_nat_set simp: is_digit_def)

lemma count_line_inj:
  "show_nat m @ crlf @ a = show_nat n @ crlf @ b \<longleftrightarrow> m = n \<and> a = b"
  by (simp add: crlf_def sep_prefix_inj show_nat_no_cr show_nat_inj)

lemma resp_args_inj:
  "length as = length bs \<Longrightarrow>
   concat (map resp_arg as) @ x =
   concat (map resp_arg bs) @ y \<longleftrightarrow> as = bs \<and> x = y"
proof (induction as bs rule: list_induct2)
  case (Cons a as b bs)
  show ?case
  proof (cases "length a = length b")
    case True
    with Cons.IH show ?thesis by (auto simp: resp_arg_def count_line_inj)
  next
    case False
    then show ?thesis by (auto simp: resp_arg_def count_line_inj)
  qed
qed simp

lemma resp_command_inj:
  "resp_command as @ x = resp_command bs @ y \<longleftrightarrow> as = bs \<and> x = y"
proof (cases "length as = length bs")
  case True
  then show ?thesis by (simp add: resp_command_def count_line_inj resp_args_inj)
next
  case False
  then show ?thesis by (auto simp: resp_command_def count_line_inj)
qed

subsection \<open>Replies\<close>

datatype resp_reply = Bulk string | NullBulk | Status string | ErrorReply string

fun reply_bytes :: "resp_reply \<Rightarrow> string" where
  "reply_bytes (Bulk v) = ''$'' @ show_nat (length v) @ crlf @ v @ crlf"
| "reply_bytes NullBulk = ''$-1'' @ crlf"
| "reply_bytes (Status t) = ''+'' @ t @ crlf"
| "reply_bytes (ErrorReply t) = ''-'' @ t @ crlf"

fun reply_ok :: "resp_reply \<Rightarrow> bool" where
  "reply_ok (Bulk v) = (length v \<le> 2147483647)"
| "reply_ok NullBulk = True"
| "reply_ok (Status t) = (CHR 0x0D \<notin> set t)"
| "reply_ok (ErrorReply t) = (CHR 0x0D \<notin> set t)"

fun reply_value :: "resp_reply \<Rightarrow> resp_value" where
  "reply_value (Bulk v) = \<lparr>rv_type = CHR ''$'', rv_payload = v, rv_is_null = False\<rparr>"
| "reply_value NullBulk = \<lparr>rv_type = CHR ''$'', rv_payload = [], rv_is_null = True\<rparr>"
| "reply_value (Status t) = \<lparr>rv_type = CHR ''+'', rv_payload = t, rv_is_null = False\<rparr>"
| "reply_value (ErrorReply t) = \<lparr>rv_type = CHR ''-'', rv_payload = t, rv_is_null = False\<rparr>"

fun get_outcome :: "resp_reply \<Rightarrow> string option \<times> string option" where
  "get_outcome (Bulk v) = (Some v, None)"
| "get_outcome NullBulk = (None, None)"
| "get_outcome (Status t) = (None, None)"
| "get_outcome (ErrorReply t) = (None, Some (''redis error: '' @ t))"

fun set_outcome :: "resp_reply \<Rightarrow> string option" where
  "set_outcome (ErrorReply t) = Some (''redis error: '' @ t)"
| "set_outcome _ = None"

lemma read_line_ok:
  assumes "stream_recv recv incoming" "CHR 0x0D \<notin> set l" "incoming s = l @ crlf @ rest"
  shows "\<exists>s'. read_line recv out s = Some (Inr (out @ l), s') \<and> incoming s' = rest"
  using assms(2,3)
proof (induction l arbitrary: out s)
  case Nil
  obtain s1 where s1: "recv 1 s = (Bytes (CHR 0x0D) [], s1)" "incoming s1 = CHR 0x0A # rest"
    using recv_one [OF assms(1), of s] Nil by (auto simp: crlf_def)
  obtain s2 where "recv 1 s1 = (Bytes (CHR 0x0A) [], s2)" "incoming s2 = rest"
    using recv_one [OF assms(1) s1(2)] by blast
  with s1(1) show ?case
    by (subst read_line.simps) (simp del: One_nat_def)
next
  case (Cons c l)
  obtain s1 where s1: "recv 1 s = (Bytes c [], s1)" "incoming s1 = l @ crlf @ rest"
    using recv_one [OF assms(1), of s] Cons.prems(2) by auto
  have "\<exists>s'. read_line recv (out @ [c]) s1 = Some (Inr (out @ c # l), s') \<and> incoming s' = rest"
    using Cons.IH [of s1 "out @ [c]"] Cons.prems(1) s1(2) by simp
  with Cons.prems(1) s1(1) show ?case
    by (subst read_line.simps) (auto simp del: One_nat_def)
qed

lemma read_exact_ok:
  assumes "stream_recv recv incoming" "incoming s = b @ rest" "length out + length b = len"
  shows "\<exists>s'. read_exact recv len out s = (Inr (out @ b), s') \<and> incoming s' = rest"
  using assms(2,3)
proof (induction "length b" arbitrary: b out s rule: less_induct)
  case less
  show ?case
  proof (cases "b = []")
    case True
    with less.prems show ?thesis by (simp add: read_exact.simps [of recv len out])
  next
    case False
    define chunk where "chunk = (if len - length out < 256 then len - length out else 256)"
    have len: "length out < len" "0 < chunk" "chunk \<le> length b"
      using False less.prems(2) by (auto simp: chunk_def)
    obtain c cs s1 where call: "recv chunk s = (Bytes c cs, s1)" "Suc (length cs) \<le> chunk" "incoming s = c # cs @ incoming s1"
      by (rule recv_cases [OF assms(1) len(2), of s]) (use False less.prems(1) in auto)
    define b' where "b' = drop (Suc (length cs)) b"
    have b: "b = (c # cs) @ b'" "incoming s1 = b' @ rest"
    proof -
      have eq: "(c # cs) @ incoming s1 = b @ rest"
        using call(3) less.prems(1) by simp
      then have "take (Suc (length cs)) (b @ rest) = c # cs"
        by (metis append_eq_conv_conj length_Cons)
      then have "take (Suc (length cs)) b = c # cs"
        using call(2) len(3) by simp
      then show "b = (c # cs) @ b'"
        unfolding b'_def by (metis append_take_drop_id)
      with eq show "incoming s1 = b' @ rest" by simp
    qed
    have "\<exists>s'. read_exact recv len (out @ c # cs) s1 = (Inr ((out @ c # cs) @ b'), s') \<and> incoming s' = rest"
      using less.hyps [of b' s1 "out @ c # cs"] less.prems(2) b by simp
    then show ?thesis
      using call(1) len(1) b(1) by (simp add: read_exact.simps [of recv len out] Let_def chunk_def)
  qed
qed

lemma stoi_show_nat: "n \<le> 2147483647 \<Longrightarrow> stoi (show_nat n) = Some (int n)"
  using strtol_show_int [of "int n"] show_nat_ne [of n, symmetric]
  by (simp add: stoi_def show_int_def in_int32_def)

lemma stoi_minus_one: "stoi ''-1'' = Some (- 1)"
  by code_simp

lemma bulk_line:
  assumes "stream_recv recv incoming" "incoming s = reply_bytes (Bulk v) @ rest"
  obtains s1 where "read_line recv [] s = Some (Inr (''$'' @ show_nat (length v)), s1)" "incoming s1 = (v @ crlf) @ rest"
proof -
  have "CHR 0x0D \<notin> set (''$'' @ show_nat (length v))"
    by (simp add: show_nat_no_cr)
  from read_line_ok [OF assms(1) this, of s "v @ crlf @ rest" "[]"] assms(2) show thesis
    using that by auto
qed

lemma read_resp_reply:
  assumes "stream_recv recv incoming" "reply_ok r" "incoming s = reply_bytes r @ rest"
  shows "\<exists>s'. read_resp recv s = Some (Inr (reply_value r), s') \<and> incoming s' = rest"
proof (cases r)
  case (Bulk v)
  obtain s1 where s1: "read_line recv [] s = Some (Inr (''$'' @ show_nat (length v)), s1)" "incoming s1 = (v @ crlf) @ rest"
    using bulk_line [OF assms(1), of s v rest] assms(3) Bulk by blast
  obtain s2 where "read_exact recv (length v + 2) [] s1 = (Inr (v @ crlf), s2)" "incoming s2 = rest"
    using read_exact_ok [OF assms(1) s1(2), of "[]" "length v + 2"] by (auto simp: crlf_def)
  moreover have "take (length (v @ crlf) - 2) (v @ crlf) = v" "2 \<le> length (v @ crlf)"
    by (simp_all add: crlf_def)
  moreover have "stoi (show_nat (length v)) = Some (int (length v))"
    using Bulk assms(2) by (simp add: stoi_show_nat)
  ultimately show ?thesis
    using Bulk s1(1) by (simp add: read_resp_def)
next
  case NullBulk
  obtain s1 where "read_line recv [] s = Some (Inr ''$-1'', s1)" "incoming s1 = rest"
    using read_line_ok [OF assms(1), of "''$-1''" s rest "[]"] assms(3) NullBulk by auto
  with NullBulk show ?thesis
    by (simp add: read_resp_def stoi_minus_one)
next
  case (Status t)
  obtain s1 where "read_line recv [] s = Some (Inr (''+'' @ t), s1)" "incoming s1 = rest"
    using read_line_ok [OF assms(1), of "''+'' @ t" s rest "[]"] assms(2,3) Status by auto
  with Status show ?thesis
    by (simp add: read_resp_def)
next
  case (ErrorReply t)
  obtain s1 where "read_line recv [] s = Some (Inr (''-'' @ t), s1)" "incoming s1 = rest"
    using read_line_ok [OF assms(1), of "''-'' @ t" s rest "[]"] assms(2,3) ErrorReply by auto
  with ErrorReply show ?thesis
    by (simp add: read_resp_def)
qed

lemma read_line_returns:
  assumes "stream_recv recv incoming"
  shows "\<exists>r s'. read_line recv out s = Some (r, s') \<and> length (incoming s') \<le> length (incoming s)"
proof (induction "length (incoming s)" arbitrary: s out rule: less_induct)
  case less
  show ?case
  proof (rule recv_cases [OF assms zero_less_one, of s])
    fix e s1 assume "recv 1 s = (NoBytes e, s1)" "incoming s = []" "incoming s1 = []"
    then show ?thesis
      by (subst read_line.simps) (simp del: One_nat_def)
  next
    fix c cs s1 assume c: "recv 1 s = (Bytes c cs, s1)" "Suc (length cs) \<le> 1" "incoming s = c # cs @ incoming s1"
    show ?thesis
    proof (cases "c = CHR 0x0D")
      case False
      then show ?thesis
        using less [of s1 "out @ [c]"] c by (subst read_line.simps) (fastforce simp del: One_nat_def)
    next
      case True
      show ?thesis
        by (rule recv_cases [OF assms zero_less_one, of s1])
          (use True c in \<open>subst read_line.simps; auto simp del: One_nat_def\<close>)+
    qed
  qed
qed

lemma read_resp_returns:
  assumes "stream_recv recv incoming"
  shows "read_resp recv s \<noteq> None"
proof -
  obtain r s' where "read_line recv [] s = Some (r, s')"
    using read_line_returns [OF assms, of "[]" s] by blast
  then show ?thesis
    by (cases r) (auto simp: read_resp_def Let_def split: option.splits sum.splits prod.splits)
qed

subsection \<open>Properties\<close>

text \<open>A socket that takes three bytes per send and delivers two per receive, for concrete runs. Its state
  is the bytes sent and the bytes to come.\<close>

definition pipe_send :: "(string \<times> string) sender" where
  "pipe_send d s = (SentBytes (min 2 (length d - 1)), (fst s @ take (Suc (min 2 (length d - 1))) d, snd s))"

definition pipe_recv :: "(string \<times> string) receiver" where
  "pipe_recv n s = (case snd s of [] \<Rightarrow> (NoBytes ''closed'', s)
     | c # cs \<Rightarrow> (Bytes c (take (min 1 (n - 1)) cs), (fst s, drop (min 1 (n - 1)) cs)))"

lemma pipe_recv_stream: "stream_recv pipe_recv snd"
  by (auto simp: stream_recv_def pipe_recv_def split: list.splits)

lemma pipe_send_stream: "stream_send pipe_send fst"
  unfolding stream_send_def
proof (intro allI impI)
  fix d :: string and s :: "string \<times> string" assume "d \<noteq> []"
  then have "min 2 (length d - 1) < length d"
    by (cases d) auto
  then show "case pipe_send d s of (SendFailed e, s') \<Rightarrow> fst s' = fst s
      | (SentBytes k, s') \<Rightarrow> k < length d \<and> fst s' = fst s @ take (Suc k) d"
    by (simp add: pipe_send_def)
qed

lemma pipe_get:
  "send_command pipe_send \<lparr>rc_path = ''/r'', rc_connected = True\<rparr> [''GET'', ''k''] ([], rx) =
     (None, (resp_command [''GET'', ''k''], rx))"
  by (simp add: send_command_def resp_command_def resp_arg_def crlf_def pipe_send_def send_loop.simps
      show_nat.simps digit_char_def)

text \<open>Commands are framed. The bytes of a command determine its arguments and where the command ends,
  whatever bytes the arguments hold (a value with line ends cannot be taken for another command).\<close>

theorem redis_commands_framed: "resp_command as @ x = resp_command bs @ y \<longleftrightarrow> as = bs \<and> x = y"
  by (rule resp_command_inj)

text \<open>A command is sent completely or the caller is told. On any stream socket, however few bytes each
  \<^verbatim>\<open>send\<close> takes, success means that exactly the command's bytes went out and failure that a proper
  prefix of them did.\<close>

theorem redis_send_exact:
  assumes "stream_send send sent" "rc_connected rc" "send_command send rc args s = (r, s')"
  shows "case r of None \<Rightarrow> sent s' = sent s @ resp_command args
    | Some e \<Rightarrow> \<exists>p q. sent s' = sent s @ p \<and> resp_command args = p @ q \<and> q \<noteq> []"
  using send_loop_sent [OF assms(1), of "resp_command args" s r s'] assms(2,3)
  by (simp add: send_command_def)

theorem redis_send_exact_witness:
  "fst (snd (send_command pipe_send \<lparr>rc_path = ''/r'', rc_connected = True\<rparr> [''GET'', ''k''] ([], ''x''))) =
     resp_command [''GET'', ''k'']"
  using redis_send_exact [OF pipe_send_stream _ pipe_get [of "''x''"]] by (simp add: pipe_get)

text \<open>C26. A GET hands back the bytes the server stores. When the reply to the command is a bulk string, a null
  bulk string, a status or an error, \<^verbatim>\<open>get\<close> returns the value, no value, no value, or the error text, and
  consumes exactly that reply, so the next command meets its own; the pieces in which the
  stream delivers the reply do not matter.\<close>

theorem redis_get_reply:
  assumes "stream_recv recv incoming" "reply_ok r"
    and "send_command send rc [''GET'', key] s = (None, s1)" "incoming s1 = reply_bytes r @ rest"
  shows "\<exists>s'. redis_get send recv rc key s = Some (get_outcome r, s') \<and> incoming s' = rest"
  using read_resp_reply [OF assms(1,2,4)] assms(3)
  by (cases r) (auto simp: redis_get_def)

theorem redis_get_reply_witness:
  "\<exists>s'. redis_get pipe_send pipe_recv \<lparr>rc_path = ''/r'', rc_connected = True\<rparr> ''k'' ([], ''$5'' @ crlf @ ''a'' @ crlf @ ''bc'' @ crlf @ ''+OK'')
     = Some ((Some (''a'' @ crlf @ ''bc''), None), s') \<and> snd s' = ''+OK''"
proof -
  have "''$5'' @ crlf @ ''a'' @ crlf @ ''bc'' @ crlf @ ''+OK'' = reply_bytes (Bulk (''a'' @ crlf @ ''bc'')) @ ''+OK''"
    by (simp add: crlf_def show_nat.simps digit_char_def) code_simp
  then show ?thesis
    using redis_get_reply [OF pipe_recv_stream _ pipe_get, of "Bulk (''a'' @ crlf @ ''bc'')"
        "reply_bytes (Bulk (''a'' @ crlf @ ''bc'')) @ ''+OK''" "''+OK''"]
    by (simp add: crlf_def)
qed

text \<open>A SET succeeds exactly when the server does not answer with an error, and consumes exactly that
  reply.\<close>

theorem redis_set_reply:
  assumes "stream_recv recv incoming" "reply_ok r"
    and "send_command send rc [''SET'', key, val] s = (None, s1)" "incoming s1 = reply_bytes r @ rest"
  shows "\<exists>s'. redis_set send recv rc key val s = Some (set_outcome r, s') \<and> incoming s' = rest"
  using read_resp_reply [OF assms(1,2,4)] assms(3)
  by (cases r) (auto simp: redis_set_def)

theorem redis_set_reply_witness:
  "\<exists>s'. redis_set pipe_send pipe_recv \<lparr>rc_path = ''/r'', rc_connected = True\<rparr> ''k'' ''v'' ([], ''+OK'' @ crlf)
     = Some (None, s') \<and> snd s' = []"
proof -
  have "send_command pipe_send \<lparr>rc_path = ''/r'', rc_connected = True\<rparr> [''SET'', ''k'', ''v''] ([], ''+OK'' @ crlf) =
     (None, (resp_command [''SET'', ''k'', ''v''], ''+OK'' @ crlf))"
    by (simp add: send_command_def resp_command_def resp_arg_def crlf_def pipe_send_def send_loop.simps
      show_nat.simps digit_char_def)
  from redis_set_reply [OF pipe_recv_stream _ this, of "Status ''OK''" "[]"] show ?thesis by simp
qed

text \<open>The client never hangs on a finite stream: \<^verbatim>\<open>get\<close> and \<^verbatim>\<open>set\<close> return for every reply, well formed
  or not, and for every cut into pieces.\<close>

theorem redis_calls_return:
  assumes "stream_recv recv incoming"
  shows "redis_get send recv rc key s \<noteq> None \<and> redis_set send recv rc key val s \<noteq> None"
proof
  show "redis_get send recv rc key s \<noteq> None"
    using read_resp_returns [OF assms, of "snd (send_command send rc [''GET'', key] s)"]
    by (auto simp: redis_get_def split: prod.splits option.splits sum.splits)
  show "redis_set send recv rc key val s \<noteq> None"
    using read_resp_returns [OF assms, of "snd (send_command send rc [''SET'', key, val] s)"]
    by (auto simp: redis_set_def split: prod.splits option.splits sum.splits)
qed

theorem redis_calls_return_witness:
  "redis_get pipe_send pipe_recv \<lparr>rc_path = ''/r'', rc_connected = True\<rparr> ''k'' ([], ''$x'') \<noteq> None"
  using redis_calls_return [OF pipe_recv_stream] by simp

end
