(* ===== verification/String_Utils.thy ===== *)
theory String_Utils
  imports C_Strings
begin

text \<open>
  \<^verbatim>\<open>core/string_utils.cpp\<close>: \<open>split\<close> is the character loop of \<^verbatim>\<open>split\<close> with its two accumulators,
  \<open>trim\<close> is \<^verbatim>\<open>trim\<close> with its two index loops. The lemmas relate both to structural reference
  functions (\<open>pieces\<close>, two \<^const>\<open>dropWhile\<close>s), from which the facts used by the message parser and the
  configuration loader follow.
\<close>

subsection \<open>split\<close>

definition push_part :: "bool \<Rightarrow> string \<Rightarrow> string list \<Rightarrow> string list" where
  "push_part skip_empty current parts =
     (if current \<noteq> [] \<or> \<not> skip_empty then parts @ [current] else parts)"

fun split_loop :: "string \<Rightarrow> char \<Rightarrow> bool \<Rightarrow> string \<Rightarrow> string list \<Rightarrow> string list" where
  "split_loop [] delim skip_empty current parts = push_part skip_empty current parts"
| "split_loop (ch # rest) delim skip_empty current parts =
     (if ch = delim then split_loop rest delim skip_empty [] (push_part skip_empty current parts)
      else split_loop rest delim skip_empty (current @ [ch]) parts)"

definition split :: "string \<Rightarrow> char \<Rightarrow> bool \<Rightarrow> string list" where
  "split input delim skip_empty = split_loop input delim skip_empty [] []"

text \<open>The reference: the maximal delimiter-free pieces, empty ones included.\<close>

fun pieces :: "char \<Rightarrow> string \<Rightarrow> string list" where
  "pieces d [] = [[]]"
| "pieces d (c # cs) = (if c = d then [] # pieces d cs
     else (case pieces d cs of [] \<Rightarrow> [[c]] | p # ps \<Rightarrow> (c # p) # ps))"

fun join :: "char \<Rightarrow> string list \<Rightarrow> string" where
  "join d [] = []"
| "join d [p] = p"
| "join d (p # q # ps) = p @ d # join d (q # ps)"

lemma pieces_ne [simp]: "pieces d s \<noteq> []"
  by (induction s) (auto split: list.splits)

lemma pieces_Cons: "\<exists>p ps. pieces d s = p # ps"
  by (cases "pieces d s") auto

lemma split_loop_keep:
  "split_loop s d False cur parts =
     parts @ (case pieces d s of [] \<Rightarrow> [] | p # ps \<Rightarrow> (cur @ p) # ps)"
proof (induction s arbitrary: cur parts)
  case Nil
  then show ?case by (simp add: push_part_def)
next
  case (Cons c s)
  then show ?case
    using pieces_Cons [of d s] by (auto simp: push_part_def)
qed

lemma split_loop_skip:
  "split_loop s d True cur parts =
     parts @ filter (\<lambda>p. p \<noteq> []) (case pieces d s of [] \<Rightarrow> [] | p # ps \<Rightarrow> (cur @ p) # ps)"
proof (induction s arbitrary: cur parts)
  case Nil
  then show ?case by (simp add: push_part_def)
next
  case (Cons c s)
  then show ?case
    using pieces_Cons [of d s] by (auto simp: push_part_def)
qed

lemma split_keep: "split s d False = pieces d s"
  using pieces_Cons [of d s] by (auto simp: split_def split_loop_keep)

lemma split_skip: "split s d True = filter (\<lambda>p. p \<noteq> []) (pieces d s)"
  using pieces_Cons [of d s] by (auto simp: split_def split_loop_skip)

lemma pieces_no_delim: "p \<in> set (pieces d s) \<Longrightarrow> d \<notin> set p"
proof (induction s arbitrary: p)
  case (Cons c s)
  then show ?case
    using pieces_Cons [of d s] by (auto split: if_splits)
qed simp

lemma length_pieces: "length (pieces d s) = Suc (count_list s d)"
proof (induction s)
  case (Cons c s)
  then show ?case
    using pieces_Cons [of d s] by auto
qed simp

lemma join_Cons_append: "ps \<noteq> [] \<Longrightarrow> join d ((c # p) # ps) = c # join d (p # ps)"
  by (cases ps) auto

lemma join_pieces: "join d (pieces d s) = s"
proof (induction s)
  case (Cons c s)
  obtain p ps where "pieces d s = p # ps"
    using pieces_Cons by blast
  with Cons.IH show ?case
    by (cases ps) auto
qed simp

lemma pieces_append: "d \<notin> set p \<Longrightarrow> pieces d (p @ d # s) = p # pieces d s"
  by (induction p) auto

lemma pieces_plain: "d \<notin> set p \<Longrightarrow> pieces d p = [p]"
  by (induction p) auto

lemma pieces_join:
  "ps \<noteq> [] \<Longrightarrow> list_all (\<lambda>p. d \<notin> set p) ps \<Longrightarrow> pieces d (join d ps) = ps"
proof (induction d ps rule: join.induct)
  case (3 d p q ps)
  then show ?case by (simp add: pieces_append)
qed (auto simp: pieces_plain)

lemma pieces_hd: "hd (pieces d s) = takeWhile (\<lambda>c. c \<noteq> d) s"
proof (induction s)
  case (Cons c s)
  then show ?case
    using pieces_Cons [of d s] by auto
qed simp

subsection \<open>trim\<close>

text \<open>The two index loops of the source; \<open>input ! i\<close> is only read below the length.\<close>

function trim_start :: "string \<Rightarrow> nat \<Rightarrow> nat" where
  "trim_start input start =
     (if start < length input \<and> is_space (input ! start) then trim_start input (Suc start) else start)"
  by pat_completeness auto
termination
  by (relation "measure (\<lambda>(s, i). length s - i)") auto

fun trim_end :: "string \<Rightarrow> nat \<Rightarrow> nat \<Rightarrow> nat" where
  "trim_end input start stop =
     (if stop > start \<and> is_space (input ! stop) then trim_end input start (stop - 1) else stop)"

declare trim_start.simps [simp del] trim_end.simps [simp del]

definition trim :: "string \<Rightarrow> string" where
  "trim input = (let start = trim_start input 0 in
     if start = length input then []
     else let stop = trim_end input start (length input - 1)
          in take (stop - start + 1) (drop start input))"

lemma trim_start_drop:
  "start \<le> length s \<Longrightarrow> start \<le> trim_start s start \<and> trim_start s start \<le> length s \<and>
     drop (trim_start s start) s = dropWhile is_space (drop start s)"
proof (induction s start rule: trim_start.induct)
  case (1 s start)
  show ?case
  proof (cases "start < length s")
    case True
    then have "drop start s = s ! start # drop (Suc start) s"
      by (simp add: Cons_nth_drop_Suc)
    with True "1" show ?thesis
      by (auto simp: trim_start.simps [of s start])
  next
    case False
    with "1.prems" have "start = length s" by simp
    moreover have "trim_start s (length s) = length s"
      by (subst trim_start.simps) simp
    ultimately show ?thesis by simp
  qed
qed

lemma trim_end_take:
  "start \<le> stop \<Longrightarrow> stop < length s \<Longrightarrow> start \<le> trim_end s start stop \<and> trim_end s start stop \<le> stop \<and>
     (\<forall>i. trim_end s start stop < i \<longrightarrow> i \<le> stop \<longrightarrow> is_space (s ! i)) \<and>
     (trim_end s start stop = start \<or> \<not> is_space (s ! trim_end s start stop))"
proof (induction s start stop rule: trim_end.induct)
  case (1 s start stop)
  show ?case
  proof (cases "stop > start \<and> is_space (s ! stop)")
    case True
    have "start \<le> stop - 1" "stop - 1 < length s"
      using True "1.prems" by auto
    note IH = "1.IH" [OF True this]
    have "trim_end s start stop = trim_end s start (stop - 1)"
      using True by (simp add: trim_end.simps [of s start stop])
    moreover have "is_space (s ! i)" if "trim_end s start (stop - 1) < i" "i \<le> stop" for i
      using IH True that by (cases "i = stop") auto
    ultimately show ?thesis
      using IH by auto
  next
    case False
    with "1.prems" show ?thesis
      by (auto simp: trim_end.simps [of s start stop])
  qed
qed

lemma rev_dropWhile_split:
  "s = u @ v \<Longrightarrow> list_all p v \<Longrightarrow> u = [] \<or> \<not> p (last u) \<Longrightarrow> rev (dropWhile p (rev s)) = u"
  by (cases u rule: rev_cases) (auto simp: list_all_iff dropWhile_append2 dropWhile_append)

lemma hd_drop_not: "dropWhile p xs = drop n s \<Longrightarrow> n < length s \<Longrightarrow> \<not> p (s ! n)"
  by (metis hd_drop_conv_nth hd_dropWhile length_drop list.size(3) not_less zero_less_diff le_refl)

lemma trim_eq: "trim s = rev (dropWhile is_space (rev (dropWhile is_space s)))"
proof -
  let ?a = "trim_start s 0"
  have a: "?a \<le> length s" "drop ?a s = dropWhile is_space s"
    using trim_start_drop [of 0 s] by auto
  show ?thesis
  proof (cases "?a = length s")
    case True
    with a show ?thesis by (simp add: trim_def)
  next
    case False
    let ?b = "trim_end s ?a (length s - 1)"
    have le: "?a \<le> length s - 1" "length s - 1 < length s"
      using False a(1) by auto
    note b = trim_end_take [OF le]
    let ?u = "take (?b - ?a + 1) (drop ?a s)" and ?v = "drop (?b - ?a + 1) (drop ?a s)"
    have "list_all is_space ?v"
      using b by (auto simp: list_all_length)
    moreover have "last ?u = s ! ?b" "?u \<noteq> []"
      using b le by (auto simp: last_conv_nth)
    moreover have "\<not> is_space (s ! ?b)"
      using b hd_drop_not [OF a(2) [symmetric]] le by auto
    ultimately have "rev (dropWhile is_space (rev (drop ?a s))) = ?u"
      by (intro rev_dropWhile_split [OF append_take_drop_id [symmetric]]) auto
    with False a(2) show ?thesis by (simp add: trim_def Let_def)
  qed
qed

lemma trim_no_lead: "trim s = c # cs \<Longrightarrow> \<not> is_space c"
proof -
  assume eq: "trim s = c # cs"
  let ?t = "dropWhile is_space s"
  have "rev ?t = takeWhile is_space (rev ?t) @ rev (trim s)"
    unfolding trim_eq by simp
  then have "?t = trim s @ rev (takeWhile is_space (rev ?t))"
    by (metis rev_append rev_rev_ident)
  with eq have "?t \<noteq> []" "hd ?t = c"
    by (metis append_Cons list.discI, metis append_Cons list.sel(1))
  then show ?thesis
    using hd_dropWhile by metis
qed

lemma trim_no_trail: "trim s \<noteq> [] \<Longrightarrow> \<not> is_space (last (trim s))"
  unfolding trim_eq by (metis hd_dropWhile last_rev rev_is_Nil_conv)

lemma dropWhile_hd: "s \<noteq> [] \<Longrightarrow> \<not> p (hd s) \<Longrightarrow> dropWhile p s = s"
  by (cases s) auto

lemma trim_id: "s = [] \<or> \<not> is_space (hd s) \<and> \<not> is_space (last s) \<Longrightarrow> trim s = s"
  by (cases "s = []") (auto simp: trim_eq dropWhile_hd hd_rev)

lemma trim_trim: "trim (trim s) = trim s"
proof (cases "trim s")
  case (Cons c cs)
  then show ?thesis
    using trim_no_lead [OF Cons] trim_no_trail [of s] by (intro trim_id) auto
qed (simp add: trim_id)

end
