(* ===== verification/C_Double.thy ===== *)
theory C_Double
  imports C_Strings Complex_Main "HOL-Library.Log_Nat"
begin

text \<open>
  The \<^verbatim>\<open>double\<close> values of the program: fill ratios of Bloom filters and the configured
  split threshold. A finite double is the rational it denotes (the sign of a zero is not kept); the
  quotient of two doubles is the exact quotient rounded to 53 significant bits, ties to even,
  as IEEE 754 arithmetic does. Comparisons with a NaN are false.
\<close>

datatype double = DNan | DInf bool | DFin rat

fun dlt :: "double \<Rightarrow> double \<Rightarrow> bool" where
  "dlt (DFin a) (DFin b) = (a < b)"
| "dlt (DInf na) (DFin b) = na"
| "dlt (DFin a) (DInf nb) = (\<not> nb)"
| "dlt (DInf na) (DInf nb) = (na \<and> \<not> nb)"
| "dlt _ _ = False"

fun dle :: "double \<Rightarrow> double \<Rightarrow> bool" where
  "dle (DFin a) (DFin b) = (a \<le> b)"
| "dle (DInf na) (DFin b) = na"
| "dle (DFin a) (DInf nb) = (\<not> nb)"
| "dle (DInf na) (DInf nb) = (na \<or> \<not> nb)"
| "dle _ _ = False"

subsection \<open>Rounding\<close>

definition pow2 :: "int \<Rightarrow> rat" where
  "pow2 k = (if 0 \<le> k then 2 ^ nat k else 1 / 2 ^ nat (- k))"

definition floor_log2 :: "rat \<Rightarrow> int" where
  "floor_log2 x = (let (n, d) = quotient_of x; k = bitlen n - bitlen d in
     if pow2 k \<le> x then k else k - 1)"

definition round_half_even :: "rat \<Rightarrow> int" where
  "round_half_even y = (let n = \<lfloor>y\<rfloor>; f = y - of_int n in
     if f < 1 / 2 then n else if 1 / 2 < f then n + 1 else if even n then n else n + 1)"

definition round_double :: "rat \<Rightarrow> double" where
  "round_double x =
     (if x = 0 then DFin 0
      else let e = max (floor_log2 \<bar>x\<bar> - 52) (- 1074);
               r = of_int (round_half_even (\<bar>x\<bar> / pow2 e)) * pow2 e
           in if r \<ge> pow2 1024 then DInf (x < 0) else DFin (sgn x * r))"

fun ddiv :: "double \<Rightarrow> double \<Rightarrow> double" where
  "ddiv (DFin a) (DFin b) = (if b = 0 then (if a = 0 then DNan else DInf (a < 0)) else round_double (a / b))"
| "ddiv (DFin a) (DInf s) = DFin 0"
| "ddiv (DInf s) (DFin b) = DInf (s \<noteq> (b < 0))"
| "ddiv _ _ = DNan"

definition double_of_nat :: "nat \<Rightarrow> double" where
  "double_of_nat n = round_double (of_nat n)"

text \<open>\<^verbatim>\<open>std::to_string(double)\<close>: six decimals.\<close>

definition pad6 :: "nat \<Rightarrow> string" where
  "pad6 n = replicate (6 - length (show_nat n)) (CHR ''0'') @ show_nat n"

fun show_double :: "double \<Rightarrow> string" where
  "show_double DNan = ''nan''"
| "show_double (DInf s) = (if s then ''-inf'' else ''inf'')"
| "show_double (DFin r) = (let n = nat (round_half_even (\<bar>r\<bar> * 1000000)) in
     (if r < 0 then ''-'' else '''') @ show_nat (n div 1000000) @ ''.'' @ pad6 (n mod 1000000))"

subsection \<open>Powers of two\<close>

lemma pow2_powi: "pow2 k = 2 powi k"
  by (simp add: pow2_def power_int_def field_simps)

lemma pow2_pos [simp]: "0 < pow2 k"
  by (simp add: pow2_def)

lemma pow2_add: "pow2 (a + b) = pow2 a * pow2 b"
  by (simp add: pow2_powi power_int_add)

lemma pow2_diff: "pow2 (a - b) = pow2 a / pow2 b"
  by (simp add: pow2_powi power_int_diff)

lemma pow2_mono: "a \<le> b \<Longrightarrow> pow2 a \<le> pow2 b"
  unfolding pow2_powi by (rule power_int_increasing) auto

lemma pow2_nat: "pow2 (int k) = 2 ^ k"
  by (simp add: pow2_def)

lemma pow2_0 [simp]: "pow2 0 = 1"
  by (simp add: pow2_def)

lemma pow2_bitlen:
  assumes "0 < (n :: int)"
  shows "pow2 (bitlen n - 1) \<le> of_int n" "of_int n < pow2 (bitlen n)"
proof -
  have b: "2 ^ nat (bitlen n - 1) \<le> n" "n < 2 ^ nat (bitlen n)" "0 < bitlen n"
    using bitlen_bounds [OF assms] bitlen_nonneg [of n] bitlen_eq_zero_iff [of n] assms by auto
  have "(of_int (2 ^ nat (bitlen n - 1)) :: rat) \<le> of_int n" "(of_int n :: rat) < of_int (2 ^ nat (bitlen n))"
    using b by (simp_all only: of_int_le_iff of_int_less_iff)
  then show "pow2 (bitlen n - 1) \<le> of_int n" "of_int n < pow2 (bitlen n)"
    using b(3) by (simp_all add: pow2_def)
qed

lemma floor_log2_bounds:
  assumes "0 < x"
  shows "pow2 (floor_log2 x) \<le> x" "x < pow2 (floor_log2 x + 1)"
proof -
  obtain n d where q: "quotient_of x = (n, d)" by (cases "quotient_of x")
  have d: "0 < d" and x: "x = of_int n / of_int d"
    using q quotient_of_denom_pos quotient_of_div by auto
  with assms have n: "0 < n" by (simp add: zero_less_divide_iff)
  let ?k = "bitlen n - bitlen d"
  have N: "pow2 (bitlen n - 1) \<le> of_int n" "of_int n < pow2 (bitlen n)"
    and D: "pow2 (bitlen d - 1) \<le> of_int d" "of_int d < pow2 (bitlen d)"
    using pow2_bitlen [OF n] pow2_bitlen [OF d] by auto
  have "x < pow2 (bitlen n) / pow2 (bitlen d - 1)"
    unfolding x using N(2) D(1) d n by (intro frac_less) auto
  then have hi: "x < pow2 (?k + 1)"
    by (simp add: pow2_diff pow2_add)
  have "pow2 (bitlen n - 1) / pow2 (bitlen d) \<le> x"
    unfolding x using N(1) D(2) d n by (intro frac_le) auto
  then have lo: "pow2 (?k - 1) \<le> x"
    by (simp add: pow2_diff divide_divide_eq_left mult.commute)
  show "pow2 (floor_log2 x) \<le> x" "x < pow2 (floor_log2 x + 1)"
    using hi lo by (auto simp: floor_log2_def q Let_def)
qed

lemma floor_log2_le: "0 < x \<Longrightarrow> x < pow2 k \<Longrightarrow> floor_log2 x < k"
proof (rule ccontr)
  assume "0 < x" "x < pow2 k" "\<not> floor_log2 x < k"
  then have "pow2 k \<le> x"
    using floor_log2_bounds(1) [of x] pow2_mono [of k "floor_log2 x"] by (simp add: order_trans)
  with \<open>x < pow2 k\<close> show False by simp
qed

subsection \<open>Rounding stays within representable bounds\<close>

lemma round_half_even_of_int [simp]: "round_half_even (of_int n) = n"
  by (simp add: round_half_even_def)

lemma round_half_even_ge: "of_int n \<le> y \<Longrightarrow> n \<le> round_half_even y"
proof -
  assume "of_int n \<le> y"
  then have "n \<le> \<lfloor>y\<rfloor>" by (simp add: le_floor_iff)
  then show ?thesis by (auto simp: round_half_even_def Let_def)
qed

lemma round_half_even_le: "y \<le> of_int n \<Longrightarrow> round_half_even y \<le> n"
proof -
  assume "y \<le> of_int n"
  then have "\<lfloor>y\<rfloor> \<le> n" by (simp add: floor_le_iff)
  moreover have "\<lfloor>y\<rfloor> < n" if "0 < y - of_int \<lfloor>y\<rfloor>"
  proof -
    have "(of_int \<lfloor>y\<rfloor> :: rat) < of_int n"
      using that \<open>y \<le> of_int n\<close> by linarith
    then show ?thesis by (simp only: of_int_less_iff)
  qed
  ultimately show ?thesis
    by (auto simp: round_half_even_def Let_def)
qed

lemma round_double_unit:
  assumes "0 \<le> x" "x \<le> 1"
  shows "\<exists>r. round_double x = DFin r \<and> 0 \<le> r \<and> r \<le> 1"
proof (cases "x = 0")
  case True
  then show ?thesis by (simp add: round_double_def)
next
  case False
  with assms have x: "0 < x" by simp
  define e where "e = max (floor_log2 x - 52) (- 1074)"
  let ?e = e
  let ?m = "round_half_even (x / pow2 e)"
  have "x < pow2 1" using assms by (simp add: pow2_def)
  then have e: "?e \<le> - 52"
    using floor_log2_le [OF x] unfolding e_def by fastforce
  have "x / pow2 ?e \<le> of_int (2 ^ nat (- ?e))"
    using assms e by (simp add: pow2_def field_simps)
  then have "?m \<le> 2 ^ nat (- ?e)"
    by (rule round_half_even_le)
  then have "(of_int ?m :: rat) \<le> of_int (2 ^ nat (- ?e))"
    by (simp only: of_int_le_iff)
  then have "of_int ?m * pow2 ?e \<le> 1"
    using e by (simp add: pow2_def field_simps)
  moreover have "0 \<le> ?m"
    using x by (intro round_half_even_ge) (simp add: less_imp_le)
  then have "(0 :: rat) \<le> of_int ?m * pow2 ?e"
    by (intro mult_nonneg_nonneg) (simp_all add: less_imp_le)
  moreover have "(1 :: rat) < pow2 1024"
    by (simp add: pow2_def)
  ultimately have "round_double x = DFin (of_int ?m * pow2 ?e)" "0 \<le> of_int ?m * pow2 ?e"
    using x by (auto simp: round_double_def Let_def e_def [symmetric])
  with \<open>of_int ?m * pow2 ?e \<le> 1\<close> show ?thesis by auto
qed

lemma double_of_nat_exact: "n < 2 ^ 53 \<Longrightarrow> double_of_nat n = DFin (of_nat n)"
proof (cases "n = 0")
  case True
  then show ?thesis by (simp add: double_of_nat_def round_double_def)
next
  case False
  assume n: "n < 2 ^ 53"
  let ?x = "of_nat n :: rat"
  have x: "0 < ?x" using False by simp
  have "(of_nat n :: rat) < of_nat (2 ^ 53)"
    using n by (simp only: of_nat_less_iff)
  then have "?x < pow2 53" by (simp add: pow2_def)
  then have le: "floor_log2 ?x \<le> 52"
    using floor_log2_le [OF x] by fastforce
  have "1 \<le> ?x" using False by simp
  then have "\<not> floor_log2 ?x < 0"
    using floor_log2_bounds(2) [OF x] pow2_mono [of "floor_log2 ?x + 1" 0] by fastforce
  then obtain k where e: "max (floor_log2 ?x - 52) (- 1074) = - int k"
    using le by (metis add_diff_cancel_right' diff_ge_0_iff_ge max.absorb1 minus_diff_eq
      neg_0_le_iff_le nonneg_int_cases minus_minus max_def not_le order_trans
      le_cases int_ops(3) neg_numeral_le_iff verit_comp_simplify1(3) zero_le_numeral)
  have "?x / pow2 (- int k) = of_int (int n * 2 ^ k)"
    by (simp add: pow2_def field_simps)
  then have "round_half_even (?x / pow2 (- int k)) = int n * 2 ^ k"
    by (metis round_half_even_of_int)
  moreover have "of_int (int n * 2 ^ k) * pow2 (- int k) = ?x"
    by (simp add: pow2_def)
  moreover have "?x < pow2 1024"
    using \<open>?x < pow2 53\<close> pow2_mono [of 53 1024] by simp
  ultimately have "round_double ?x = DFin ?x"
    using x unfolding round_double_def Let_def abs_of_pos [OF x] e
    by (simp add: mult.assoc)
  then show ?thesis
    by (simp add: double_of_nat_def)
qed

end
