(* ===== verification/C_Strtod.thy ===== *)
theory C_Strtod
  imports C_Double
begin

text \<open>
  Reading and printing of doubles in the C locale: \<^verbatim>\<open>strtod\<close> with its decimal, hexadecimal, infinity and NaN
  forms, and the default format of \<^verbatim>\<open>ostream << double\<close> (six significant digits, as \<^verbatim>\<open>%g\<close>).
\<close>

subsection \<open>strtod\<close>

definition is_hex_digit :: "char \<Rightarrow> bool" where
  "is_hex_digit c \<longleftrightarrow> is_digit c \<or> to_lower c \<in> {CHR ''a'', CHR ''b'', CHR ''c'', CHR ''d'', CHR ''e'', CHR ''f''}"

definition hex_digit_val :: "char \<Rightarrow> nat" where
  "hex_digit_val c = (if is_digit c then digit_val c else of_char (to_lower c) - 87)"

text \<open>Digits with an optional point: the digits before and after it and the rest; at least one digit.\<close>

definition mantissa :: "(char \<Rightarrow> bool) \<Rightarrow> string \<Rightarrow> (string \<times> string \<times> string) option" where
  "mantissa is_dig s =
     (let i = takeWhile is_dig s; r = dropWhile is_dig s;
          (f, r') = (case r of [] \<Rightarrow> ([], r)
             | c # cs \<Rightarrow> if c = CHR ''.'' then (takeWhile is_dig cs, dropWhile is_dig cs) else ([], r))
      in if i = [] \<and> f = [] then None else Some (i, f, r'))"

text \<open>An exponent, when one with at least one digit follows the mark.\<close>

definition exponent :: "char \<Rightarrow> string \<Rightarrow> int \<times> string" where
  "exponent mark s =
     (case s of [] \<Rightarrow> (0, s)
      | c # r \<Rightarrow>
          if to_lower c = mark
          then let (neg, u) = parse_sign r; ds = takeWhile is_digit u
               in if ds = [] then (0, s)
                  else (if neg then - int (digits_val ds) else int (digits_val ds), dropWhile is_digit u)
          else (0, s))"

definition scaled :: "nat \<Rightarrow> int \<Rightarrow> rat" where
  "scaled base k = (if 0 \<le> k then of_nat base ^ nat k else 1 / of_nat base ^ nat (- k))"

definition digits_base :: "nat \<Rightarrow> (char \<Rightarrow> nat) \<Rightarrow> string \<Rightarrow> nat" where
  "digits_base base val s = foldl (\<lambda>a c. base * a + val c) 0 s"

definition nan_tail :: "string \<Rightarrow> string" where
  "nan_tail s =
     (case s of [] \<Rightarrow> s
      | c # r \<Rightarrow>
          if c = CHR ''(''
          then (case dropWhile (\<lambda>x. is_digit x \<or> x = CHR ''_'' \<or> (97 \<le> (of_char (to_lower x) :: nat) \<and> (of_char (to_lower x) :: nat) \<le> 122)) r of
                  [] \<Rightarrow> s | d # t \<Rightarrow> if d = CHR '')'' then t else s)
          else s)"

definition signed_double :: "bool \<Rightarrow> rat \<Rightarrow> double" where
  "signed_double neg v = round_double (if neg then - v else v)"

definition strtod :: "string \<Rightarrow> double \<times> string" where
  "strtod s =
     (let (neg, u) = parse_sign (dropWhile is_space s); low = map to_lower u
      in if take 8 low = ''infinity'' then (DInf neg, drop 8 u)
         else if take 3 low = ''inf'' then (DInf neg, drop 3 u)
         else if take 3 low = ''nan'' then (DNan, nan_tail (drop 3 u))
         else case (if take 2 low = ''0x'' then mantissa is_hex_digit (drop 2 u) else None) of
                Some (i, f, r) \<Rightarrow>
                  (case exponent (CHR ''p'') r of (e, r') \<Rightarrow>
                     (signed_double neg (of_nat (digits_base 16 hex_digit_val (i @ f))
                        * scaled 2 (e - 4 * int (length f))), r'))
              | None \<Rightarrow>
                  (case mantissa is_digit u of
                     None \<Rightarrow> (DFin 0, s)
                   | Some (i, f, r) \<Rightarrow>
                       (case exponent (CHR ''e'') r of (e, r') \<Rightarrow>
                          (signed_double neg (of_nat (digits_base 10 digit_val (i @ f))
                             * scaled 10 (e - int (length f))), r'))))"

subsection \<open>The default stream format\<close>

definition floor_log10 :: "rat \<Rightarrow> int" where
  "floor_log10 a =
     (if 1 \<le> a then int (length (show_nat (nat \<lfloor>a\<rfloor>))) - 1
      else - int (length (show_nat (nat (\<lceil>1 / a\<rceil> - 1)))))"

definition strip_zeros :: "string \<Rightarrow> string" where
  "strip_zeros s = rev (dropWhile (\<lambda>c. c = CHR ''0'') (rev s))"

definition with_fraction :: "string \<Rightarrow> string \<Rightarrow> string" where
  "with_fraction whole decimals =
     (let f = strip_zeros decimals in if f = [] then whole else whole @ ''.'' @ f)"

definition show_g_pos :: "rat \<Rightarrow> string" where
  "show_g_pos a =
     (let x0 = floor_log10 a; m0 = nat (round_half_even (a * scaled 10 (5 - x0)));
          (x, m) = (if m0 \<ge> 1000000 then (x0 + 1, 100000) else (x0, m0));
          ds = show_nat m
      in if x < - 4 \<or> 6 \<le> x
         then with_fraction (take 1 ds) (drop 1 ds) @ ''e'' @ (if x < 0 then ''-'' else ''+'')
                @ (if \<bar>x\<bar> < 10 then ''0'' else []) @ show_nat (nat \<bar>x\<bar>)
         else if 0 \<le> x then with_fraction (take (nat x + 1) ds) (drop (nat x + 1) ds)
         else with_fraction ''0'' (replicate (nat (- x) - 1) (CHR ''0'') @ ds))"

fun show_g :: "double \<Rightarrow> string" where
  "show_g DNan = ''nan''"
| "show_g (DInf neg) = (if neg then ''-inf'' else ''inf'')"
| "show_g (DFin r) = (if r = 0 then ''0'' else if r < 0 then ''-'' @ show_g_pos (- r) else show_g_pos r)"

end
