(* ===== verification/Logger.thy ===== *)
theory Logger
  imports Netos_Prelude
begin

text \<open>
  \<^verbatim>\<open>core/logger.cpp\<close>: the level filter of the logger. The lines that pass are kept in order with their level;
  the text of a line with its time stamp is in \<^verbatim>\<open>Log_Output\<close>. The log is the first part of the system state that the
  network, the queue and the node extend.
\<close>

datatype log_level = Debug | Info | Warn | Error

fun level_rank :: "log_level \<Rightarrow> nat" where
  "level_rank Debug = 0"
| "level_rank Info = 1"
| "level_rank Warn = 2"
| "level_rank Error = 3"

lemma level_rank_inj: "level_rank a = level_rank b \<longleftrightarrow> a = b"
  by (cases a; cases b) simp_all

text \<open>The levels are ordered by their numbers, as the cast to \<^verbatim>\<open>int\<close> does.\<close>

instantiation log_level :: linorder
begin

definition less_eq_log_level :: "log_level \<Rightarrow> log_level \<Rightarrow> bool" where
  "a \<le> b \<longleftrightarrow> level_rank a \<le> level_rank b"

definition less_log_level :: "log_level \<Rightarrow> log_level \<Rightarrow> bool" where
  "a < b \<longleftrightarrow> level_rank a < level_rank b"

instance
  by standard (auto simp: less_eq_log_level_def less_log_level_def level_rank_inj)

end

lemma level_order [simp]:
  "Debug \<le> l" "l \<le> Error" "\<not> Info < Info" "Debug < Info" "Info < Warn" "Warn < Error"
  by (cases l; simp add: less_eq_log_level_def less_log_level_def)+

fun level_label :: "log_level \<Rightarrow> string" where
  "level_label Debug = ''DEBUG''"
| "level_label Info = ''INFO''"
| "level_label Warn = ''WARN''"
| "level_label Error = ''ERROR''"

definition parse_log_level :: "string \<Rightarrow> log_level" where
  "parse_log_level s =
     (if s = ''debug'' then Debug else if s = ''warn'' then Warn else if s = ''error'' then Error else Info)"

record log_sys =
  lg_level :: log_level
  lg_lines :: "(log_level \<times> string) list"

definition set_level :: "log_level \<Rightarrow> 'z log_sys_scheme \<Rightarrow> 'z log_sys_scheme" where
  "set_level l s = s\<lparr>lg_level := l\<rparr>"

definition log_line :: "log_level \<Rightarrow> string \<Rightarrow> 'z log_sys_scheme \<Rightarrow> 'z log_sys_scheme" where
  "log_line l message s =
     (if level_rank l < level_rank (lg_level s) then s
      else s\<lparr>lg_lines := lg_lines s @ [(l, message)]\<rparr>)"

abbreviation log_debug :: "string \<Rightarrow> 'z log_sys_scheme \<Rightarrow> 'z log_sys_scheme" where
  "log_debug \<equiv> log_line Debug"
abbreviation log_info :: "string \<Rightarrow> 'z log_sys_scheme \<Rightarrow> 'z log_sys_scheme" where
  "log_info \<equiv> log_line Info"
abbreviation log_warn :: "string \<Rightarrow> 'z log_sys_scheme \<Rightarrow> 'z log_sys_scheme" where
  "log_warn \<equiv> log_line Warn"
abbreviation log_error :: "string \<Rightarrow> 'z log_sys_scheme \<Rightarrow> 'z log_sys_scheme" where
  "log_error \<equiv> log_line Error"

text \<open>Simplification leaves the text of a line alone.\<close>

lemma log_line_cong [cong]: "l = l' \<Longrightarrow> s = s' \<Longrightarrow> log_line l m s = log_line l' m s'"
  by simp

text \<open>Logging changes the lines only.\<close>

lemma log_line_level [simp]: "lg_level (log_line l m s) = lg_level s"
  by (simp add: log_line_def)

lemma log_line_more [simp]: "log_sys.more (log_line l m s) = log_sys.more s"
  by (simp add: log_line_def)

lemma log_line_lines:
  "lg_lines (log_line l m s) = lg_lines s @ (if l < lg_level s then [] else [(l, m)])"
  by (simp add: log_line_def less_log_level_def)

end
