(* ===== verification/Config.thy ===== *)
theory Config
  imports String_Utils C_Strtod Logger
begin

text \<open>
  \<^verbatim>\<open>core/config.h\<close> and \<^verbatim>\<open>core/config.cpp\<close>: the configuration record and its loader. The environment
  (\<^verbatim>\<open>getenv\<close>) and the files are parameters. A setting comes from the environment if it is set there and not
  empty, else from the file, else it is the default; numbers that do not parse completely
  are replaced by the default.
\<close>

subsection \<open>The configuration\<close>

record key_value =
  kv_key :: string
  kv_value :: string

record neighbor_config =
  nc_host :: string
  nc_port :: int

record config =
  node_id :: string
  config_source :: string
  log_level :: string
  bind_ip :: string
  bind_port :: int
  redis_socket :: string
  neighbors :: "neighbor_config list"
  seed_keys :: "key_value list"
  request_keys :: "string list"
  request_delay_ms :: int
  request_ttl :: int
  query_ttl_ms :: int
  sync_table_capacity :: int
  content_bf_bits :: int
  content_bf_hashes :: int
  content_bf_exchange_ms :: int
  content_bf_ttl_ms :: int
  content_bf_fallback_ms :: int
  query_bf_bits :: int
  query_bf_hashes :: int
  query_bf_aggregation_ms :: int
  query_bf_ttl_ms :: int
  query_bf_max_fill_ratio :: double
  query_bf_max_keys :: int
  broadcast_attempt_limit :: int
  broadcast_window_ms :: int
  topology_reload_ms :: int
  async_forward_enable :: bool
  forward_workers :: int
  forward_queue_max :: int
  forward_drop_policy :: string

subsection \<open>Settings\<close>

type_synonym env_map = "string table"
type_synonym environment = "string \<Rightarrow> string option"

definition get_env_only :: "environment \<Rightarrow> string \<Rightarrow> string" where
  "get_env_only getenv key = (case getenv key of None \<Rightarrow> [] | Some v \<Rightarrow> v)"

definition strip_quotes :: "string \<Rightarrow> string" where
  "strip_quotes v =
     (if length v < 2 then v
      else if (hd v = CHR 0x22 \<and> last v = CHR 0x22) \<or> (hd v = CHR 0x27 \<and> last v = CHR 0x27)
      then take (length v - 2) (drop 1 v) else v)"

text \<open>The loop over the lines of a file. \<^verbatim>\<open>getline\<close> cuts at line feeds; a last piece that is empty is
  skipped as every empty line is.\<close>

definition env_line :: "string \<Rightarrow> (string \<times> string) option" where
  "env_line raw =
     (let line = trim raw
      in if line = [] \<or> hd line = CHR ''#'' then None
         else let line' = (if take 7 line = ''export '' then trim (drop 7 line) else line)
              in if CHR ''='' \<notin> set line' then None
                 else let key = trim (takeWhile (\<lambda>c. c \<noteq> CHR ''='') line');
                          val = trim (tl (dropWhile (\<lambda>c. c \<noteq> CHR ''='') line'))
                      in if key = [] then None else Some (key, strip_quotes val))"

fun env_lines :: "string list \<Rightarrow> env_map \<Rightarrow> env_map" where
  "env_lines [] out = out"
| "env_lines (raw # rest) out =
     (case env_line raw of None \<Rightarrow> env_lines rest out
      | Some (key, val) \<Rightarrow> env_lines rest (AList.update key val out))"

definition load_env_file :: "(string \<Rightarrow> string option) \<Rightarrow> string \<Rightarrow> env_map \<Rightarrow> string + env_map" where
  "load_env_file read_file path out =
     (case read_file path of
        None \<Rightarrow> Inl (''unable to open config file '' @ path)
      | Some text \<Rightarrow> Inr (env_lines (split text (CHR 0x0A) False) out))"

definition get_setting :: "environment \<Rightarrow> env_map \<Rightarrow> string \<Rightarrow> string \<Rightarrow> string" where
  "get_setting getenv env_file key fallback =
     (case getenv key of
        Some (c # cs) \<Rightarrow> c # cs
      | _ \<Rightarrow> (case map_of env_file key of Some (c # cs) \<Rightarrow> c # cs | _ \<Rightarrow> fallback))"

definition get_setting_int :: "environment \<Rightarrow> env_map \<Rightarrow> string \<Rightarrow> int \<Rightarrow> int" where
  "get_setting_int getenv env_file key fallback =
     (let val = get_setting getenv env_file key []
      in if val = [] then fallback
         else let (parsed, stop) = strtol (c_str val)
              in if stop = c_str val \<or> stop \<noteq> [] then fallback else int32_of parsed)"

definition get_setting_double :: "environment \<Rightarrow> env_map \<Rightarrow> string \<Rightarrow> double \<Rightarrow> double" where
  "get_setting_double getenv env_file key fallback =
     (let val = get_setting getenv env_file key []
      in if val = [] then fallback
         else let (parsed, stop) = strtod (c_str val)
              in if stop = c_str val \<or> stop \<noteq> [] then fallback else parsed)"

definition get_setting_bool :: "environment \<Rightarrow> env_map \<Rightarrow> string \<Rightarrow> bool \<Rightarrow> bool" where
  "get_setting_bool getenv env_file key fallback =
     (let val = get_setting getenv env_file key []
      in if val = [] then fallback
         else let lowered = map to_lower val
              in if lowered = ''1'' \<or> lowered = ''true'' \<or> lowered = ''yes'' \<or> lowered = ''on'' then True
                 else if lowered = ''0'' \<or> lowered = ''false'' \<or> lowered = ''no'' \<or> lowered = ''off'' then False
                 else fallback)"

subsection \<open>Lists\<close>

definition parse_neighbor :: "string \<Rightarrow> neighbor_config option" where
  "parse_neighbor entry =
     (let pair = split entry (CHR '':'') True
      in if length pair \<noteq> 2 then None
         else let host = trim (pair ! 0); port = int32_of (fst (strtol (c_str (pair ! 1))))
              in if host \<noteq> [] \<and> port > 0 then Some \<lparr>nc_host = host, nc_port = port\<rparr> else None)"

definition parse_neighbors :: "string \<Rightarrow> neighbor_config list" where
  "parse_neighbors raw =
     (if raw = [] then [] else List.map_filter parse_neighbor (split raw (CHR '','') True))"

definition parse_seed :: "string \<Rightarrow> key_value option" where
  "parse_seed entry =
     (if CHR ''='' \<notin> set entry then None
      else let key = trim (takeWhile (\<lambda>c. c \<noteq> CHR ''='') entry);
               val = tl (dropWhile (\<lambda>c. c \<noteq> CHR ''='') entry)
           in if key \<noteq> [] then Some \<lparr>kv_key = key, kv_value = val\<rparr> else None)"

definition parse_seeds :: "string \<Rightarrow> key_value list" where
  "parse_seeds raw = (if raw = [] then [] else List.map_filter parse_seed (split raw (CHR '';'') True))"

definition parse_request_keys :: "string \<Rightarrow> string list" where
  "parse_request_keys raw =
     (if raw = [] then [] else filter (\<lambda>key. key \<noteq> []) (map trim (split raw (CHR '','') True)))"

subsection \<open>Loading\<close>

text \<open>The path of the configuration file (empty when there is none) and the warnings logged.\<close>

definition config_path :: "environment \<Rightarrow> string \<times> string list" where
  "config_path getenv =
     (let explicit_path = trim (get_env_only getenv ''NETOS_CONFIG_FILE'')
      in if explicit_path \<noteq> [] then (explicit_path, [])
         else let topology_dir = trim (get_env_only getenv ''NETOS_TOPOLOGY_DIR'')
              in if topology_dir = [] then ([], [])
                 else let node = trim (get_env_only getenv ''NETOS_NODE_ID'')
                      in if node = [] then ([], [''NETOS_TOPOLOGY_DIR set but NETOS_NODE_ID is empty; skipping config file load.''])
                         else if last topology_dir = CHR ''/'' then (topology_dir @ node @ ''.env'', [])
                         else (topology_dir @ ''/'' @ node @ ''.env'', []))"

definition config_of :: "environment \<Rightarrow> env_map \<Rightarrow> string \<Rightarrow> config" where
  "config_of getenv env_file src =
     (let str = get_setting getenv env_file; num = get_setting_int getenv env_file
      in \<lparr>node_id = str ''NETOS_NODE_ID'' ''node'',
          config_source = src,
          log_level = trim (str ''NETOS_LOG_LEVEL'' []),
          bind_ip = str ''NETOS_BIND_IP'' ''0.0.0.0'',
          bind_port = num ''NETOS_BIND_PORT'' 9000,
          redis_socket = str ''NETOS_REDIS_SOCKET'' ''/var/run/redis/redis.sock'',
          neighbors = parse_neighbors (trim (str ''NETOS_NEIGHBORS'' [])),
          seed_keys = parse_seeds (trim (str ''NETOS_SEED_KEYS'' [])),
          request_keys = parse_request_keys (trim (str ''NETOS_REQUEST_KEYS'' [])),
          request_delay_ms = num ''NETOS_REQUEST_DELAY_MS'' 800,
          request_ttl = num ''NETOS_REQUEST_TTL'' 3,
          query_ttl_ms = num ''NETOS_QUERY_TTL_MS'' 1500,
          sync_table_capacity = num ''NETOS_SYNC_TABLE_CAPACITY'' 128,
          content_bf_bits = num ''NETOS_CONTENT_BF_BITS'' 512,
          content_bf_hashes = num ''NETOS_CONTENT_BF_HASHES'' 3,
          content_bf_exchange_ms = num ''NETOS_CONTENT_BF_EXCHANGE_MS'' 1000,
          content_bf_ttl_ms = num ''NETOS_CONTENT_BF_TTL_MS'' 3000,
          content_bf_fallback_ms = num ''NETOS_CONTENT_BF_FALLBACK_MS'' 300,
          query_bf_bits = num ''NETOS_QUERY_BF_BITS'' 1024,
          query_bf_hashes = num ''NETOS_QUERY_BF_HASHES'' 4,
          query_bf_aggregation_ms = num ''NETOS_QUERY_BF_AGGREGATION_MS'' (num ''NETOS_AGGREGATION_WINDOW_MS'' 200),
          query_bf_ttl_ms = num ''NETOS_QUERY_BF_TTL_MS'' 2000,
          query_bf_max_fill_ratio = get_setting_double getenv env_file ''NETOS_QUERY_BF_MAX_FILL_RATIO'' (round_double (9 / 10)),
          query_bf_max_keys = num ''NETOS_QUERY_BF_MAX_KEYS'' 0,
          broadcast_attempt_limit = num ''NETOS_BROADCAST_ATTEMPT_LIMIT'' 3,
          broadcast_window_ms = num ''NETOS_BROADCAST_WINDOW_MS'' 1000,
          topology_reload_ms = num ''NETOS_TOPOLOGY_RELOAD_MS'' 0,
          async_forward_enable = get_setting_bool getenv env_file ''NETOS_ASYNC_ENABLE'' True,
          forward_workers = num ''NETOS_FORWARD_WORKERS'' 1,
          forward_queue_max = num ''NETOS_FORWARD_QUEUE_MAX'' 1024,
          forward_drop_policy = trim (str ''NETOS_FORWARD_DROP_POLICY'' ''drop_newest'')\<rparr>)"

text \<open>\<open>want_error\<close> is whether the caller passed a place for the error text; the result also holds
  that text, the source, and the warnings logged.\<close>

record loaded =
  ld_config :: config
  ld_error :: string
  ld_source :: string
  ld_warnings :: "string list"

definition load_config_impl :: "environment \<Rightarrow> (string \<Rightarrow> string option) \<Rightarrow> bool \<Rightarrow> loaded" where
  "load_config_impl getenv read_file want_error =
     (let (path, warnings) = config_path getenv;
          source = (if path \<noteq> [] then path else ''env'')
      in if path = []
         then \<lparr>ld_config = config_of getenv [] ''env'', ld_error = [], ld_source = source, ld_warnings = warnings\<rparr>
         else case load_env_file read_file path [] of
                Inr env_file \<Rightarrow>
                  \<lparr>ld_config = config_of getenv env_file path, ld_error = [], ld_source = source, ld_warnings = warnings\<rparr>
              | Inl e \<Rightarrow>
                  \<lparr>ld_config = config_of getenv [] ''env'', ld_error = (if want_error then e else []),
                   ld_source = source,
                   ld_warnings = (if want_error then warnings else warnings @ [''config file load failed: '' @ e])\<rparr>)"

subsection \<open>Settings and their precedence\<close>

lemma get_setting_spec:
  "get_setting getenv env_file key fallback =
     (if getenv key \<noteq> None \<and> getenv key \<noteq> Some [] then the (getenv key)
      else if map_of env_file key \<noteq> None \<and> map_of env_file key \<noteq> Some [] then the (map_of env_file key)
      else fallback)"
  by (auto simp: get_setting_def split: option.splits list.splits)

lemma get_setting_int_range:
  "in_int32 fallback \<Longrightarrow> in_int32 (get_setting_int getenv env_file key fallback)"
  by (simp add: get_setting_int_def Let_def split_beta)

lemma get_setting_int_digits:
  assumes "get_setting getenv env_file key [] = show_int i" "in_int32 i"
  shows "get_setting_int getenv env_file key d = i"
proof -
  have "strtol (show_int i) = (i, [])"
    using assms(2) by (intro strtol_show_int) (auto simp: in_int32_def)
  then show ?thesis
    using assms show_int_ne [of i, symmetric] by (simp add: get_setting_int_def)
qed

subsection \<open>Files are read back\<close>

text \<open>What a line of a file can be: a line without an equals sign (an empty line, for example), a comment, or a setting. A setting has
  blanks before it, perhaps the word \<^verbatim>\<open>export\<close> and more blanks, the key, blanks around the equals sign, the value, perhaps between
  quotes, and blanks after it (the carriage return of a DOS file, for example).\<close>

record env_setting =
  es_lead :: string
  es_export :: "string option"
  es_key :: string
  es_before :: string
  es_after :: string
  es_quote :: "char option"
  es_value :: string
  es_trail :: string

datatype env_entry = NoSetting string | Comment string string | Setting env_setting

definition render_head :: "env_setting \<Rightarrow> string" where
  "render_head e = es_lead e @ (case es_export e of None \<Rightarrow> [] | Some blanks \<Rightarrow> ''export '' @ blanks) @ es_key e @ es_before e"

definition render_value :: "env_setting \<Rightarrow> string" where
  "render_value e = (case es_quote e of None \<Rightarrow> es_value e | Some q \<Rightarrow> [q] @ es_value e @ [q])"

fun render :: "env_entry \<Rightarrow> string" where
  "render (NoSetting text) = text"
| "render (Comment lead text) = lead @ ''#'' @ text"
| "render (Setting e) = render_head e @ ''='' @ es_after e @ render_value e @ es_trail e"

text \<open>A text without blanks at its ends, and the quotes.\<close>

definition tight :: "string \<Rightarrow> bool" where
  "tight s \<longleftrightarrow> s = [] \<or> \<not> is_space (hd s) \<and> \<not> is_space (last s)"

abbreviation quotes :: "char set" where
  "quotes \<equiv> {CHR 0x22, CHR 0x27}"

definition setting_ok :: "env_setting \<Rightarrow> bool" where
  "setting_ok e \<longleftrightarrow> list_all is_space (es_lead e @ es_before e @ es_after e @ es_trail e) \<and> tight (es_key e) \<and> CHR ''='' \<notin> set (es_key e)
     \<and> (case es_export e of Some blanks \<Rightarrow> list_all is_space blanks
        | None \<Rightarrow> (es_key e \<noteq> [] \<longrightarrow> hd (es_key e) \<noteq> CHR ''#'' \<and> take 7 (es_key e @ es_before e) \<noteq> ''export ''))
     \<and> (case es_quote e of Some q \<Rightarrow> q \<in> quotes
        | None \<Rightarrow> tight (es_value e) \<and> \<not> (2 \<le> length (es_value e) \<and> hd (es_value e) = last (es_value e) \<and> hd (es_value e) \<in> quotes))"

definition entry_ok :: "env_entry \<Rightarrow> bool" where
  "entry_ok e \<longleftrightarrow> CHR 0x0A \<notin> set (render e) \<and> (case e of NoSetting text \<Rightarrow> CHR ''='' \<notin> set text
     | Comment lead text \<Rightarrow> list_all is_space lead | Setting s \<Rightarrow> setting_ok s)"

text \<open>What an entry sets: nothing, if it is no setting or its key is empty.\<close>

fun entry_setting :: "env_entry \<Rightarrow> (string \<times> string) option" where
  "entry_setting (Setting e) = (if es_key e = [] then None else Some (es_key e, es_value e))"
| "entry_setting _ = None"

text \<open>Blanks in front and behind.\<close>

definition strip_left :: "string \<Rightarrow> string" where
  "strip_left s = dropWhile is_space s"

definition strip_right :: "string \<Rightarrow> string" where
  "strip_right s = rev (strip_left (rev s))"

lemma trim_strip: "trim s = strip_right (strip_left s)"
  by (simp add: trim_eq strip_right_def strip_left_def)

lemma strip_left_mid: "\<not> is_space c \<Longrightarrow> strip_left (a @ c # b) = strip_left a @ c # b"
  by (induction a) (auto simp: strip_left_def)

lemma strip_right_mid: "\<not> is_space c \<Longrightarrow> strip_right (a @ c # b) = a @ c # strip_right b"
  using strip_left_mid [of c "rev b" "rev a"] by (simp add: strip_right_def)

lemma strip_left_left [simp]: "strip_left (strip_left s) = strip_left s"
  by (induction s) (auto simp: strip_left_def)

lemma strip_right_right [simp]: "strip_right (strip_right s) = strip_right s"
  by (simp add: strip_right_def)

lemma strip_commute: "strip_left (strip_right s) = strip_right (strip_left s)"
proof (cases "\<exists>c \<in> set s. \<not> is_space c")
  case True
  then obtain a c b where "s = a @ c # b" "\<not> is_space c"
    by (auto dest: split_list)
  then show ?thesis
    by (simp add: strip_left_mid strip_right_mid)
next
  case False
  then show ?thesis
    by (simp add: strip_right_def strip_left_def dropWhile_eq_Nil_conv [THEN iffD2])
qed

lemma strip_left_nil [simp]: "strip_left [] = []"
  by (simp add: strip_left_def)

lemma trim_strip_left [simp]: "trim (strip_left s) = trim s"
  by (simp add: trim_strip)

lemma trim_strip_right [simp]: "trim (strip_right s) = trim s"
  by (simp add: trim_strip strip_commute)

lemma strip_left_blanks: "list_all is_space a \<Longrightarrow> strip_left (a @ s) = strip_left s"
  by (induction a) (auto simp: strip_left_def)

lemma strip_right_blanks: "list_all is_space b \<Longrightarrow> strip_right (s @ b) = strip_right s"
  by (simp add: strip_right_def strip_left_blanks)

lemma trim_blanks: "list_all is_space a \<Longrightarrow> list_all is_space b \<Longrightarrow> trim (a @ s @ b) = trim s"
  by (metis append.assoc strip_left_blanks strip_right_blanks trim_strip_left trim_strip_right)

lemma trim_tight: "tight s \<Longrightarrow> trim s = s"
  by (intro trim_id) (auto simp: tight_def)

lemma tight_trim: "tight (trim s)"
  using trim_no_lead [of s "hd (trim s)" "tl (trim s)"] trim_no_trail [of s] by (cases "trim s") (auto simp: tight_def)

lemma strip_left_parts: "\<exists>b. strip_left s = trim s @ b \<and> list_all is_space b"
proof -
  have "strip_left s = trim s @ rev (takeWhile is_space (rev (strip_left s)))"
    unfolding trim_strip strip_right_def strip_left_def by (metis rev_append rev_rev_ident takeWhile_dropWhile_id)
  then show ?thesis
    by (intro exI conjI, assumption) (auto simp: list_all_iff dest: set_takeWhileD)
qed

lemma strip_parts: "\<exists>a b. s = a @ trim s @ b \<and> list_all is_space a \<and> list_all is_space b"
proof -
  obtain b where "strip_left s = trim s @ b" "list_all is_space b"
    using strip_left_parts [of s] by blast
  moreover have "s = takeWhile is_space s @ strip_left s"
    by (simp add: strip_left_def)
  moreover have "list_all is_space (takeWhile is_space s)"
    by (auto simp: list_all_iff dest: set_takeWhileD)
  ultimately show ?thesis
    by metis
qed

lemma trim_set: "c \<in> set (trim s) \<Longrightarrow> c \<in> set s"
  using strip_parts [of s] by (metis Un_iff set_append)

lemma blanks_no_equals: "list_all is_space s \<Longrightarrow> CHR ''='' \<notin> set s"
  by (auto simp: list_all_iff is_space_def)

lemma strip_left_set: "c \<in> set (strip_left s) \<Longrightarrow> c \<in> set s"
  by (auto simp: strip_left_def dest: set_dropWhileD)

text \<open>A line with an equals sign, and one without.\<close>

lemma not_blank [simp]: "\<not> is_space (CHR ''='')" "\<not> is_space (CHR ''#'')" "\<not> is_space (CHR ''e'')" "q \<in> quotes \<Longrightarrow> \<not> is_space q"
  by (auto simp: is_space_def)

lemma take_export: "take 7 (k @ CHR ''='' # v) = ''export '' \<longleftrightarrow> take 7 k = ''export ''"
proof (cases "length k < 7")
  case True
  then have "CHR ''='' \<in> set (take 7 (k @ CHR ''='' # v))"
    by (auto simp: take_Cons')
  moreover have "CHR ''='' \<notin> set ''export ''"
    by simp
  ultimately have "take 7 (k @ CHR ''='' # v) \<noteq> ''export ''"
    by metis
  moreover have "take 7 k \<noteq> ''export ''"
    using True by auto
  ultimately show ?thesis
    by simp
qed simp

lemma env_line_at:
  assumes "CHR ''='' \<notin> set a"
  shows "env_line (a @ ''='' @ b) = (let h = strip_left a in
     if h \<noteq> [] \<and> hd h = CHR ''#'' then None
     else let key = trim (if take 7 h = ''export '' then drop 7 h else h)
          in if key = [] then None else Some (key, strip_quotes (trim b)))"
proof -
  let ?h = "strip_left a" and ?b = "CHR ''='' # strip_right b"
  have line: "trim (a @ ''='' @ b) = ?h @ ?b"
    by (simp add: trim_strip strip_left_mid strip_right_mid)
  have hd: "hd (?h @ ?b) = CHR ''#'' \<longleftrightarrow> ?h \<noteq> [] \<and> hd ?h = CHR ''#''"
    by (cases ?h) auto
  define g where "g = (if take 7 ?h = ''export '' then strip_left (drop 7 ?h) else ?h)"
  have "7 \<le> length ?h" if "take 7 ?h = ''export ''"
    using arg_cong [OF that, of length] by simp
  then have "(if take 7 (?h @ ?b) = ''export '' then trim (drop 7 (?h @ ?b)) else ?h @ ?b) = g @ ?b"
    unfolding take_export by (auto simp: g_def trim_strip strip_left_mid strip_right_mid)
  moreover have "CHR ''='' \<notin> set g"
    using assms by (auto simp: g_def dest!: strip_left_set in_set_dropD)
  then have "takeWhile (\<lambda>c. c \<noteq> CHR ''='') (g @ ?b) = g" "dropWhile (\<lambda>c. c \<noteq> CHR ''='') (g @ ?b) = ?b"
    by (simp_all add: takeWhile_sep dropWhile_sep)
  moreover have "trim g = trim (if take 7 ?h = ''export '' then drop 7 ?h else ?h)"
    by (simp add: g_def)
  ultimately show ?thesis
    unfolding env_line_def line Let_def hd by simp
qed

lemma env_line_none: "CHR ''='' \<notin> set s \<Longrightarrow> env_line s = None"
  by (auto simp: env_line_def Let_def dest!: trim_set in_set_dropD)

lemma env_line_comment: "list_all is_space lead \<Longrightarrow> env_line (lead @ CHR ''#'' # t) = None"
  using strip_left_mid [of "CHR ''#''" "[]" t] strip_right_mid [of "CHR ''#''" "[]" t]
  by (simp add: env_line_def trim_strip strip_left_blanks)

lemma value_read:
  assumes "setting_ok e"
  shows "strip_quotes (trim (es_after e @ render_value e @ es_trail e)) = es_value e"
proof -
  have "tight (render_value e)"
    using assms by (auto simp: render_value_def setting_ok_def tight_def split: option.splits)
  then have "trim (es_after e @ render_value e @ es_trail e) = render_value e"
    using assms trim_blanks [of "es_after e" "es_trail e" "render_value e"] by (simp add: setting_ok_def trim_tight)
  then show ?thesis
    using assms by (auto simp: render_value_def setting_ok_def strip_quotes_def split: option.splits)
qed

lemma key_read:
  assumes "setting_ok e"
  defines "h \<equiv> strip_left (render_head e)"
  shows "\<not> (h \<noteq> [] \<and> hd h = CHR ''#'')" "trim (if take 7 h = ''export '' then drop 7 h else h) = es_key e"
proof -
  have key: "trim (a @ es_key e @ es_before e) = es_key e" if "list_all is_space a" for a
    using that assms(1) trim_blanks [of a "es_before e" "es_key e"] by (simp add: setting_ok_def trim_tight)
  have "\<not> (h \<noteq> [] \<and> hd h = CHR ''#'') \<and> trim (if take 7 h = ''export '' then drop 7 h else h) = es_key e"
  proof (cases "es_export e")
    case None
    then have h: "h = (if es_key e = [] then [] else es_key e @ es_before e)"
      using assms(1) strip_left_blanks [of "es_before e" "[]"] strip_left_mid [of "hd (es_key e)" "[]" "tl (es_key e) @ es_before e"]
      by (cases "es_key e") (auto simp: h_def render_head_def strip_left_blanks setting_ok_def tight_def)
    show ?thesis
      using assms(1) None key [of "[]"] by (auto simp: h setting_ok_def trim_tight tight_def)
  next
    case (Some blanks)
    then have h: "h = ''export '' @ blanks @ es_key e @ es_before e"
      using assms strip_left_mid [of "CHR ''e''" "[]"] by (simp add: h_def render_head_def strip_left_blanks setting_ok_def)
    show ?thesis
      using assms(1) Some key [of blanks] by (simp add: h setting_ok_def)
  qed
  then show "\<not> (h \<noteq> [] \<and> hd h = CHR ''#'')" "trim (if take 7 h = ''export '' then drop 7 h else h) = es_key e"
    by blast+
qed

lemma head_no_equals: "setting_ok e \<Longrightarrow> CHR ''='' \<notin> set (render_head e)"
  using blanks_no_equals by (auto simp: render_head_def setting_ok_def split: option.splits)

lemma env_line_render: "entry_ok e \<Longrightarrow> env_line (render e) = entry_setting e"
proof (cases e)
  case (Setting s)
  assume "entry_ok e"
  then have ok: "setting_ok s"
    by (simp add: entry_ok_def Setting)
  show ?thesis
    using env_line_at [OF head_no_equals [OF ok], of "es_after s @ render_value s @ es_trail s"] key_read [OF ok] value_read [OF ok]
    by (simp add: Setting Let_def)
qed (auto simp: entry_ok_def env_line_none env_line_comment)

text \<open>Every line is one of these.\<close>

lemma value_shape:
  assumes "tight s"
  obtains (shape) quote val where "(case quote of None \<Rightarrow> val | Some q \<Rightarrow> [q] @ val @ [q]) = s"
    and "case quote of Some q \<Rightarrow> q \<in> quotes
      | None \<Rightarrow> tight val \<and> \<not> (2 \<le> length val \<and> hd val = last val \<and> hd val \<in> quotes)"
proof (cases "2 \<le> length s \<and> hd s = last s \<and> hd s \<in> quotes")
  case True
  then obtain c cs where "s = c # cs" "cs \<noteq> []"
    by (cases s; cases "tl s") auto
  then show thesis
    using True by (intro shape [where quote = "Some (hd s)" and val = "butlast (tl s)"]) auto
next
  case False
  then show thesis
    using assms by (intro shape [where quote = None and val = s]) simp_all
qed

lemma head_shape:
  assumes "CHR ''='' \<notin> set a" "\<not> (strip_left a \<noteq> [] \<and> hd (strip_left a) = CHR ''#'')"
  obtains x k before where "\<And>after quote val trail. list_all is_space (after @ trail) \<Longrightarrow>
      (case quote of Some q \<Rightarrow> q \<in> quotes
       | None \<Rightarrow> tight val \<and> \<not> (2 \<le> length val \<and> hd val = last val \<and> hd val \<in> quotes)) \<Longrightarrow>
      let e = \<lparr>es_lead = takeWhile is_space a, es_export = x, es_key = k, es_before = before, es_after = after,
        es_quote = quote, es_value = val, es_trail = trail\<rparr> in setting_ok e \<and> render_head e = a"
proof (cases "take 7 (strip_left a) = ''export ''")
  case True
  let ?d = "drop 7 (strip_left a)"
  obtain blanks before where d: "?d = blanks @ trim ?d @ before" "list_all is_space blanks" "list_all is_space before"
    using strip_parts [of ?d] by blast
  have "a = takeWhile is_space a @ ''export '' @ ?d"
    using True append_take_drop_id [of 7 "strip_left a"] takeWhile_dropWhile_id [of is_space a] by (simp add: strip_left_def)
  moreover have "CHR ''='' \<notin> set (trim ?d)" "list_all is_space (takeWhile is_space a)"
    using assms(1) by (auto simp: list_all_iff dest!: trim_set in_set_dropD strip_left_set dest: set_takeWhileD)
  ultimately show thesis
    using d tight_trim [of ?d] by (intro that [of "Some blanks" "trim ?d" before])
      (simp add: setting_ok_def render_head_def split: option.splits)
next
  case False
  define k where "k = trim a"
  obtain before where d: "strip_left a = k @ before" "list_all is_space before"
    using strip_left_parts [of a] by (auto simp: k_def)
  have k: "CHR ''='' \<notin> set k" "tight k"
    using assms(1) trim_set tight_trim unfolding k_def by blast+
  have "k \<noteq> [] \<longrightarrow> hd k \<noteq> CHR ''#'' \<and> take 7 (k @ before) \<noteq> ''export ''"
    using False assms(2) unfolding d(1) by auto
  moreover have "a = takeWhile is_space a @ k @ before" "list_all is_space (takeWhile is_space a)"
    unfolding d(1) [symmetric] by (auto simp: strip_left_def list_all_iff dest: set_takeWhileD)
  ultimately show thesis
    using d k by (intro that [of None k before]) (simp add: setting_ok_def render_head_def split: option.splits)
qed

lemma line_entry:
  assumes "CHR 0x0A \<notin> set raw"
  shows "\<exists>e. entry_ok e \<and> render e = raw"
proof (cases "CHR ''='' \<in> set raw")
  case False
  then show ?thesis
    using assms by (intro exI [of _ "NoSetting raw"]) (simp add: entry_ok_def)
next
  case True
  then obtain a b where raw: "raw = a @ CHR ''='' # b" "CHR ''='' \<notin> set a"
    by (auto dest: split_list_first)
  show ?thesis
  proof (cases "strip_left a \<noteq> [] \<and> hd (strip_left a) = CHR ''#''")
    case True
    define lead where "lead = takeWhile is_space a"
    obtain t where t: "strip_left a = CHR ''#'' # t"
      using True by (cases "strip_left a") auto
    have "a = lead @ strip_left a"
      by (simp add: lead_def strip_left_def)
    then have "raw = render (Comment lead (t @ CHR ''='' # b))"
      unfolding t raw(1) by simp
    moreover have "list_all is_space lead"
      by (auto simp: lead_def list_all_iff dest: set_takeWhileD)
    ultimately show ?thesis
      using assms by (intro exI [of _ "Comment lead (t @ CHR ''='' # b)"]) (simp add: entry_ok_def)
  next
    case False
    obtain after trail where b: "b = after @ trim b @ trail" "list_all is_space (after @ trail)"
      using strip_parts [of b] by auto
    obtain quote val where val: "(case quote of None \<Rightarrow> val | Some q \<Rightarrow> [q] @ val @ [q]) = trim b"
      and ok: "case quote of Some q \<Rightarrow> q \<in> quotes
        | None \<Rightarrow> tight val \<and> \<not> (2 \<le> length val \<and> hd val = last val \<and> hd val \<in> quotes)"
      by (rule value_shape [OF tight_trim])
    obtain x k before where "let e = \<lparr>es_lead = takeWhile is_space a, es_export = x, es_key = k, es_before = before,
        es_after = after, es_quote = quote, es_value = val, es_trail = trail\<rparr> in setting_ok e \<and> render_head e = a"
      using head_shape [OF raw(2) False] b(2) ok by metis
    then obtain e where e: "setting_ok e" "render_head e = a" "es_after e = after" "es_quote e = quote" "es_value e = val" "es_trail e = trail"
      unfolding Let_def by fastforce
    have "render_value e = trim b"
      using val unfolding render_value_def e .
    then have "render (Setting e) = raw"
      using e b(1) raw(1) by simp
    then show ?thesis
      using e(1) assms by (intro exI [of _ "Setting e"]) (simp only: entry_ok_def env_entry.case simp_thms)
  qed
qed

lemma every_text_has_entries: "\<exists>es. list_all entry_ok es \<and> text = join (CHR 0x0A) (map render es)"
proof -
  have no_feed: "CHR 0x0A \<notin> set p" if "p \<in> set (pieces (CHR 0x0A) text)" for p
    by (rule pieces_no_delim [OF that])
  have "\<exists>es. list_all entry_ok es \<and> map render es = ps" if "\<forall>p \<in> set ps. CHR 0x0A \<notin> set p" for ps
    using that
  proof (induction ps)
    case (Cons p ps)
    then obtain e es where "entry_ok e" "render e = p" "list_all entry_ok es" "map render es = ps"
      using line_entry by fastforce
    then show ?case
      by (intro exI [of _ "e # es"]) simp
  qed simp
  then show ?thesis
    using no_feed join_pieces by metis
qed

text \<open>What a file sets.\<close>

lemma env_lines_map: "map_of (env_lines raws t) = map_of t ++ map_of (rev (List.map_filter env_line raws))"
proof (induction raws arbitrary: t)
  case (Cons raw raws)
  show ?case
  proof (cases "env_line raw")
    case (Some kv)
    then have "map_of (env_lines (raw # raws) t) = map_of (AList.update (fst kv) (snd kv) t) ++ map_of (rev (List.map_filter env_line raws))"
      by (simp add: split_beta Cons)
    also have "\<dots> = map_of t ++ map_of (rev (List.map_filter env_line (raw # raws)))"
      using Some by (cases kv) (auto simp: tbl_simps map_add_def fun_eq_iff split: option.splits)
    finally show ?thesis .
  qed (simp add: Cons)
qed simp

lemma join_snoc: "ps \<noteq> [] \<Longrightarrow> join d (ps @ [p]) = join d ps @ d # p"
  by (induction d ps rule: join.induct) auto

lemma load_env_file_entries:
  assumes "list_all entry_ok es" "read_file path = Some (join (CHR 0x0A) (map render es))"
  shows "\<exists>t. load_env_file read_file path [] = Inr t \<and> map_of t = map_of (rev (List.map_filter entry_setting es))"
proof (cases "es = []")
  case True
  then show ?thesis
    using assms(2) env_line_none [of "[]"] by (simp add: load_env_file_def split_keep)
next
  case False
  have "list_all (\<lambda>p. CHR 0x0A \<notin> set p) (map render es)"
    using assms(1) by (auto simp: list_all_iff entry_ok_def)
  then have "split (join (CHR 0x0A) (map render es)) (CHR 0x0A) False = map render es"
    using False by (simp add: split_keep pieces_join)
  moreover have "List.map_filter env_line (map render es) = List.map_filter entry_setting es"
    using assms(1) by (induction es) (auto simp: env_line_render split: option.split)
  ultimately show ?thesis
    using assms(2) env_lines_map [of "map render es" "[]"] by (simp add: load_env_file_def)
qed

subsection \<open>Properties\<close>

text \<open>C37. Settings come from the file as written, below the environment. Any file is a sequence of lines of the three kinds, with or
  without a line feed after the last one. For every such reading of a file the loader succeeds, and a setting is the environment's value
  if that is set and not empty, else the value of the last line that sets the key, without its quotes, if that is not
  empty, else the default; comments, lines without an equals sign or without a key set nothing, and neither \<^verbatim>\<open>export\<close>
  nor blanks outside quotes count.\<close>

theorem config_file_settings:
  assumes "list_all entry_ok es" "final \<in> {[], [CHR 0x0A]}"
    and "read_file path = Some (join (CHR 0x0A) (map render es) @ final)"
  shows "(\<exists>t. load_env_file read_file path [] = Inr t \<and>
    get_setting getenv t key d =
      (if getenv key \<noteq> None \<and> getenv key \<noteq> Some [] then the (getenv key)
       else case map_of (rev (List.map_filter entry_setting es)) key of None \<Rightarrow> d | Some v \<Rightarrow> if v = [] then d else v))
    \<and> (\<forall>text. \<exists>es'. list_all entry_ok es' \<and> text = join (CHR 0x0A) (map render es'))"
proof -
  have "\<exists>t. load_env_file read_file path [] = Inr t \<and> map_of t = map_of (rev (List.map_filter entry_setting es))"
  proof (cases "final = []")
    case True
    then show ?thesis
      using load_env_file_entries [OF assms(1)] assms(3) by simp
  next
    case False
    let ?es = "(if es = [] then [NoSetting []] else es) @ [NoSetting []]"
    have "join (CHR 0x0A) (map render es) @ final = join (CHR 0x0A) (map render ?es)"
      using False assms(2) join_snoc [of "map render es" "CHR 0x0A" "[]"] by auto
    moreover have "list_all entry_ok ?es" "List.map_filter entry_setting ?es = List.map_filter entry_setting es"
      using assms(1) by (simp_all add: entry_ok_def List.map_filter_def)
    ultimately show ?thesis
      using load_env_file_entries [of ?es read_file path] assms(3) by simp
  qed
  then show ?thesis
    using every_text_has_entries by (auto simp: get_setting_spec split: option.splits)
qed

text \<open>The file \<^verbatim>\<open>infra/topology/2-node/node1.env\<close>, and one with the other kinds of lines.\<close>

definition node1_env :: "string list" where
  "node1_env = [''NETOS_NODE_ID=node1'', ''NETOS_BIND_IP=0.0.0.0'', ''NETOS_BIND_PORT=9001'', ''NETOS_NEIGHBORS=node2:9002'',
     ''NETOS_SEED_KEYS=alpha=hello-from-node1'', ''NETOS_REQUEST_DELAY_MS=800'', ''NETOS_REQUEST_TTL=3'',
     ''NETOS_QUERY_TTL_MS=1500'', ''NETOS_SYNC_TABLE_CAPACITY=128'', ''NETOS_LOG_LEVEL=info'']"

definition plain_line :: "string \<Rightarrow> string \<Rightarrow> env_entry" where
  "plain_line key val = Setting \<lparr>es_lead = [], es_export = None, es_key = key, es_before = [], es_after = [], es_quote = None,
     es_value = val, es_trail = []\<rparr>"

theorem config_file_settings_witness:
  "(\<exists>t. load_env_file (\<lambda>_. Some (join (CHR 0x0A) node1_env @ [CHR 0x0A])) ''f'' [] = Inr t
      \<and> get_setting (\<lambda>_. None) t ''NETOS_SEED_KEYS'' [] = ''alpha=hello-from-node1'')
   \<and> (\<exists>t. load_env_file (\<lambda>_. Some ''# A=0\<newline>\<newline>  export A = \"x y\" \<newline>B'') ''f'' [] = Inr t \<and> get_setting (\<lambda>_. None) t ''A'' [] = ''x y'')"
proof
  let ?es = "[plain_line ''NETOS_NODE_ID'' ''node1'', plain_line ''NETOS_BIND_IP'' ''0.0.0.0'', plain_line ''NETOS_BIND_PORT'' ''9001'',
     plain_line ''NETOS_NEIGHBORS'' ''node2:9002'', plain_line ''NETOS_SEED_KEYS'' ''alpha=hello-from-node1'',
     plain_line ''NETOS_REQUEST_DELAY_MS'' ''800'', plain_line ''NETOS_REQUEST_TTL'' ''3'', plain_line ''NETOS_QUERY_TTL_MS'' ''1500'',
     plain_line ''NETOS_SYNC_TABLE_CAPACITY'' ''128'', plain_line ''NETOS_LOG_LEVEL'' ''info'']"
  note defs = plain_line_def entry_ok_def setting_ok_def render_head_def render_value_def tight_def is_space_def
  have "list_all entry_ok ?es" "map render ?es = node1_env"
    by (simp_all add: defs node1_env_def)
  then show "\<exists>t. load_env_file (\<lambda>_. Some (join (CHR 0x0A) node1_env @ [CHR 0x0A])) ''f'' [] = Inr t
      \<and> get_setting (\<lambda>_. None) t ''NETOS_SEED_KEYS'' [] = ''alpha=hello-from-node1''"
    using config_file_settings [of ?es "[CHR 0x0A]" "\<lambda>_. Some (join (CHR 0x0A) node1_env @ [CHR 0x0A])" "''f''" "\<lambda>_. None"
        "''NETOS_SEED_KEYS''" "[]"] by (simp add: plain_line_def)
  let ?fs = "[Comment [] '' A=0'', NoSetting [], Setting \<lparr>es_lead = ''  '', es_export = Some [], es_key = ''A'', es_before = '' '', es_after = '' '',
     es_quote = Some (CHR 0x22), es_value = ''x y'', es_trail = '' ''\<rparr>, NoSetting ''B'']"
  have "list_all entry_ok ?fs" "join (CHR 0x0A) (map render ?fs) = ''# A=0\<newline>\<newline>  export A = \"x y\" \<newline>B''"
    by (simp_all add: defs)
  then show "\<exists>t. load_env_file (\<lambda>_. Some ''# A=0\<newline>\<newline>  export A = \"x y\" \<newline>B'') ''f'' [] = Inr t \<and> get_setting (\<lambda>_. None) t ''A'' [] = ''x y''"
    using config_file_settings [of ?fs "[]" "\<lambda>_. Some ''# A=0\<newline>\<newline>  export A = \"x y\" \<newline>B''" "''f''" "\<lambda>_. None" "''A''" "[]"] by simp
qed

definition int_fields :: "config \<Rightarrow> int list" where
  "int_fields c = [bind_port c, request_delay_ms c, request_ttl c, query_ttl_ms c, sync_table_capacity c,
     content_bf_bits c, content_bf_hashes c, content_bf_exchange_ms c, content_bf_ttl_ms c,
     content_bf_fallback_ms c, query_bf_bits c, query_bf_hashes c, query_bf_aggregation_ms c, query_bf_ttl_ms c,
     query_bf_max_keys c, broadcast_attempt_limit c, broadcast_window_ms c, topology_reload_ms c,
     forward_workers c, forward_queue_max c]"

lemma config_of_typed: "list_all in_int32 (int_fields (config_of getenv env_file src))"
  unfolding int_fields_def config_of_def Let_def
  by (simp add: get_setting_int_range in_int32_def [of "_ :: int", THEN iffD2])

lemma parse_neighbors_typed: "n \<in> set (parse_neighbors raw) \<Longrightarrow> nc_host n \<noteq> [] \<and> 0 < nc_port n \<and> in_int32 (nc_port n)"
  by (auto simp: parse_neighbors_def List.map_filter_def parse_neighbor_def Let_def split: if_splits)

lemma loaded_config_of: "\<exists>t src. ld_config (load_config_impl getenv read_file want_error) = config_of getenv t src"
  by (auto simp: load_config_impl_def Let_def split_beta split: sum.splits)

lemma loaded_ints: "list_all in_int32 (int_fields (ld_config (load_config_impl getenv read_file want_error)))"
  using loaded_config_of [of getenv read_file want_error] config_of_typed by metis

text \<open>C40. Whatever the environment and the files hold, every number of the loaded configuration is a value of
  type \<^verbatim>\<open>int\<close> and every neighbour has a host and a positive port (but perhaps one above 65535, which only
  validation refuses).\<close>

theorem loaded_config_typed:
  "list_all in_int32 (int_fields (ld_config (load_config_impl getenv read_file want_error))) \<and>
   list_all (\<lambda>n. nc_host n \<noteq> [] \<and> 0 < nc_port n \<and> in_int32 (nc_port n))
     (neighbors (ld_config (load_config_impl getenv read_file want_error)))"
proof -
  obtain t src where "ld_config (load_config_impl getenv read_file want_error) = config_of getenv t src"
    using loaded_config_of by blast
  moreover have "neighbors (config_of getenv t src) = parse_neighbors (trim (get_setting getenv t ''NETOS_NEIGHBORS'' []))"
    by (simp add: config_of_def Let_def)
  ultimately show ?thesis
    using config_of_typed parse_neighbors_typed by (auto simp: list_all_iff)
qed

end
