(* ===== verification/Net_Address.thy ===== *)
theory Net_Address
  imports C_Strings
begin

text \<open>
  \<^verbatim>\<open>network/address.cpp\<close>: socket addresses, their text form (the key of the neighbour-summary table and
  the label in the logs), the comparison used to skip the sender of a broadcast, and name
  resolution, where \<^verbatim>\<open>getaddrinfo\<close> is a parameter. The fields hold the numbers in host order; the
  text form is shown to identify the address and the port.
\<close>

record sockaddr_in =
  sin_family :: u16
  sin_addr :: u32
  sin_port :: u16

text \<open>\<^verbatim>\<open>sockaddr_in{}\<close>: all zero, the mark of an address that is not resolved yet.\<close>

definition zero_addr :: sockaddr_in where
  "zero_addr = \<lparr>sin_family = 0, sin_addr = 0, sin_port = 0\<rparr>"

definition octet :: "nat \<Rightarrow> u32 \<Rightarrow> nat" where
  "octet k a = unat (drop_bit (8 * k) a AND 255)"

text \<open>\<^verbatim>\<open>inet_ntop\<close> of an IPv4 address into a buffer of sufficient size cannot fail.\<close>

definition inet_ntop :: "u32 \<Rightarrow> string" where
  "inet_ntop a = show_nat (octet 3 a) @ ''.'' @ show_nat (octet 2 a) @ ''.''
     @ show_nat (octet 1 a) @ ''.'' @ show_nat (octet 0 a)"

definition addr_to_string :: "sockaddr_in \<Rightarrow> string" where
  "addr_to_string a = inet_ntop (sin_addr a) @ '':'' @ show_nat (unat (sin_port a))"

definition same_address :: "sockaddr_in \<Rightarrow> sockaddr_in \<Rightarrow> bool" where
  "same_address a b \<longleftrightarrow> sin_addr a = sin_addr b \<and> sin_port a = sin_port b"

text \<open>The resolver answers with an address or an error text.\<close>

type_synonym resolver = "string \<Rightarrow> string \<Rightarrow> string + sockaddr_in"

definition resolve_address :: "resolver \<Rightarrow> string \<Rightarrow> int \<Rightarrow> string + sockaddr_in" where
  "resolve_address getaddrinfo host port =
     (case getaddrinfo (c_str host) (show_int port) of
        Inl e \<Rightarrow> Inl (''getaddrinfo failed: '' @ e)
      | Inr a \<Rightarrow> Inr a)"

subsection \<open>The text form identifies the address\<close>

lemma bit_octet: "bit a n \<longleftrightarrow> bit (drop_bit (8 * (n div 8)) a AND 255) (n mod 8)" for a :: u32
proof -
  have m: "(255 :: u32) = mask 8"
    by (simp add: mask_eq_exp_minus_1)
  have "n mod 8 < 32"
    by (rule less_trans [of _ 8]) simp_all
  then show ?thesis
    unfolding m by (simp add: bit_simps)
qed

lemma octets_inj:
  fixes a b :: u32
  assumes "octet 0 a = octet 0 b" "octet 1 a = octet 1 b" "octet 2 a = octet 2 b" "octet 3 a = octet 3 b"
  shows "a = b"
proof (rule bit_word_eqI)
  fix n assume "n < LENGTH(32)"
  then have "n div 8 < 4" by simp
  then have "n div 8 \<in> {0, 1, 2, 3}" by auto
  then have "octet (n div 8) a = octet (n div 8) b"
    using assms by auto
  then have "drop_bit (8 * (n div 8)) a AND 255 = drop_bit (8 * (n div 8)) b AND 255"
    by (simp add: octet_def word_unat_eq_iff)
  then show "bit a n \<longleftrightarrow> bit b n"
    using bit_octet by metis
qed

lemma show_nat_plain:
  "CHR ''.'' \<notin> set (show_nat n)" "CHR '':'' \<notin> set (show_nat n)"
  by (auto dest!: show_nat_set simp: is_digit_def)

lemma inet_ntop_inj: "inet_ntop a = inet_ntop b \<longleftrightarrow> a = b"
  by (auto simp: inet_ntop_def sep_prefix_inj show_nat_plain show_nat_inj intro: octets_inj)

lemma inet_ntop_no_colon: "CHR '':'' \<notin> set (inet_ntop a)"
  by (simp add: inet_ntop_def show_nat_plain)

lemma addr_to_string_inj: "addr_to_string a = addr_to_string b \<longleftrightarrow> same_address a b"
  by (simp add: addr_to_string_def same_address_def sep_prefix_inj inet_ntop_no_colon
      inet_ntop_inj show_nat_inj word_unat_eq_iff)

subsection \<open>Properties\<close>

text \<open>Two socket addresses have the same text form exactly when the code's own comparison calls them
  the same address, so a table keyed by the text form has one entry per address and port.\<close>

theorem addr_text_identifies: "addr_to_string a = addr_to_string b \<longleftrightarrow> same_address a b"
  by (rule addr_to_string_inj)

end
