(* ===== verification/Wire_Message.thy ===== *)
theory Wire_Message
  imports String_Utils
begin

text \<open>
  \<^verbatim>\<open>core/message.h\<close> and \<^verbatim>\<open>core/message.cpp\<close>: the message record, its text form \<open>to_wire\<close> and the parser
  \<open>from_wire\<close>. The lemmas give the exact domain of the parser, the round trip (with what it does
  to a value that contains the separator), and what a parsed message can look like.
\<close>

subsection \<open>Data\<close>

datatype message_type = Request | Data | ContentBloom | QueryBloom | Unknown

record message =
  m_type :: message_type
  m_request_id :: string
  m_origin :: string
  m_ttl :: int
  m_key :: string
  m_value :: string

definition empty_message :: message where
  "empty_message = \<lparr>m_type = Unknown, m_request_id = [], m_origin = [], m_ttl = 0,
                    m_key = [], m_value = []\<rparr>"

subsection \<open>Operations\<close>

definition parse_type :: "string \<Rightarrow> message_type" where
  "parse_type token =
     (if token = ''REQ'' then Request
      else if token = ''DATA'' then Data
      else if token = ''CBF'' then ContentBloom
      else if token = ''QBF'' then QueryBloom
      else Unknown)"

definition parse_int :: "string \<Rightarrow> int \<Rightarrow> int" where
  "parse_int token fallback =
     (if token = [] then fallback
      else let s = c_str token; (val, stop) = strtol s in
        if stop = s \<or> stop \<noteq> [] then fallback else int32_of val)"

fun message_type_label :: "message_type \<Rightarrow> string" where
  "message_type_label Request = ''REQ''"
| "message_type_label Data = ''DATA''"
| "message_type_label ContentBloom = ''CBF''"
| "message_type_label QueryBloom = ''QBF''"
| "message_type_label Unknown = ''UNKNOWN''"

definition to_wire :: "message \<Rightarrow> string" where
  "to_wire m = message_type_label (m_type m) @ ''|'' @ m_request_id m @ ''|'' @ m_origin m @ ''|''
     @ show_int (m_ttl m) @ ''|'' @ m_key m @ ''|'' @ m_value m"

definition from_wire :: "string \<Rightarrow> message option" where
  "from_wire wire = (let parts = split wire (CHR ''|'') False in
     if length parts < 5 then None
     else Some \<lparr>m_type = parse_type (parts ! 0), m_request_id = parts ! 1, m_origin = parts ! 2,
                m_ttl = parse_int (parts ! 3) 0, m_key = parts ! 4,
                m_value = (if length parts \<ge> 6 then parts ! 5 else [])\<rparr>)"

subsection \<open>The fields of a message\<close>

definition bar_free :: "string \<Rightarrow> bool" where
  "bar_free s \<longleftrightarrow> CHR ''|'' \<notin> set s"

text \<open>A message whose header fields survive the text form; the value may be anything.\<close>

definition header_ok :: "message \<Rightarrow> bool" where
  "header_ok m \<longleftrightarrow> bar_free (m_request_id m) \<and> bar_free (m_origin m) \<and> bar_free (m_key m)
     \<and> in_int32 (m_ttl m)"

definition wire_ok :: "message \<Rightarrow> bool" where
  "wire_ok m \<longleftrightarrow> header_ok m \<and> bar_free (m_value m)"

lemma parse_type_label [simp]: "parse_type (message_type_label t) = t"
  by (cases t) (simp_all add: parse_type_def)

lemma label_no_bar [simp]: "CHR ''|'' \<notin> set (message_type_label t)"
  by (cases t) simp_all

lemma parse_int_show_int: "in_int32 i \<Longrightarrow> parse_int (show_int i) d = i"
  using strtol_show_int [of i] show_int_ne [of i]
  by (simp add: parse_int_def in_int32_def int32_of_def del: show_int_ne)

lemma parse_int_in_int32: "in_int32 d \<Longrightarrow> in_int32 (parse_int s d)"
  by (auto simp: parse_int_def Let_def split: prod.splits)

lemma pieces_to_wire:
  assumes "header_ok m"
  shows "pieces (CHR ''|'') (to_wire m) =
     [message_type_label (m_type m), m_request_id m, m_origin m, show_int (m_ttl m), m_key m]
     @ pieces (CHR ''|'') (m_value m)"
  using assms by (simp add: to_wire_def header_ok_def bar_free_def pieces_append)

lemma from_wire_to_wire:
  assumes "header_ok m"
  shows "from_wire (to_wire m) = Some (m\<lparr>m_value := takeWhile (\<lambda>c. c \<noteq> CHR ''|'') (m_value m)\<rparr>)"
proof -
  have "pieces (CHR ''|'') (m_value m) ! 0 = takeWhile (\<lambda>c. c \<noteq> CHR ''|'') (m_value m)"
    using pieces_hd [of "CHR ''|''" "m_value m"] by (simp add: hd_conv_nth)
  moreover have "Suc 0 \<le> length (pieces (CHR ''|'') (m_value m))"
    by (simp add: length_pieces)
  moreover have "parse_int (show_int (m_ttl m)) 0 = m_ttl m"
    using assms by (simp add: header_ok_def parse_int_show_int)
  ultimately show ?thesis
    by (simp add: from_wire_def Let_def split_keep pieces_to_wire [OF assms] nth_append)
qed

lemma from_wire_to_wire_exact: "wire_ok m \<Longrightarrow> from_wire (to_wire m) = Some m"
proof -
  assume ok: "wire_ok m"
  then have "takeWhile (\<lambda>c. c \<noteq> CHR ''|'') (m_value m) = m_value m"
    by (auto simp: wire_ok_def bar_free_def takeWhile_eq_all_conv)
  with ok show ?thesis
    by (simp add: from_wire_to_wire wire_ok_def)
qed

interpretation wire: codec to_wire from_wire wire_ok
  by unfold_locales (rule from_wire_to_wire_exact)

lemma from_wire_None: "from_wire w = None \<longleftrightarrow> count_list w (CHR ''|'') < 4"
  by (simp add: from_wire_def Let_def split_keep length_pieces)

lemma from_wire_fields:
  assumes "from_wire w = Some m"
  shows "bar_free (m_request_id m)" "bar_free (m_origin m)" "bar_free (m_key m)"
    "bar_free (m_value m)" "in_int32 (m_ttl m)"
proof -
  let ?p = "pieces (CHR ''|'') w"
  have len: "4 < length ?p"
    using assms by (auto simp: from_wire_def Let_def split_keep split: if_splits)
  have free: "bar_free (?p ! i)" if "i < length ?p" for i
    using that pieces_no_delim nth_mem unfolding bar_free_def by blast
  have m: "m = \<lparr>m_type = parse_type (?p ! 0), m_request_id = ?p ! 1, m_origin = ?p ! 2,
      m_ttl = parse_int (?p ! 3) 0, m_key = ?p ! 4, m_value = (if length ?p \<ge> 6 then ?p ! 5 else [])\<rparr>"
    using assms len by (simp add: from_wire_def Let_def split_keep)
  show "bar_free (m_request_id m)" "bar_free (m_origin m)" "bar_free (m_key m)"
    using len free by (simp_all add: m)
  show "bar_free (m_value m)"
    using free by (auto simp: m bar_free_def)
  show "in_int32 (m_ttl m)"
    using parse_int_in_int32 [of 0 "?p ! 3"] by (simp add: m in_int32_def [of 0])
qed

lemma from_wire_wire_ok: "from_wire w = Some m \<Longrightarrow> wire_ok m"
  by (simp add: wire_ok_def header_ok_def from_wire_fields)

subsection \<open>Properties\<close>

text \<open>C17. Serialising any message whose id, origin and key are free of the separator and whose TTL is
  a 32-bit value, and parsing the result, gives the message back, except that the value is cut at
  its first separator.\<close>

theorem wire_round_trip:
  assumes "bar_free (m_request_id m)" "bar_free (m_origin m)" "bar_free (m_key m)"
    and "in_int32 (m_ttl m)"
  shows "from_wire (to_wire m) = Some (m\<lparr>m_value := takeWhile (\<lambda>c. c \<noteq> CHR ''|'') (m_value m)\<rparr>)"
  using assms by (intro from_wire_to_wire) (simp add: header_ok_def)

definition wire_example :: message where
  "wire_example = \<lparr>m_type = Data, m_request_id = ''rid'', m_origin = ''node1'', m_ttl = - 3,
                   m_key = ''alpha'', m_value = ''x|y''\<rparr>"

theorem wire_round_trip_witness:
  "from_wire (to_wire wire_example) = Some (wire_example\<lparr>m_value := ''x''\<rparr>)"
  using wire_round_trip [of wire_example]
  by (simp add: wire_example_def bar_free_def in_int32_def)

end
