(* ===== verification/Udp_Network.thy ===== *)
theory Udp_Network
  imports Config Net_Address Wire_Message
begin

text \<open>
  \<^verbatim>\<open>network/topology.cpp\<close>, \<^verbatim>\<open>network/udp_transport.cpp\<close> and \<^verbatim>\<open>network/udp_network.cpp\<close>: the neighbour
  list, the UDP socket and the sending of messages. The operating system is a parameter, a record of
  functions on an unknown world. The system state extends the log by the transport, the
  topology, the world and the trace of datagrams that were handed to the socket successfully.
  A neighbour's name is resolved when something is first sent to it.
\<close>

subsection \<open>The operating system\<close>

record 'w os =
  os_sendto :: "sockaddr_in \<Rightarrow> string \<Rightarrow> 'w \<Rightarrow> string option \<times> 'w"
  os_getaddrinfo :: "string \<Rightarrow> string \<Rightarrow> 'w \<Rightarrow> (string + sockaddr_in) \<times> 'w"
  os_socket :: "'w \<Rightarrow> string option \<times> 'w"
  os_bind :: "sockaddr_in \<Rightarrow> 'w \<Rightarrow> string option \<times> 'w"
  os_inet_pton :: "string \<Rightarrow> u32 option"

text \<open>The error texts are those of \<^verbatim>\<open>strerror\<close> and \<^verbatim>\<open>gai_strerror\<close>; \<^const>\<open>None\<close> is success.\<close>

subsection \<open>State\<close>

record neighbor_address =
  na_host :: string
  na_port :: int
  na_addr :: sockaddr_in

record transport =
  tp_bind_ip :: string
  tp_bind_port :: int
  tp_open :: bool  \<comment> \<open>\<^verbatim>\<open>fd_ >= 0\<close>\<close>
  tp_running :: bool

type_synonym topology = "neighbor_address list"

type_synonym datagram = "sockaddr_in \<times> string"

record 'w net_sys = log_sys +
  net_transport :: transport
  net_topology :: topology
  net_sent :: "datagram list"
  net_world :: 'w

definition transport_new :: "string \<Rightarrow> int \<Rightarrow> transport" where
  "transport_new ip port = \<lparr>tp_bind_ip = ip, tp_bind_port = port, tp_open = False, tp_running = False\<rparr>"

definition af_inet :: u16 where
  "af_inet = 2"

subsection \<open>Topology\<close>

definition build_topology :: "config \<Rightarrow> topology" where
  "build_topology c =
     map (\<lambda>n. \<lparr>na_host = nc_host n, na_port = nc_port n, na_addr = zero_addr\<rparr>) (neighbors c)"

definition set_topology :: "topology \<Rightarrow> ('w, 'z) net_sys_scheme \<Rightarrow> ('w, 'z) net_sys_scheme" where
  "set_topology t s = s\<lparr>net_topology := t\<rparr>"

subsection \<open>Transport\<close>

definition transport_start :: "('w, 'y) os_scheme \<Rightarrow> ('w, 'z) net_sys_scheme \<Rightarrow> string option \<times> ('w, 'z) net_sys_scheme" where
  "transport_start os s =
     (let tp = net_transport s
      in case os_socket os (net_world s) of
           (Some e, w) \<Rightarrow> (Some (''socket() failed: '' @ e), s\<lparr>net_transport := tp\<lparr>tp_open := False\<rparr>, net_world := w\<rparr>)
         | (None, w) \<Rightarrow>
             let s1 = s\<lparr>net_transport := tp\<lparr>tp_open := True\<rparr>, net_world := w\<rparr>
             in case (if tp_bind_ip tp = ''0.0.0.0'' then Some 0 else os_inet_pton os (c_str (tp_bind_ip tp))) of
                  None \<Rightarrow> (Some ''invalid bind ip'', s1)
                | Some ip \<Rightarrow>
                    (case os_bind os \<lparr>sin_family = af_inet, sin_addr = ip, sin_port = word_of_int (tp_bind_port tp)\<rparr> w of
                       (Some e, w') \<Rightarrow> (Some (''bind() failed: '' @ e), s1\<lparr>net_world := w'\<rparr>)
                     | (None, w') \<Rightarrow>
                         (None, s1\<lparr>net_world := w', net_transport := tp\<lparr>tp_open := True, tp_running := True\<rparr>\<rparr>)))"

definition transport_stop :: "('w, 'z) net_sys_scheme \<Rightarrow> ('w, 'z) net_sys_scheme" where
  "transport_stop s =
     (let tp = net_transport s
      in if \<not> tp_running tp then s
         else s\<lparr>net_transport := tp\<lparr>tp_running := False, tp_open := False\<rparr>\<rparr>)"

definition send_to :: "('w, 'y) os_scheme \<Rightarrow> sockaddr_in \<Rightarrow> string \<Rightarrow> ('w, 'z) net_sys_scheme
    \<Rightarrow> string option \<times> ('w, 'z) net_sys_scheme" where
  "send_to os addr payload s =
     (if \<not> tp_open (net_transport s) then (Some ''socket not started'', s)
      else case os_sendto os addr payload (net_world s) of
             (Some e, w) \<Rightarrow> (Some (''sendto failed: '' @ e), s\<lparr>net_world := w\<rparr>)
           | (None, w) \<Rightarrow> (None, s\<lparr>net_world := w, net_sent := net_sent s @ [(addr, payload)]\<rparr>))"

text \<open>One round of the receive loop: the result of \<^verbatim>\<open>recvfrom\<close> (\<^const>\<open>None\<close> for an error) into a
  buffer of 2048 bytes of which the last is kept for a NUL. An empty datagram is as an error.\<close>

definition recv_limit :: nat where
  "recv_limit = 2047"

definition receive_round :: "(string \<Rightarrow> sockaddr_in \<Rightarrow> 's \<Rightarrow> 's) \<Rightarrow> (string \<times> sockaddr_in) option \<Rightarrow> 's \<Rightarrow> 's" where
  "receive_round handler received s =
     (case received of
        None \<Rightarrow> s
      | Some (datagram, from) \<Rightarrow>
          if take recv_limit datagram = [] then s else handler (take recv_limit datagram) from s)"

text \<open>The receive loop: it goes on as long as the transport runs.\<close>

fun transport_run :: "(string \<Rightarrow> sockaddr_in \<Rightarrow> ('w, 'z) net_sys_scheme \<Rightarrow> ('w, 'z) net_sys_scheme) \<Rightarrow>
    (string \<times> sockaddr_in) option list \<Rightarrow> ('w, 'z) net_sys_scheme \<Rightarrow> ('w, 'z) net_sys_scheme" where
  "transport_run handler [] s = s"
| "transport_run handler (r # rs) s =
     (if \<not> tp_running (net_transport s) then s else transport_run handler rs (receive_round handler r s))"

subsection \<open>Network\<close>

definition network_start :: "('w, 'y) os_scheme \<Rightarrow> ('w, 'z) net_sys_scheme \<Rightarrow> string option \<times> ('w, 'z) net_sys_scheme" where
  "network_start os s = transport_start os s"

definition network_stop :: "('w, 'z) net_sys_scheme \<Rightarrow> ('w, 'z) net_sys_scheme" where
  "network_stop s = transport_stop s"

definition send_direct :: "('w, 'y) os_scheme \<Rightarrow> sockaddr_in \<Rightarrow> message \<Rightarrow> ('w, 'z) net_sys_scheme
    \<Rightarrow> string option \<times> ('w, 'z) net_sys_scheme" where
  "send_direct os addr msg s = send_to os addr (to_wire msg) s"

definition resolve_in :: "('w, 'y) os_scheme \<Rightarrow> string \<Rightarrow> int \<Rightarrow> 'w \<Rightarrow> (string + sockaddr_in) \<times> 'w" where
  "resolve_in os host port w =
     (resolve_address (\<lambda>h p. fst (os_getaddrinfo os h p w)) host port,
      snd (os_getaddrinfo os (c_str host) (show_int port) w))"

definition send_failed_line :: "neighbor_address \<Rightarrow> string \<Rightarrow> string" where
  "send_failed_line n e = ''send failed to '' @ na_host n @ '':'' @ show_int (na_port n) @ '' - '' @ e"

definition send_to_neighbor :: "('w, 'y) os_scheme \<Rightarrow> message \<Rightarrow> neighbor_address \<Rightarrow> ('w, 'z) net_sys_scheme
    \<Rightarrow> neighbor_address \<times> ('w, 'z) net_sys_scheme" where
  "send_to_neighbor os msg n s =
     (case (if sin_family (na_addr n) = 0
            then case resolve_in os (na_host n) (na_port n) (net_world s) of
                   (Inl e, w) \<Rightarrow> (Inl e, s\<lparr>net_world := w\<rparr>)
                 | (Inr a, w) \<Rightarrow> (Inr (n\<lparr>na_addr := a\<rparr>), s\<lparr>net_world := w\<rparr>)
            else (Inr n, s)) of
        (Inl e, s1) \<Rightarrow> (n, log_warn (send_failed_line n e) s1)
      | (Inr n1, s1) \<Rightarrow>
          (case send_to os (na_addr n1) (to_wire msg) s1 of
             (Some e, s2) \<Rightarrow> (n1, log_warn (send_failed_line n1 e) s2)
           | (None, s2) \<Rightarrow> (n1, s2)))"

fun broadcast_loop :: "('w, 'y) os_scheme \<Rightarrow> message \<Rightarrow> sockaddr_in option \<Rightarrow> neighbor_address list \<Rightarrow> ('w, 'z) net_sys_scheme
    \<Rightarrow> neighbor_address list \<times> ('w, 'z) net_sys_scheme" where
  "broadcast_loop os msg exclude [] s = ([], s)"
| "broadcast_loop os msg exclude (n # ns) s =
     (if (case exclude of None \<Rightarrow> False | Some x \<Rightarrow> same_address (na_addr n) x)
      then (case broadcast_loop os msg exclude ns s of (ns', s') \<Rightarrow> (n # ns', s'))
      else case send_to_neighbor os msg n s of
             (n', s1) \<Rightarrow> (case broadcast_loop os msg exclude ns s1 of (ns', s2) \<Rightarrow> (n' # ns', s2)))"

definition send_broadcast :: "('w, 'y) os_scheme \<Rightarrow> message \<Rightarrow> sockaddr_in option \<Rightarrow> ('w, 'z) net_sys_scheme
    \<Rightarrow> ('w, 'z) net_sys_scheme" where
  "send_broadcast os msg exclude s =
     (case broadcast_loop os msg exclude (net_topology s) s of (ns, s') \<Rightarrow> s'\<lparr>net_topology := ns\<rparr>)"

subsection \<open>What sending changes\<close>

named_theorems net_frame

lemma send_to_frame [net_frame]:
  "net_topology (snd (send_to os a p s)) = net_topology s"
  "net_transport (snd (send_to os a p s)) = net_transport s"
  "lg_level (snd (send_to os a p s)) = lg_level s" "lg_lines (snd (send_to os a p s)) = lg_lines s"
  "net_sys.more (snd (send_to os a p s)) = net_sys.more s"
  by (auto simp: send_to_def split: prod.splits option.splits)

lemma send_to_sent:
  "net_sent (snd (send_to os a p s)) = net_sent s @ (if fst (send_to os a p s) = None then [(a, p)] else [])"
  by (auto simp: send_to_def split: prod.splits option.splits)

lemma log_line_net [net_frame, simp]:
  "net_topology (log_line l m s) = net_topology s" "net_transport (log_line l m s) = net_transport s"
  "net_sent (log_line l m s) = net_sent s" "net_world (log_line l m s) = net_world s"
  "net_sys.more (log_line l m s) = net_sys.more s"
  by (simp_all add: log_line_def)

lemma send_to_neighbor_frame [net_frame]:
  "net_topology (snd (send_to_neighbor os msg n s)) = net_topology s"
  "net_transport (snd (send_to_neighbor os msg n s)) = net_transport s"
  "lg_level (snd (send_to_neighbor os msg n s)) = lg_level s"
  "net_sys.more (snd (send_to_neighbor os msg n s)) = net_sys.more s"
  by (auto simp: send_to_neighbor_def split_beta net_frame split: option.splits sum.splits)

lemma broadcast_loop_frame:
  "net_transport (snd (broadcast_loop os msg ex ns s)) = net_transport s \<and>
   lg_level (snd (broadcast_loop os msg ex ns s)) = lg_level s \<and>
   net_sys.more (snd (broadcast_loop os msg ex ns s)) = net_sys.more s"
  by (induction ns arbitrary: s) (simp_all add: split_beta net_frame)

lemma send_broadcast_frame [net_frame]:
  "net_transport (send_broadcast os msg ex s) = net_transport s"
  "lg_level (send_broadcast os msg ex s) = lg_level s"
  "net_sys.more (send_broadcast os msg ex s) = net_sys.more s"
  using broadcast_loop_frame [of os msg ex "net_topology s" s]
  by (simp_all add: send_broadcast_def split_beta)

text \<open>A broadcast keeps the hosts and ports of the neighbours, and the addresses already known.\<close>

definition same_neighbor :: "neighbor_address \<Rightarrow> neighbor_address \<Rightarrow> bool" where
  "same_neighbor n n' \<longleftrightarrow> na_host n' = na_host n \<and> na_port n' = na_port n
     \<and> (sin_family (na_addr n) \<noteq> 0 \<longrightarrow> na_addr n' = na_addr n)"

lemma send_to_neighbor_same: "same_neighbor n (fst (send_to_neighbor os msg n s))"
  by (auto simp: send_to_neighbor_def split_beta same_neighbor_def split: option.splits sum.splits)

lemma broadcast_loop_same: "list_all2 same_neighbor ns (fst (broadcast_loop os msg ex ns s))"
proof (induction ns arbitrary: s)
  case (Cons n ns)
  have "same_neighbor n n"
    by (simp add: same_neighbor_def)
  with Cons.IH send_to_neighbor_same [of n os msg s] show ?case
    by (simp add: split_beta)
qed simp

text \<open>Everything a broadcast sends goes to a neighbour's address, with the message's wire form.\<close>

lemma send_to_neighbor_sent:
  "\<exists>ds. net_sent (snd (send_to_neighbor os msg n s)) = net_sent s @ ds \<and> length ds \<le> 1 \<and>
     (\<forall>d \<in> set ds. d = (na_addr (fst (send_to_neighbor os msg n s)), to_wire msg))"
  by (auto simp: send_to_neighbor_def split_beta send_to_sent split: option.splits sum.splits)

lemma broadcast_loop_sent:
  "\<exists>ds. net_sent (snd (broadcast_loop os msg ex ns s)) = net_sent s @ ds \<and> length ds \<le> length ns \<and>
     (\<forall>d \<in> set ds. snd d = to_wire msg \<and> fst d \<in> na_addr ` set (fst (broadcast_loop os msg ex ns s)))"
proof (induction ns arbitrary: s)
  case (Cons n ns)
  show ?case
  proof (cases "case ex of None \<Rightarrow> False | Some x \<Rightarrow> same_address (na_addr n) x")
    case True
    with Cons.IH [of s] show ?thesis by (fastforce simp: split_beta)
  next
    case False
    let ?s1 = "snd (send_to_neighbor os msg n s)"
    obtain d1 where d1: "net_sent ?s1 = net_sent s @ d1" "length d1 \<le> 1"
        "\<forall>d \<in> set d1. d = (na_addr (fst (send_to_neighbor os msg n s)), to_wire msg)"
      using send_to_neighbor_sent by blast
    obtain d2 where d2: "net_sent (snd (broadcast_loop os msg ex ns ?s1)) = net_sent ?s1 @ d2" "length d2 \<le> length ns"
        "\<forall>d \<in> set d2. snd d = to_wire msg \<and> fst d \<in> na_addr ` set (fst (broadcast_loop os msg ex ns ?s1))"
      using Cons.IH by blast
    show ?thesis
      using False d1 d2 by (intro exI [of _ "d1 @ d2"]) (auto simp: split_beta)
  qed
qed simp

lemma send_broadcast_sent:
  "\<exists>ds. net_sent (send_broadcast os msg ex s) = net_sent s @ ds \<and> length ds \<le> length (net_topology s) \<and>
     (\<forall>d \<in> set ds. snd d = to_wire msg \<and> fst d \<in> na_addr ` set (net_topology (send_broadcast os msg ex s)))"
  using broadcast_loop_sent [of os msg ex "net_topology s" s] by (simp add: send_broadcast_def split_beta)

subsection \<open>Exactly the neighbours except the sender\<close>

definition resolved :: "neighbor_address \<Rightarrow> bool" where
  "resolved n \<longleftrightarrow> sin_family (na_addr n) \<noteq> 0"

definition excluded :: "sockaddr_in option \<Rightarrow> neighbor_address \<Rightarrow> bool" where
  "excluded ex n \<longleftrightarrow> (case ex of None \<Rightarrow> False | Some x \<Rightarrow> same_address (na_addr n) x)"

definition sends_ok :: "('w, 'y) os_scheme \<Rightarrow> bool" where
  "sends_ok os \<longleftrightarrow> (\<forall>a p w. fst (os_sendto os a p w) = None)"

lemma send_to_ok:
  "sends_ok os \<Longrightarrow> tp_open (net_transport s) \<Longrightarrow> fst (send_to os a p s) = None"
proof -
  assume "sends_ok os" "tp_open (net_transport s)"
  moreover obtain r w where "os_sendto os a p (net_world s) = (r, w)" by fastforce
  ultimately show ?thesis
    unfolding sends_ok_def by (metis (no_types, lifting) fst_conv option.case(1) prod.case send_to_def)
qed

lemma broadcast_loop_exact:
  assumes "sends_ok os" "tp_open (net_transport s)" "list_all resolved ns"
  shows "fst (broadcast_loop os msg ex ns s) = ns \<and>
    net_sent (snd (broadcast_loop os msg ex ns s)) =
      net_sent s @ map (\<lambda>n. (na_addr n, to_wire msg)) (filter (\<lambda>n. \<not> excluded ex n) ns)"
  using assms(2,3)
proof (induction ns arbitrary: s)
  case (Cons n ns)
  have one: "fst (send_to_neighbor os msg n s) = n"
      "net_sent (snd (send_to_neighbor os msg n s)) = net_sent s @ [(na_addr n, to_wire msg)]"
    using Cons.prems send_to_ok [OF assms(1), of s "na_addr n" "to_wire msg"]
    by (simp_all add: send_to_neighbor_def resolved_def split_beta send_to_sent)
  have "tp_open (net_transport (snd (send_to_neighbor os msg n s)))"
    using Cons.prems(1) by (simp add: net_frame)
  with Cons.IH [of "snd (send_to_neighbor os msg n s)"] Cons.IH [of s] Cons.prems one show ?case
    by (simp add: split_beta excluded_def)
qed simp

subsection \<open>Properties\<close>

text \<open>A broadcast reaches exactly the neighbours except the one excluded. Once all neighbours are
  resolved and the socket takes the datagrams, a broadcast sends the message's wire form once to
  every neighbour, in the order of the list, except to the address it is to exclude, and changes
  neither the list nor the transport.\<close>

theorem broadcast_exact:
  assumes "sends_ok os" "tp_open (net_transport s)" "list_all resolved (net_topology s)"
  shows "net_sent (send_broadcast os msg ex s) = net_sent s @
      map (\<lambda>n. (na_addr n, to_wire msg)) (filter (\<lambda>n. \<not> excluded ex n) (net_topology s))
    \<and> net_topology (send_broadcast os msg ex s) = net_topology s
    \<and> net_transport (send_broadcast os msg ex s) = net_transport s"
  using broadcast_loop_exact [OF assms] by (simp add: send_broadcast_def split_beta broadcast_loop_frame)

text \<open>A concrete operating system for examples: every datagram is taken, every name resolves to one
  address.\<close>

definition demo_addr :: "u32 \<Rightarrow> sockaddr_in" where
  "demo_addr a = \<lparr>sin_family = af_inet, sin_addr = a, sin_port = 9000\<rparr>"

definition demo_os :: "sockaddr_in \<Rightarrow> unit os" where
  "demo_os a = \<lparr>os_sendto = \<lambda>_ _ w. (None, w), os_getaddrinfo = \<lambda>_ _ w. (Inr a, w),
     os_socket = \<lambda>w. (None, w), os_bind = \<lambda>_ w. (None, w), os_inet_pton = \<lambda>_. None\<rparr>"

definition demo_net :: "topology \<Rightarrow> unit net_sys" where
  "demo_net t = \<lparr>lg_level = Info, lg_lines = [], net_transport = \<lparr>tp_bind_ip = ''0.0.0.0'', tp_bind_port = 9000,
     tp_open = True, tp_running = True\<rparr>, net_topology = t, net_sent = [], net_world = ()\<rparr>"

lemma demo_sends_ok: "sends_ok (demo_os a)"
  by (simp add: sends_ok_def demo_os_def)

theorem broadcast_exact_witness:
  "net_sent (send_broadcast (demo_os zero_addr) empty_message (Some (demo_addr 7))
     (demo_net [\<lparr>na_host = ''a'', na_port = 9000, na_addr = demo_addr 7\<rparr>,
                \<lparr>na_host = ''b'', na_port = 9000, na_addr = demo_addr 8\<rparr>])) =
   [(demo_addr 8, to_wire empty_message)]"
  using broadcast_exact [OF demo_sends_ok [of zero_addr], of "demo_net [\<lparr>na_host = ''a'', na_port = 9000, na_addr = demo_addr 7\<rparr>,
                \<lparr>na_host = ''b'', na_port = 9000, na_addr = demo_addr 8\<rparr>]" empty_message "Some (demo_addr 7)"]
  by (simp add: demo_net_def resolved_def demo_addr_def af_inet_def excluded_def same_address_def)

text \<open>The sender is not excluded before its address is known. A neighbour that has not been sent to yet
  is stored with the empty address, which the test for exclusion compares; the first broadcast after a
  start or a reload therefore resolves it and sends it back the very message that came from it.\<close>

theorem broadcast_first_echo:
  assumes "sends_ok os" "tp_open (net_transport s)" "net_topology s = [n]" "\<not> resolved n"
    and "\<not> same_address (na_addr n) x"
    and "fst (resolve_in os (na_host n) (na_port n) (net_world s)) = Inr x"
  shows "net_sent (send_broadcast os msg (Some x) s) = net_sent s @ [(x, to_wire msg)]"
proof -
  obtain w where r: "resolve_in os (na_host n) (na_port n) (net_world s) = (Inr x, w)"
    using assms(6) by (cases "resolve_in os (na_host n) (na_port n) (net_world s)") auto
  have "fst (send_to os x (to_wire msg) (s\<lparr>net_world := w\<rparr>)) = None"
    using assms(1,2) by (intro send_to_ok) simp_all
  then have "net_sent (snd (send_to_neighbor os msg n s)) = net_sent s @ [(x, to_wire msg)]"
    using assms(4) r by (simp add: send_to_neighbor_def resolved_def split_beta send_to_sent)
  then show ?thesis
    using assms(3,5) by (simp add: send_broadcast_def split_beta)
qed

theorem broadcast_first_echo_witness:
  "net_sent (send_broadcast (demo_os (demo_addr 7)) empty_message (Some (demo_addr 7))
     (demo_net (build_topology (config_of (\<lambda>k. if k = ''NETOS_NEIGHBORS'' then Some ''a:9000'' else None) [] ''env'')))) =
   [(demo_addr 7, to_wire empty_message)]"
proof -
  have t: "build_topology (config_of (\<lambda>k. if k = ''NETOS_NEIGHBORS'' then Some ''a:9000'' else None) [] ''env'')
      = [\<lparr>na_host = ''a'', na_port = 9000, na_addr = zero_addr\<rparr>]"
  proof -
    have "parse_neighbors (trim ''a:9000'') = [\<lparr>nc_host = ''a'', nc_port = 9000\<rparr>]"
      by code_simp
    then show ?thesis
      by (simp add: build_topology_def config_of_def Let_def get_setting_def)
  qed
  show ?thesis
    unfolding t
    using broadcast_first_echo [OF demo_sends_ok [of "demo_addr 7"],
        of "demo_net [\<lparr>na_host = ''a'', na_port = 9000, na_addr = zero_addr\<rparr>]"
        "\<lparr>na_host = ''a'', na_port = 9000, na_addr = zero_addr\<rparr>" "demo_addr 7" empty_message]
    by (simp add: demo_net_def demo_os_def resolved_def demo_addr_def af_inet_def same_address_def zero_addr_def
        resolve_in_def resolve_address_def)
qed

subsection \<open>The life of the transport\<close>

text \<open>A datagram that arrives after the stop is not handled.\<close>

lemma transport_run_stopped: "\<not> tp_running (net_transport s) \<Longrightarrow> transport_run handler rs s = s"
  by (cases rs) simp_all

lemma transport_run_append:
  "transport_run handler (rs @ rs') s = transport_run handler rs' (transport_run handler rs s)"
  by (induction rs arbitrary: s) (simp_all add: transport_run_stopped)

text \<open>From start to stop. A transport that was started runs and is open; once stopped it is neither, it handles no
  datagram any more, and every attempt to send fails with a text that says so. But after a start that failed
  once the socket was there, stopping does nothing: the socket stays open, and sending still uses it.\<close>

theorem transport_life:
  assumes "\<not> tp_running (net_transport s)" "network_start os s = (err, t)"
  shows "case err of
      None \<Rightarrow> tp_running (net_transport t) \<and> tp_open (net_transport t) \<and>
        (let u = network_stop t in \<not> tp_running (net_transport u) \<and> \<not> tp_open (net_transport u)
          \<and> transport_run handler rs u = u \<and> fst (send_to os a p u) = Some ''socket not started'')
    | Some e \<Rightarrow> network_stop t = t \<and> transport_run handler rs t = t
        \<and> (tp_open (net_transport t) \<longleftrightarrow> fst (os_socket os (net_world s)) = None)"
  using assms
  by (auto simp: network_start_def network_stop_def transport_start_def transport_stop_def transport_run_stopped send_to_def
      Let_def split: prod.splits option.splits if_splits)

theorem transport_life_witness:
  "let s = \<lparr>lg_level = Info, lg_lines = [], net_transport = transport_new ''nowhere'' 9000, net_topology = [], net_sent = [], net_world = ()\<rparr>;
       t = snd (network_start (demo_os zero_addr) s)
   in network_stop t = t \<and> tp_open (net_transport t)"
proof -
  let ?s = "\<lparr>lg_level = Info, lg_lines = [], net_transport = transport_new ''nowhere'' 9000, net_topology = [], net_sent = [], net_world = ()\<rparr>"
  have "\<not> tp_running (net_transport ?s)" "network_start (demo_os zero_addr) ?s = (Some ''invalid bind ip'', snd (network_start (demo_os zero_addr) ?s))"
    by (simp_all add: transport_new_def network_start_def transport_start_def demo_os_def)
  from transport_life [OF this] show ?thesis
    by (simp add: Let_def demo_os_def)
qed

end
