(* ===== verification/Request_Pipeline.thy ===== *)
theory Request_Pipeline
  imports Query_Table Redis_Client Udp_Network
begin

text \<open>
  \<^verbatim>\<open>node/request_pipeline.cpp\<close>: what a node does with a request: field checks, TTL check, duplicate
  check, cache lookup, and forwarding with a smaller TTL. The result is a decision; the table of
  seen requests and the world (the clock and the connection to Redis) are threaded through.
\<close>

subsection \<open>The rest of the operating system\<close>

text \<open>The two clocks (\<^verbatim>\<open>steady_clock\<close> in nanoseconds, the wall clock in milliseconds since the epoch) and the
  socket of the Redis client.\<close>

record 'w node_os = "'w os" +
  os_steady :: "'w \<Rightarrow> time_ns \<times> 'w"
  os_wall_ms :: "'w \<Rightarrow> int \<times> 'w"
  os_redis_send :: "'w sender"
  os_redis_recv :: "'w receiver"

text \<open>The calls to Redis return on every finite stream, so \<^const>\<open>the\<close> is applied to a result.\<close>

definition cache_get :: "('w, 'y) node_os_scheme \<Rightarrow> redis_client \<Rightarrow> string \<Rightarrow> 'w \<Rightarrow> (string option \<times> string option) \<times> 'w" where
  "cache_get os rc key w = the (redis_get (os_redis_send os) (os_redis_recv os) rc key w)"

definition cache_set :: "('w, 'y) node_os_scheme \<Rightarrow> redis_client \<Rightarrow> string \<Rightarrow> string \<Rightarrow> 'w \<Rightarrow> string option \<times> 'w" where
  "cache_set os rc key val w = the (redis_set (os_redis_send os) (os_redis_recv os) rc key val w)"

subsection \<open>Decisions\<close>

datatype request_state = DropInvalid | DropTtl | DropDuplicate | ServeLocal | Forward

record request_decision =
  rd_state :: request_state
  rd_forward_ttl :: int
  rd_value :: "string option"
  rd_reason :: string

definition request_decision_new :: request_decision where
  "request_decision_new = \<lparr>rd_state = DropTtl, rd_forward_ttl = 0, rd_value = None, rd_reason = []\<rparr>"

fun request_state_label :: "request_state \<Rightarrow> string" where
  "request_state_label DropInvalid = ''drop_invalid''"
| "request_state_label DropTtl = ''drop_ttl''"
| "request_state_label DropDuplicate = ''drop_duplicate''"
| "request_state_label ServeLocal = ''serve_local''"
| "request_state_label Forward = ''forward''"

definition validate_request_fields :: "message \<Rightarrow> string" where
  "validate_request_fields m =
     (if m_request_id m = [] then ''missing_request_id''
      else if m_origin m = [] then ''missing_origin''
      else if m_key m = [] then ''missing_key'' else [])"

definition make_drop_decision :: "request_state \<Rightarrow> string \<Rightarrow> request_decision" where
  "make_drop_decision st reason = request_decision_new\<lparr>rd_state := st, rd_reason := reason\<rparr>"

definition make_serve_decision :: "string \<Rightarrow> request_decision" where
  "make_serve_decision val = request_decision_new\<lparr>rd_state := ServeLocal, rd_value := Some val\<rparr>"

definition make_forward_decision :: "int \<Rightarrow> request_decision" where
  "make_forward_decision ttl = request_decision_new\<lparr>rd_state := Forward, rd_forward_ttl := ttl\<rparr>"

subsection \<open>The stages\<close>

text \<open>A stage returns a decision when it ends the pipeline.\<close>

definition validate_fields :: "message \<Rightarrow> request_decision option" where
  "validate_fields m =
     (if validate_request_fields m = [] then None
      else Some (make_drop_decision DropInvalid (validate_request_fields m)))"

definition validate_ttl :: "message \<Rightarrow> request_decision option" where
  "validate_ttl m = (if m_ttl m > 0 then None else Some (make_drop_decision DropTtl ''ttl_expired''))"

text \<open>\<^verbatim>\<open>record_if_new\<close> reads the clock twice, to prune and to stamp.\<close>

definition dedupe_request :: "('w, 'y) node_os_scheme \<Rightarrow> message \<Rightarrow> query_table \<Rightarrow> 'w
    \<Rightarrow> request_decision option \<times> query_table \<times> 'w" where
  "dedupe_request os m qt w =
     (let (now, w1) = os_steady os w; (stamp, w2) = os_steady os w1;
          (fresh, qt') = record_if_new now stamp (m_request_id m) qt
      in (if fresh then None else Some (make_drop_decision DropDuplicate ''duplicate_request_id''), qt', w2))"

definition check_cache :: "('w, 'y) node_os_scheme \<Rightarrow> redis_client \<Rightarrow> message \<Rightarrow> 'w
    \<Rightarrow> request_decision option \<times> string option \<times> 'w" where
  "check_cache os rc m w =
     (let ((val, err), w') = cache_get os rc (m_key m) w
      in (map_option make_serve_decision val, err, w'))"

text \<open>The pipeline: the decision, the error text of the cache lookup (which the code logs as a
  warning) if there was one, the table and the world.\<close>

definition request_run :: "('w, 'y) node_os_scheme \<Rightarrow> redis_client \<Rightarrow> message \<Rightarrow> query_table \<Rightarrow> 'w
    \<Rightarrow> request_decision \<times> string option \<times> query_table \<times> 'w" where
  "request_run os rc m qt w =
     (case validate_fields m of
        Some d \<Rightarrow> (d, None, qt, w)
      | None \<Rightarrow>
          case validate_ttl m of
            Some d \<Rightarrow> (d, None, qt, w)
          | None \<Rightarrow>
              case dedupe_request os m qt w of
                (Some d, qt1, w1) \<Rightarrow> (d, None, qt1, w1)
              | (None, qt1, w1) \<Rightarrow>
                  case check_cache os rc m w1 of
                    (Some d, err, w2) \<Rightarrow> (d, err, qt1, w2)
                  | (None, err, w2) \<Rightarrow> (make_forward_decision (m_ttl m - 1), err, qt1, w2))"

subsection \<open>Outcomes\<close>

text \<open>A request is well formed when its fields are there and its TTL is positive.\<close>

definition request_ok :: "message \<Rightarrow> bool" where
  "request_ok m \<longleftrightarrow> m_request_id m \<noteq> [] \<and> m_origin m \<noteq> [] \<and> m_key m \<noteq> [] \<and> 0 < m_ttl m"

lemmas request_defs = request_run_def validate_fields_def validate_ttl_def dedupe_request_def check_cache_def
  validate_request_fields_def make_drop_decision_def make_serve_decision_def make_forward_decision_def
  request_decision_new_def

lemma request_run_rejected:
  "\<not> request_ok m \<Longrightarrow> request_run os rc m qt w =
     (make_drop_decision (if validate_request_fields m = [] then DropTtl else DropInvalid)
        (if validate_request_fields m = [] then ''ttl_expired'' else validate_request_fields m), None, qt, w)"
  by (auto simp: request_ok_def request_defs)

lemma request_run_duplicate:
  assumes "request_ok m" "\<not> fst (record_if_new (fst (os_steady os w)) (fst (os_steady os (snd (os_steady os w)))) (m_request_id m) qt)"
  shows "rd_state (fst (request_run os rc m qt w)) = DropDuplicate \<and>
    snd (snd (snd (request_run os rc m qt w))) = snd (os_steady os (snd (os_steady os w)))"
  using assms by (auto simp: request_ok_def request_defs split_beta Let_def)

lemma request_run_fresh:
  assumes "request_ok m"
    and w: "os_steady os w = (now, w1)" "os_steady os w1 = (stamp, w2)"
    and rec: "record_if_new now stamp (m_request_id m) qt = (True, qt')"
    and get: "cache_get os rc (m_key m) w2 = ((val, err), w3)"
  shows "request_run os rc m qt w =
    ((case val of Some v \<Rightarrow> make_serve_decision v | None \<Rightarrow> make_forward_decision (m_ttl m - 1)), err, qt', w3)"
proof -
  have "validate_fields m = None" "validate_ttl m = None"
    using assms(1) by (auto simp: request_ok_def validate_fields_def validate_request_fields_def validate_ttl_def)
  moreover have "dedupe_request os m qt w = (None, qt', w2)"
    by (simp add: dedupe_request_def w rec)
  moreover have "check_cache os rc m w2 = (map_option make_serve_decision val, err, w3)"
    by (simp add: check_cache_def get)
  ultimately show ?thesis
    by (cases val) (simp_all add: request_run_def)
qed

end
