(* ===== verification/Data_Pipeline.thy ===== *)
theory Data_Pipeline
  imports Config Wire_Message
begin

text \<open>
  \<^verbatim>\<open>node/data_pipeline.cpp\<close>: what a node does with data. It is stored exactly when its fields are there, its
  TTL is positive and this node is the origin of the request; it is never passed on.
\<close>

datatype data_state = DataDropInvalid | DropNotOrigin | StoreLocal

record data_decision =
  dd_state :: data_state
  dd_reason :: string

fun data_state_label :: "data_state \<Rightarrow> string" where
  "data_state_label DataDropInvalid = ''drop_invalid''"
| "data_state_label DropNotOrigin = ''drop_not_origin''"
| "data_state_label StoreLocal = ''store_local''"

definition validate_data_fields :: "message \<Rightarrow> string" where
  "validate_data_fields m =
     (if m_request_id m = [] then ''missing_request_id''
      else if m_origin m = [] then ''missing_origin''
      else if m_key m = [] then ''missing_key''
      else if m_ttl m \<le> 0 then ''non_positive_ttl'' else [])"

definition make_data_drop :: "data_state \<Rightarrow> string \<Rightarrow> data_decision" where
  "make_data_drop st reason = \<lparr>dd_state = st, dd_reason = reason\<rparr>"

definition validate_data :: "message \<Rightarrow> data_decision option" where
  "validate_data m =
     (if validate_data_fields m = [] then None
      else Some (make_data_drop DataDropInvalid (validate_data_fields m)))"

definition check_origin :: "config \<Rightarrow> message \<Rightarrow> data_decision option" where
  "check_origin c m = (if m_origin m = node_id c then None else Some (make_data_drop DropNotOrigin []))"

definition data_run :: "config \<Rightarrow> message \<Rightarrow> data_decision" where
  "data_run c m =
     (case validate_data m of
        Some d \<Rightarrow> d
      | None \<Rightarrow> (case check_origin c m of Some d \<Rightarrow> d | None \<Rightarrow> \<lparr>dd_state = StoreLocal, dd_reason = []\<rparr>))"

definition data_ok :: "message \<Rightarrow> bool" where
  "data_ok m \<longleftrightarrow> m_request_id m \<noteq> [] \<and> m_origin m \<noteq> [] \<and> m_key m \<noteq> [] \<and> 0 < m_ttl m"

lemma data_run_state:
  "dd_state (data_run c m) =
     (if \<not> data_ok m then DataDropInvalid else if m_origin m = node_id c then StoreLocal else DropNotOrigin)"
  by (auto simp: data_run_def validate_data_def validate_data_fields_def check_origin_def make_data_drop_def data_ok_def)

end
