(* ===== verification/Forward_Queue.thy ===== *)
theory Forward_Queue
  imports Udp_Network "HOL-Library.Multiset"
begin

text \<open>
  \<^verbatim>\<open>node/forward_queue.cpp\<close>: the bounded queue between the handlers and the network, and its workers.
  The callbacks of a message are values of two type parameters; what they do to the system is an
  argument of the operations (\<open>ok\<close> and \<open>err\<close>). A sender either runs the message at once (when the
  queue is off or not started) or queues it; a full queue refuses the newest message and runs its
  failure callback. The concurrent part, the bookkeeping of accepted, running and finished items
  under any interleaving of senders and workers, is a step relation with an invariant.
\<close>

subsection \<open>State\<close>

datatype item_kind = Direct | Broadcast

record ('c, 'f) fq_item =
  fi_kind :: item_kind
  fi_msg :: message
  fi_addr :: sockaddr_in
  fi_exclude :: "sockaddr_in option"
  fi_success :: "'c option"
  fi_failure :: "'f option"

record fq_config =
  fc_enabled :: bool
  fc_workers :: int
  fc_max_depth :: nat
  fc_policy :: string

text \<open>\<open>sys_running\<close> is the flag of the node that \<^verbatim>\<open>start\<close> gets a pointer to; \<open>fq_attached\<close> is whether it
  has it.\<close>

record ('w, 'c, 'f) queue_sys = "'w net_sys" +
  fq_conf :: fq_config
  fq_attached :: bool
  fq_started :: bool
  fq_items :: "('c, 'f) fq_item list"
  sys_running :: bool

subsection \<open>The queue\<close>

definition queue_push :: "nat \<Rightarrow> 'i \<Rightarrow> 'i list \<Rightarrow> bool \<times> 'i list" where
  "queue_push max_depth i q = (if length q \<ge> max_depth then (False, q) else (True, q @ [i]))"

definition queue_pop :: "'i list \<Rightarrow> ('i \<times> 'i list) option" where
  "queue_pop q = (case q of [] \<Rightarrow> None | i # r \<Rightarrow> Some (i, r))"

definition log_state :: "string \<Rightarrow> nat \<Rightarrow> 'z log_sys_scheme \<Rightarrow> 'z log_sys_scheme" where
  "log_state st depth = log_info (''forward_state='' @ st @ '' queue_depth='' @ show_nat depth)"

definition should_run :: "('w, 'c, 'f, 'z) queue_sys_scheme \<Rightarrow> bool" where
  "should_run s = (if \<not> fq_attached s then True else sys_running s)"

text \<open>The number of workers started.\<close>

definition fq_start :: "('w, 'c, 'f, 'z) queue_sys_scheme \<Rightarrow> int \<times> ('w, 'c, 'f, 'z) queue_sys_scheme" where
  "fq_start s =
     (let s1 = s\<lparr>fq_attached := True, fq_started := True\<rparr>
      in if \<not> fc_enabled (fq_conf s1) then (0, s1)
         else (let workers = fc_workers (fq_conf s1) in if workers \<le> 0 then 1 else workers, s1))"

type_synonym ('c, 'w, 'c2, 'f, 'z) on_ok = "'c \<Rightarrow> ('w, 'c2, 'f, 'z) queue_sys_scheme \<Rightarrow> ('w, 'c2, 'f, 'z) queue_sys_scheme"
type_synonym ('f, 'w, 'c, 'f2, 'z) on_err = "'f \<Rightarrow> string \<Rightarrow> ('w, 'c, 'f2, 'z) queue_sys_scheme \<Rightarrow> ('w, 'c, 'f2, 'z) queue_sys_scheme"

definition run_success :: "('c, 'w, 'c, 'f, 'z) on_ok \<Rightarrow> ('c, 'f) fq_item \<Rightarrow> ('w, 'c, 'f, 'z) queue_sys_scheme
    \<Rightarrow> ('w, 'c, 'f, 'z) queue_sys_scheme" where
  "run_success ok item s = (case fi_success item of None \<Rightarrow> s | Some c \<Rightarrow> ok c s)"

definition run_failure :: "('f, 'w, 'c, 'f, 'z) on_err \<Rightarrow> ('c, 'f) fq_item \<Rightarrow> string \<Rightarrow> ('w, 'c, 'f, 'z) queue_sys_scheme
    \<Rightarrow> ('w, 'c, 'f, 'z) queue_sys_scheme" where
  "run_failure err item e s = (case fi_failure item of None \<Rightarrow> s | Some f \<Rightarrow> err f e s)"

definition enqueue :: "('f, 'w, 'c, 'f, 'z) on_err \<Rightarrow> ('c, 'f) fq_item \<Rightarrow> ('w, 'c, 'f, 'z) queue_sys_scheme
    \<Rightarrow> bool \<times> ('w, 'c, 'f, 'z) queue_sys_scheme" where
  "enqueue err item s =
     (case queue_push (fc_max_depth (fq_conf s)) item (fq_items s) of
        (False, q) \<Rightarrow>
          (False, run_failure err item ''forward_queue_full'' (log_state ''drop_queue'' (length q) s))
      | (True, q) \<Rightarrow> (True, log_state ''queued'' (length q) (s\<lparr>fq_items := q\<rparr>)))"

subsection \<open>Sending\<close>

definition run_direct :: "('w, 'y) os_scheme \<Rightarrow> ('c, 'w, 'c, 'f, 'z) on_ok \<Rightarrow> ('f, 'w, 'c, 'f, 'z) on_err \<Rightarrow> ('c, 'f) fq_item
    \<Rightarrow> ('w, 'c, 'f, 'z) queue_sys_scheme \<Rightarrow> bool \<times> ('w, 'c, 'f, 'z) queue_sys_scheme" where
  "run_direct os ok err item s =
     (case Udp_Network.send_direct os (fi_addr item) (fi_msg item) s of
        (Some e, s1) \<Rightarrow> (False, run_failure err item e s1)
      | (None, s1) \<Rightarrow> (True, run_success ok item s1))"

definition fq_send_direct :: "('w, 'y) os_scheme \<Rightarrow> ('c, 'w, 'c, 'f, 'z) on_ok \<Rightarrow> ('f, 'w, 'c, 'f, 'z) on_err \<Rightarrow> sockaddr_in
    \<Rightarrow> message \<Rightarrow> 'c option \<Rightarrow> 'f option \<Rightarrow> ('w, 'c, 'f, 'z) queue_sys_scheme \<Rightarrow> bool \<times> ('w, 'c, 'f, 'z) queue_sys_scheme" where
  "fq_send_direct os ok err addr msg on_success on_failure s =
     (let item = \<lparr>fi_kind = Direct, fi_msg = msg, fi_addr = addr, fi_exclude = None,
                  fi_success = on_success, fi_failure = on_failure\<rparr>
      in if \<not> fc_enabled (fq_conf s) \<or> \<not> fq_started s
         then (case run_direct os ok err item s of (b, s1) \<Rightarrow> (b, log_state ''sent'' 0 s1))
         else enqueue err item s)"

definition fq_send_broadcast :: "('w, 'y) os_scheme \<Rightarrow> ('f, 'w, 'c, 'f, 'z) on_err \<Rightarrow> message \<Rightarrow> sockaddr_in option
    \<Rightarrow> ('w, 'c, 'f, 'z) queue_sys_scheme \<Rightarrow> bool \<times> ('w, 'c, 'f, 'z) queue_sys_scheme" where
  "fq_send_broadcast os err msg exclude s =
     (let item = \<lparr>fi_kind = Broadcast, fi_msg = msg, fi_addr = zero_addr, fi_exclude = exclude,
                  fi_success = None, fi_failure = None\<rparr>
      in if \<not> fc_enabled (fq_conf s) \<or> \<not> fq_started s
         then (True, log_state ''sent'' 0 (Udp_Network.send_broadcast os msg exclude s))
         else enqueue err item s)"

subsection \<open>Workers\<close>

definition process_item :: "('w, 'y) os_scheme \<Rightarrow> ('c, 'w, 'c, 'f, 'z) on_ok \<Rightarrow> ('f, 'w, 'c, 'f, 'z) on_err \<Rightarrow> ('c, 'f) fq_item
    \<Rightarrow> ('w, 'c, 'f, 'z) queue_sys_scheme \<Rightarrow> ('w, 'c, 'f, 'z) queue_sys_scheme" where
  "process_item os ok err item s =
     (case fi_kind item of
        Direct \<Rightarrow> snd (run_direct os ok err item s)
      | Broadcast \<Rightarrow> Udp_Network.send_broadcast os (fi_msg item) (fi_exclude item) s)"

text \<open>One turn of \<^verbatim>\<open>worker_loop\<close>: it ends when there is nothing to do and the node stops, waits when
  there is nothing to do, and else takes the first item and runs it.\<close>

datatype turn = Exit | Wait | Ran

definition worker_turn :: "('w, 'y) os_scheme \<Rightarrow> ('c, 'w, 'c, 'f, 'z) on_ok \<Rightarrow> ('f, 'w, 'c, 'f, 'z) on_err
    \<Rightarrow> ('w, 'c, 'f, 'z) queue_sys_scheme \<Rightarrow> turn \<times> ('w, 'c, 'f, 'z) queue_sys_scheme" where
  "worker_turn os ok err s =
     (case queue_pop (fq_items s) of
        None \<Rightarrow> (if \<not> should_run s then Exit else Wait, s)
      | Some (item, rest) \<Rightarrow>
          (Ran, log_state ''sent'' (length rest) (process_item os ok err item (s\<lparr>fq_items := rest\<rparr>))))"

fun worker_turns :: "nat \<Rightarrow> ('w, 'y) os_scheme \<Rightarrow> ('c, 'w, 'c, 'f, 'z) on_ok \<Rightarrow> ('f, 'w, 'c, 'f, 'z) on_err
    \<Rightarrow> ('w, 'c, 'f, 'z) queue_sys_scheme \<Rightarrow> ('w, 'c, 'f, 'z) queue_sys_scheme" where
  "worker_turns 0 os ok err s = s"
| "worker_turns (Suc n) os ok err s = worker_turns n os ok err (snd (worker_turn os ok err s))"

subsection \<open>Any interleaving of senders and workers\<close>

text \<open>The items accepted and refused so far, those that workers run at the moment, and those that
  are finished. A worker holds at most one item.\<close>

record 'i q_run =
  qr_items :: "'i list"
  qr_busy :: "'i list"
  qr_done :: "'i list"
  qr_accepted :: "'i list"
  qr_refused :: "'i list"

definition q_run_new :: "'i q_run" where
  "q_run_new = \<lparr>qr_items = [], qr_busy = [], qr_done = [], qr_accepted = [], qr_refused = []\<rparr>"

inductive q_step :: "nat \<Rightarrow> nat \<Rightarrow> 'i q_run \<Rightarrow> 'i q_run \<Rightarrow> bool" for max_depth workers where
  push: "queue_push max_depth i (qr_items s) = (True, q) \<Longrightarrow>
     q_step max_depth workers s (s\<lparr>qr_items := q, qr_accepted := qr_accepted s @ [i]\<rparr>)"
| refuse: "queue_push max_depth i (qr_items s) = (False, q) \<Longrightarrow>
     q_step max_depth workers s (s\<lparr>qr_items := q, qr_refused := qr_refused s @ [i]\<rparr>)"
| pop: "queue_pop (qr_items s) = Some (i, rest) \<Longrightarrow> length (qr_busy s) < workers \<Longrightarrow>
     q_step max_depth workers s (s\<lparr>qr_items := rest, qr_busy := qr_busy s @ [i]\<rparr>)"
| finish: "i \<in> set (qr_busy s) \<Longrightarrow>
     q_step max_depth workers s (s\<lparr>qr_busy := remove1 i (qr_busy s), qr_done := qr_done s @ [i]\<rparr>)"

inductive_cases q_stepE: "q_step max_depth workers s t"

definition q_inv :: "nat \<Rightarrow> nat \<Rightarrow> 'i q_run \<Rightarrow> bool" where
  "q_inv max_depth workers s \<longleftrightarrow> length (qr_items s) \<le> max_depth \<and> length (qr_busy s) \<le> workers
     \<and> mset (qr_accepted s) = mset (qr_done s) + mset (qr_busy s) + mset (qr_items s)
     \<and> (workers = 1 \<longrightarrow> qr_accepted s = qr_done s @ qr_busy s @ qr_items s)"

lemma queue_push_True: "queue_push m i q = (True, q') \<longleftrightarrow> length q < m \<and> q' = q @ [i]"
  by (auto simp: queue_push_def)

lemma queue_push_False: "queue_push m i q = (False, q') \<longleftrightarrow> m \<le> length q \<and> q' = q"
  by (auto simp: queue_push_def)

lemma queue_pop_Some: "queue_pop q = Some (i, r) \<longleftrightarrow> q = i # r"
  by (auto simp: queue_pop_def split: list.splits)

lemma busy_one: "i \<in> set b \<Longrightarrow> length b \<le> Suc 0 \<Longrightarrow> b = [i]"
  by (cases b) auto

lemma q_inv_step: "q_inv m w s \<Longrightarrow> q_step m w s t \<Longrightarrow> q_inv m w t"
proof (erule q_stepE)
  fix i q assume "q_inv m w s" "t = s\<lparr>qr_items := q, qr_accepted := qr_accepted s @ [i]\<rparr>"
    "queue_push m i (qr_items s) = (True, q)"
  then show "q_inv m w t" by (simp add: q_inv_def queue_push_True)
next
  fix i q assume "q_inv m w s" "t = s\<lparr>qr_items := q, qr_refused := qr_refused s @ [i]\<rparr>"
    "queue_push m i (qr_items s) = (False, q)"
  then show "q_inv m w t" by (simp add: q_inv_def queue_push_False)
next
  fix i rest assume "q_inv m w s" "t = s\<lparr>qr_items := rest, qr_busy := qr_busy s @ [i]\<rparr>"
    "queue_pop (qr_items s) = Some (i, rest)" "length (qr_busy s) < w"
  then show "q_inv m w t" by (simp add: q_inv_def queue_pop_Some)
next
  fix i assume "q_inv m w s" "i \<in> set (qr_busy s)"
    "t = s\<lparr>qr_busy := remove1 i (qr_busy s), qr_done := qr_done s @ [i]\<rparr>"
  then show "q_inv m w t" by (auto simp: q_inv_def length_remove1 dest: busy_one)
qed

interpretation worker_pool: invariant_system "\<lambda>s. s = q_run_new" "q_step m w" "q_inv m w" for m w
proof
  show "s = q_run_new \<Longrightarrow> q_inv m w s" for s :: "'a q_run"
    by (simp add: q_inv_def q_run_new_def)
  show "q_inv m w s \<Longrightarrow> q_step m w s t \<Longrightarrow> q_inv m w t" for s t :: "'a q_run"
    by (rule q_inv_step)
qed

subsection \<open>One worker, one item after the other\<close>

text \<open>What delivering an item puts on the wire when every neighbour is resolved.\<close>

fun puts :: "topology \<Rightarrow> item_kind \<times> message \<times> sockaddr_in \<times> sockaddr_in option \<Rightarrow> datagram list" where
  "puts t (Direct, msg, addr, ex) = [(addr, to_wire msg)]"
| "puts t (Broadcast, msg, addr, ex) =
     map (\<lambda>n. (na_addr n, to_wire msg)) (filter (\<lambda>n. \<not> excluded ex n) t)"

definition delivery :: "topology \<Rightarrow> ('c, 'f) fq_item \<Rightarrow> datagram list" where
  "delivery t item = puts t (fi_kind item, fi_msg item, fi_addr item, fi_exclude item)"

text \<open>What the queue relies on: a callback leaves the network and the queue alone.\<close>

definition same_net :: "('w, 'c, 'f, 'z) queue_sys_scheme \<Rightarrow> ('w, 'c, 'f, 'z) queue_sys_scheme \<Rightarrow> bool" where
  "same_net s t \<longleftrightarrow> net_transport t = net_transport s \<and> net_topology t = net_topology s \<and> net_sent t = net_sent s
     \<and> fq_items t = fq_items s \<and> fq_conf t = fq_conf s \<and> fq_started t = fq_started s"

lemma same_net_refl [simp]: "same_net s s"
  by (simp add: same_net_def)

lemma same_net_trans: "same_net s t \<Longrightarrow> same_net t u \<Longrightarrow> same_net s u"
  by (simp add: same_net_def)

lemma log_line_queue [simp]:
  "fq_items (log_line l m s) = fq_items s" "fq_conf (log_line l m s) = fq_conf s"
  "fq_started (log_line l m s) = fq_started s" "sys_running (log_line l m s) = sys_running s"
  "fq_attached (log_line l m s) = fq_attached s"
  by (simp_all add: log_line_def)

lemma same_net_log [simp]: "same_net s (log_line l m t) \<longleftrightarrow> same_net s t"
  by (simp add: same_net_def)

subsection \<open>What a handler hands over\<close>

text \<open>The observable part of an item: its kind, message, destination, and the address a broadcast leaves out.\<close>

type_synonym out_item = "item_kind \<times> message \<times> sockaddr_in \<times> sockaddr_in option"

definition core :: "('c, 'f) fq_item \<Rightarrow> out_item" where
  "core i = (fi_kind i, fi_msg i, fi_addr i, fi_exclude i)"

text \<open>A datagram that sending an output may produce.\<close>

definition carries_output :: "out_item \<Rightarrow> datagram \<Rightarrow> bool" where
  "carries_output x d \<longleftrightarrow> (case x of (kind, msg, addr, ex) \<Rightarrow> snd d = to_wire msg \<and> (kind = Direct \<longrightarrow> fst d = addr))"

text \<open>Everything that was queued or sent between two states is an allowed output, and the queue's and the
  transport's parameters are as before.\<close>

definition outputs :: "(out_item \<Rightarrow> bool) \<Rightarrow> ('w, 'c, 'f, 'z) queue_sys_scheme \<Rightarrow> ('w, 'c, 'f, 'z) queue_sys_scheme \<Rightarrow> bool" where
  "outputs allowed s t \<longleftrightarrow>
     (\<exists>q. fq_items t = fq_items s @ q \<and> (\<forall>i \<in> set q. allowed (core i)))
     \<and> (\<exists>d. net_sent t = net_sent s @ d \<and> (\<forall>x \<in> set d. \<exists>y. allowed y \<and> carries_output y x))
     \<and> fq_conf t = fq_conf s \<and> fq_started t = fq_started s \<and> net_transport t = net_transport s"

lemma outputs_refl [simp]: "outputs allowed s s"
  by (simp add: outputs_def)

lemma outputs_trans: "outputs allowed s t \<Longrightarrow> outputs allowed t u \<Longrightarrow> outputs allowed s u"
  unfolding outputs_def by (elim conjE exE) (auto simp: ball_Un)

lemma outputs_mono: "outputs a s t \<Longrightarrow> (\<And>x. a x \<Longrightarrow> b x) \<Longrightarrow> outputs b s t"
  unfolding outputs_def by blast

lemma same_net_outputs: "same_net s t \<Longrightarrow> outputs allowed s t"
  by (simp add: same_net_def outputs_def)

text \<open>Exactly one item was handed over: it was queued (unless the queue was full), or delivered at once.\<close>

definition handed_over :: "out_item \<Rightarrow> ('w, 'c, 'f, 'z) queue_sys_scheme \<Rightarrow> ('w, 'c, 'f, 'z) queue_sys_scheme \<Rightarrow> bool" where
  "handed_over x s t \<longleftrightarrow>
     (if fc_enabled (fq_conf s) \<and> fq_started s
      then net_sent t = net_sent s \<and>
        (if length (fq_items s) < fc_max_depth (fq_conf s)
         then \<exists>i. core i = x \<and> fq_items t = fq_items s @ [i] else fq_items t = fq_items s)
      else fq_items t = fq_items s \<and> net_sent t = net_sent s @ puts (net_topology s) x)"

text \<open>The network is up: the socket takes datagrams and all neighbours are resolved.\<close>

definition net_ready :: "('w, 'y) os_scheme \<Rightarrow> ('w, 'z) net_sys_scheme \<Rightarrow> bool" where
  "net_ready os s \<longleftrightarrow> sends_ok os \<and> tp_open (net_transport s) \<and> list_all resolved (net_topology s)"

lemma handed_over_before:
  "handed_over x s' t \<Longrightarrow> same_net s s' \<Longrightarrow> handed_over x s t"
  by (auto simp: handed_over_def same_net_def split: if_splits)

lemma handed_over_after:
  "handed_over x s t \<Longrightarrow> same_net t t' \<Longrightarrow> handed_over x s t'"
  by (auto simp: handed_over_def same_net_def split: if_splits)

lemma outputs_log [simp]: "outputs allowed s (log_line l m t) \<longleftrightarrow> outputs allowed s t"
  by (simp add: outputs_def)

lemma handed_over_log [simp]: "handed_over x s (log_line l m t) \<longleftrightarrow> handed_over x s t"
  by (simp add: handed_over_def)

lemma net_ready_log [simp]: "net_ready os (log_line l m s) \<longleftrightarrow> net_ready os s"
  by (simp add: net_ready_def)

lemma net_ready_same: "net_ready os s \<Longrightarrow> same_net s t \<Longrightarrow> net_ready os t"
  by (simp add: net_ready_def same_net_def)

lemma send_to_queue:
  fixes s :: "('w, 'c, 'f, 'z) queue_sys_scheme"
  shows "fq_items (snd (send_to os a p s)) = fq_items s" "fq_conf (snd (send_to os a p s)) = fq_conf s"
    "fq_started (snd (send_to os a p s)) = fq_started s"
  using send_to_frame(5) [of os a p s] by (cases s; cases "snd (send_to os a p s)"; simp)+

lemma send_broadcast_queue:
  fixes s :: "('w, 'c, 'f, 'z) queue_sys_scheme"
  shows "fq_items (send_broadcast os m ex s) = fq_items s" "fq_conf (send_broadcast os m ex s) = fq_conf s"
    "fq_started (send_broadcast os m ex s) = fq_started s"
  using send_broadcast_frame(3) [of os m ex s] by (cases s; cases "send_broadcast os m ex s"; simp)+

locale queue_client =
  fixes ok :: "('c, 'w, 'c, 'f, 'z) on_ok"
    and err :: "('f, 'w, 'c, 'f, 'z) on_err"
  assumes ok_net: "same_net s (ok c s)"
    and err_net: "same_net s (err f e s)"
begin

lemma run_success_net: "same_net s (run_success ok item s)"
  by (auto simp: run_success_def ok_net split: option.splits)

lemma run_failure_net: "same_net s (run_failure err item e s)"
  by (auto simp: run_failure_def err_net split: option.splits)

lemma process_item_delivers:
  assumes "sends_ok os" "tp_open (net_transport s)" "list_all resolved (net_topology s)"
  shows "net_sent (process_item os ok err item s) = net_sent s @ delivery (net_topology s) item
    \<and> net_topology (process_item os ok err item s) = net_topology s
    \<and> net_transport (process_item os ok err item s) = net_transport s
    \<and> fq_items (process_item os ok err item s) = fq_items s"
proof (cases "fi_kind item")
  case Direct
  obtain s1 where s1: "send_to os (fi_addr item) (to_wire (fi_msg item)) s = (None, s1)"
    using send_to_ok [OF assms(1,2), of "fi_addr item" "to_wire (fi_msg item)"]
    by (cases "send_to os (fi_addr item) (to_wire (fi_msg item)) s") auto
  then have f: "net_sent s1 = net_sent s @ [(fi_addr item, to_wire (fi_msg item))]"
      "net_topology s1 = net_topology s" "net_transport s1 = net_transport s" "net_sys.more s1 = net_sys.more s"
    using send_to_sent [of os "fi_addr item" "to_wire (fi_msg item)" s]
      send_to_frame [of os "fi_addr item" "to_wire (fi_msg item)" s] by simp_all
  have "fq_items s1 = fq_items s"
    using f(4) by (cases s; cases s1) simp
  with f run_success_net [of s1 item] s1 Direct show ?thesis
    by (simp add: process_item_def run_direct_def send_direct_def delivery_def same_net_def)
next
  case Broadcast
  let ?s1 = "send_broadcast os (fi_msg item) (fi_exclude item) s"
  have "net_sys.more ?s1 = net_sys.more s"
    by (simp add: net_frame)
  then have "fq_items ?s1 = fq_items s"
    by (cases s; cases ?s1) simp
  moreover have "fst (broadcast_loop os (fi_msg item) (fi_exclude item) (net_topology s) s) = net_topology s
     \<and> net_sent (snd (broadcast_loop os (fi_msg item) (fi_exclude item) (net_topology s) s)) =
       net_sent s @ delivery (net_topology s) item"
    using broadcast_loop_exact [OF assms, of "fi_msg item" "fi_exclude item"] Broadcast by (simp add: delivery_def)
  ultimately show ?thesis
    using Broadcast by (simp add: process_item_def send_broadcast_def split_beta broadcast_loop_frame)
qed

lemma worker_turn_delivers:
  assumes "sends_ok os" "tp_open (net_transport s)" "list_all resolved (net_topology s)" "fq_items s = item # rest"
  shows "net_sent (snd (worker_turn os ok err s)) = net_sent s @ delivery (net_topology s) item
    \<and> net_topology (snd (worker_turn os ok err s)) = net_topology s
    \<and> net_transport (snd (worker_turn os ok err s)) = net_transport s
    \<and> fq_items (snd (worker_turn os ok err s)) = rest"
  using process_item_delivers [OF assms(1), of "s\<lparr>fq_items := rest\<rparr>" item] assms(2-4)
  by (simp add: worker_turn_def queue_pop_def log_state_def)

lemma worker_turns_deliver:
  assumes "sends_ok os" "tp_open (net_transport s)" "list_all resolved (net_topology s)"
  shows "net_sent (worker_turns (length (fq_items s)) os ok err s) =
      net_sent s @ concat (map (delivery (net_topology s)) (fq_items s))
    \<and> fq_items (worker_turns (length (fq_items s)) os ok err s) = []"
  using assms(2,3)
proof (induction "fq_items s" arbitrary: s)
  case (Cons item rest)
  let ?s1 = "snd (worker_turn os ok err s)"
  have s1: "net_sent ?s1 = net_sent s @ delivery (net_topology s) item"
      "net_topology ?s1 = net_topology s" "net_transport ?s1 = net_transport s" "fq_items ?s1 = rest"
    using worker_turn_delivers [OF assms(1) Cons.prems Cons.hyps(2) [symmetric]] by simp_all
  have "worker_turns (length (fq_items s)) os ok err s = worker_turns (length (fq_items ?s1)) os ok err ?s1"
    using Cons.hyps(2) [symmetric] s1(4) by simp
  with Cons.hyps(1) [of ?s1] Cons.prems s1 Cons.hyps(2) [symmetric] show ?case
    by simp
qed simp

lemma enqueue_outputs: "allowed (core item) \<Longrightarrow> outputs allowed s (snd (enqueue err item s))"
proof (cases "length (fq_items s) \<ge> fc_max_depth (fq_conf s)")
  case True
  have "same_net s (run_failure err item ''forward_queue_full'' (log_state ''drop_queue'' (length (fq_items s)) s))"
    by (rule same_net_trans [OF _ run_failure_net]) (simp add: log_state_def)
  then show ?thesis
    using True by (simp add: enqueue_def queue_push_def same_net_outputs)
next
  case False
  moreover assume "allowed (core item)"
  ultimately show ?thesis
    by (simp add: enqueue_def queue_push_def outputs_def log_state_def)
qed

lemma run_direct_outputs:
  "allowed (core item) \<Longrightarrow> fi_kind item = Direct \<Longrightarrow> outputs allowed s (snd (run_direct os ok err item s))"
proof -
  assume a: "allowed (core item)" "fi_kind item = Direct"
  let ?r = "send_to os (fi_addr item) (to_wire (fi_msg item)) s"
  have c: "carries_output (core item) (fi_addr item, to_wire (fi_msg item))"
    by (simp add: carries_output_def core_def)
  let ?d = "if fst ?r = None then [(fi_addr item, to_wire (fi_msg item))] else []"
  have "\<forall>x \<in> set ?d. \<exists>y. allowed y \<and> carries_output y x"
    using a(1) c by (intro ballI exI [of _ "core item"]) (auto split: if_splits)
  then have "outputs allowed s (snd ?r)"
    unfolding outputs_def
    by (intro conjI exI [of _ "[]"] exI [of _ ?d]) (simp_all add: send_to_queue send_to_sent net_frame)
  moreover have "same_net (snd ?r) (snd (run_direct os ok err item s))"
    by (cases ?r; cases "fst ?r") (auto simp: run_direct_def send_direct_def run_failure_net run_success_net)
  ultimately show ?thesis
    using outputs_trans same_net_outputs by blast
qed

lemma fq_send_direct_outputs:
  "allowed (Direct, msg, addr, None) \<Longrightarrow> outputs allowed s (snd (fq_send_direct os ok err addr msg a b s))"
proof -
  assume allowed: "allowed (Direct, msg, addr, None)"
  let ?item = "\<lparr>fi_kind = Direct, fi_msg = msg, fi_addr = addr, fi_exclude = None, fi_success = a, fi_failure = b\<rparr>"
  have core: "allowed (core ?item)"
    using allowed by (simp add: core_def)
  have "outputs allowed s (log_state ''sent'' 0 (snd (run_direct os ok err ?item s)))"
    by (rule outputs_trans [OF run_direct_outputs [where allowed = allowed and item = ?item and s = s and os = os]])
      (use core in \<open>simp_all add: log_state_def same_net_outputs\<close>)
  then show ?thesis
    using enqueue_outputs [of allowed ?item s] core by (simp add: fq_send_direct_def Let_def split_beta)
qed

lemma fq_send_broadcast_outputs:
  "allowed (Broadcast, msg, zero_addr, ex) \<Longrightarrow> outputs allowed s (snd (fq_send_broadcast os err msg ex s))"
proof -
  assume allowed: "allowed (Broadcast, msg, zero_addr, ex)"
  let ?item = "\<lparr>fi_kind = Broadcast, fi_msg = msg, fi_addr = zero_addr, fi_exclude = ex, fi_success = None, fi_failure = None\<rparr> :: ('c, 'f) fq_item"
  have core: "allowed (core ?item)"
    using allowed by (simp add: core_def)
  obtain ds where ds: "net_sent (send_broadcast os msg ex s) = net_sent s @ ds" "\<forall>d \<in> set ds. snd d = to_wire msg"
    using send_broadcast_sent [of os msg ex s] by blast
  have "carries_output (Broadcast, msg, zero_addr, ex) d" if "d \<in> set ds" for d
    using ds(2) that by (simp add: carries_output_def)
  then have "\<forall>x \<in> set ds. \<exists>y. allowed y \<and> carries_output y x"
    using allowed by blast
  then have "outputs allowed s (send_broadcast os msg ex s)"
    unfolding outputs_def
    by (intro conjI exI [of _ "[]"] exI [of _ ds]) (simp_all add: send_broadcast_queue net_frame ds(1))
  then have "outputs allowed s (log_state ''sent'' 0 (send_broadcast os msg ex s))"
    by (rule outputs_trans) (simp add: log_state_def same_net_outputs)
  then show ?thesis
    using enqueue_outputs [of allowed ?item s] core by (simp add: fq_send_broadcast_def Let_def)
qed

lemma enqueue_handed_over:
  assumes "fc_enabled (fq_conf s)" "fq_started s"
  shows "handed_over (core item) s (snd (enqueue err item s))"
proof (cases "length (fq_items s) \<ge> fc_max_depth (fq_conf s)")
  case True
  have "same_net s (run_failure err item ''forward_queue_full'' (log_state ''drop_queue'' (length (fq_items s)) s))"
    by (rule same_net_trans [OF _ run_failure_net]) (simp add: log_state_def)
  with True assms show ?thesis
    by (simp add: enqueue_def queue_push_def handed_over_def same_net_def)
qed (use assms in \<open>auto simp: enqueue_def queue_push_def handed_over_def log_state_def\<close>)

lemma fq_send_direct_handed_over:
  assumes "net_ready os s"
  shows "handed_over (Direct, msg, addr, None) s (snd (fq_send_direct os ok err addr msg a b s))"
proof -
  let ?item = "\<lparr>fi_kind = Direct, fi_msg = msg, fi_addr = addr, fi_exclude = None, fi_success = a, fi_failure = b\<rparr>"
  have "process_item os ok err ?item s = snd (run_direct os ok err ?item s)"
    by (simp add: process_item_def)
  then have "net_sent (snd (run_direct os ok err ?item s)) = net_sent s @ [(addr, to_wire msg)]
      \<and> fq_items (snd (run_direct os ok err ?item s)) = fq_items s"
    using process_item_delivers [of os s ?item] assms by (simp add: net_ready_def delivery_def)
  moreover have "core ?item = (Direct, msg, addr, None)"
    by (simp add: core_def)
  ultimately show ?thesis
    using enqueue_handed_over [of s ?item]
    by (auto simp: fq_send_direct_def Let_def split_beta handed_over_def log_state_def)
qed

lemma fq_send_broadcast_handed_over:
  assumes "net_ready os s"
  shows "handed_over (Broadcast, msg, zero_addr, ex) s (snd (fq_send_broadcast os err msg ex s))"
proof -
  let ?item = "\<lparr>fi_kind = Broadcast, fi_msg = msg, fi_addr = zero_addr, fi_exclude = ex, fi_success = None, fi_failure = None\<rparr> :: ('c, 'f) fq_item"
  have "process_item os ok err ?item s = send_broadcast os msg ex s"
    by (simp add: process_item_def)
  then have "net_sent (send_broadcast os msg ex s) =
      net_sent s @ map (\<lambda>n. (na_addr n, to_wire msg)) (filter (\<lambda>n. \<not> excluded ex n) (net_topology s))
      \<and> fq_items (send_broadcast os msg ex s) = fq_items s"
    using process_item_delivers [of os s ?item] assms by (simp add: net_ready_def delivery_def)
  moreover have "core ?item = (Broadcast, msg, zero_addr, ex)"
    by (simp add: core_def)
  ultimately show ?thesis
    using enqueue_handed_over [of s ?item]
    by (auto simp: fq_send_broadcast_def Let_def handed_over_def log_state_def)
qed

end

subsection \<open>Properties\<close>

text \<open>C22. The queue neither loses nor invents nor reorders. Under any interleaving of senders and workers the
  queue never holds more than its maximum, at most as many items run as there are workers, the accepted items
  are exactly the finished, running and queued ones, and with one worker they are finished
  in the order in which they were accepted.\<close>

theorem queue_conserves_items:
  assumes "(q_step max_depth workers)\<^sup>*\<^sup>* q_run_new s"
  shows "length (qr_items s) \<le> max_depth \<and> length (qr_busy s) \<le> workers
    \<and> mset (qr_accepted s) = mset (qr_done s) + mset (qr_busy s) + mset (qr_items s)
    \<and> (workers = 1 \<longrightarrow> qr_accepted s = qr_done s @ qr_busy s @ qr_items s)"
  using worker_pool.reachable_inv [OF refl assms] by (simp add: q_inv_def)

theorem queue_conserves_items_witness:
  "\<exists>s. (q_step 1 1)\<^sup>*\<^sup>* q_run_new s \<and> qr_refused s = [''b''] \<and> qr_accepted s = qr_done s @ qr_busy s @ qr_items s
     \<and> qr_busy s = [''a'']"
proof -
  let ?s1 = "q_run_new\<lparr>qr_items := [''a''], qr_accepted := [''a'']\<rparr>"
  let ?s2 = "?s1\<lparr>qr_refused := [''b'']\<rparr>"
  let ?s3 = "?s2\<lparr>qr_items := [], qr_busy := [''a'']\<rparr>"
  have "q_step 1 1 q_run_new ?s1"
    using q_step.push [of 1 "''a''" q_run_new "[''a'']" 1] by (simp add: queue_push_def q_run_new_def)
  moreover have "q_step 1 1 ?s1 ?s2"
    using q_step.refuse [of 1 "''b''" ?s1 "[''a'']" 1] by (simp add: queue_push_def q_run_new_def)
  moreover have "q_step 1 1 ?s2 ?s3"
    using q_step.pop [of ?s2 "''a''" "[]" 1 1] by (simp add: queue_pop_def q_run_new_def)
  ultimately have "(q_step 1 1)\<^sup>*\<^sup>* q_run_new ?s3"
    by (meson converse_rtranclp_into_rtranclp rtranclp.rtrancl_refl)
  then show ?thesis
    using queue_conserves_items [of 1 1 ?s3] by (intro exI [of _ ?s3]) (simp add: q_run_new_def)
qed

end
