(* ===== verification/Sync_Table.thy ===== *)
theory Sync_Table
  imports Netos_Prelude
begin

text \<open>
  \<^verbatim>\<open>tables/sync_table.cpp\<close>: which origins asked for which key, as a bounded LRU table. The code keeps a
  \<^verbatim>\<open>std::list\<close> of keys in recency order and, in each table entry, an iterator into that list. An
  iterator is modelled as the identity of a list node: the list holds pairs of a node
  identity and a key, \<open>st_next\<close> supplies fresh identities, and erasing through an iterator
  removes the node with that identity. The invariant ties the two structures together (every
  stored iterator is valid), and the table refines the textbook LRU: a list of keys with their
  destinations, most recent first, cut at the capacity.
\<close>

subsection \<open>State\<close>

record sync_entry =
  se_destinations :: "string list"
  se_lru_it :: nat

record sync_table =
  st_capacity :: nat
  st_lru :: "(nat \<times> string) list"
  st_next :: nat
  st_table :: "sync_entry table"
  st_destination_total :: nat
  st_updates :: u64
  st_duplicate_destinations :: u64
  st_evicted_total :: u64

record sync_update =
  su_key_added :: bool
  su_destination_added :: bool
  su_destination_duplicate :: bool
  su_key_count :: nat
  su_destination_count :: nat
  su_evicted :: nat

record sync_stats =
  ss_key_count :: nat
  ss_destination_total :: nat
  ss_updates :: u64
  ss_duplicate_destinations :: u64
  ss_evicted :: u64

definition sync_table_new :: "u64 \<Rightarrow> sync_table" where
  "sync_table_new capacity =
     \<lparr>st_capacity = unat capacity, st_lru = [], st_next = 0, st_table = [],
      st_destination_total = 0, st_updates = 0, st_duplicate_destinations = 0, st_evicted_total = 0\<rparr>"

subsection \<open>Operations\<close>

definition lru_push_front :: "string \<Rightarrow> sync_table \<Rightarrow> nat \<times> sync_table" where
  "lru_push_front key st =
     (st_next st, st\<lparr>st_lru := (st_next st, key) # st_lru st, st_next := Suc (st_next st)\<rparr>)"

definition lru_erase :: "nat \<Rightarrow> sync_table \<Rightarrow> sync_table" where
  "lru_erase it st = st\<lparr>st_lru := filter (\<lambda>n. fst n \<noteq> it) (st_lru st)\<rparr>"

definition touch :: "string \<Rightarrow> sync_table \<Rightarrow> sync_table" where
  "touch key st =
     (case map_of (st_table st) key of
        None \<Rightarrow> st
      | Some e \<Rightarrow>
          let st1 = lru_erase (se_lru_it e) st; (it, st2) = lru_push_front key st1
          in st2\<lparr>st_table := AList.update key (e\<lparr>se_lru_it := it\<rparr>) (st_table st2)\<rparr>)"

text \<open>One iteration of \<^verbatim>\<open>evict_if_needed\<close>, and the loop.\<close>

definition evict_one :: "sync_table \<Rightarrow> sync_table" where
  "evict_one st =
     (let key = snd (last (st_lru st)); st1 = st\<lparr>st_lru := butlast (st_lru st)\<rparr>
      in case map_of (st_table st1) key of
           None \<Rightarrow> st1
         | Some e \<Rightarrow>
             let removed = length (se_destinations e)
             in st1\<lparr>st_destination_total := (if st_destination_total st1 \<ge> removed
                                            then st_destination_total st1 - removed else 0),
                    st_table := AList.delete key (st_table st1)\<rparr>)"

lemma length_lru_evict_one: "st_lru st \<noteq> [] \<Longrightarrow> length (st_lru (evict_one st)) < length (st_lru st)"
  by (simp add: evict_one_def Let_def split: option.splits)

function evict_loop :: "nat \<Rightarrow> sync_table \<Rightarrow> nat \<times> sync_table" where
  "evict_loop evicted st =
     (if length (st_table st) > st_capacity st \<and> st_lru st \<noteq> []
      then evict_loop (Suc evicted) (evict_one st) else (evicted, st))"
  by pat_completeness auto
termination
  by (relation "measure (\<lambda>(n, st). length (st_lru st))") (auto simp: length_lru_evict_one)

declare evict_loop.simps [simp del]

definition evict_if_needed :: "sync_table \<Rightarrow> nat \<times> sync_table" where
  "evict_if_needed st = evict_loop 0 st"

text \<open>The first half of \<^verbatim>\<open>record_destination\<close>: the insertion or the refresh of the entry.\<close>

definition insert_key :: "string \<Rightarrow> string \<Rightarrow> sync_table \<Rightarrow> sync_table" where
  "insert_key key destination st =
     (let (it, st1) = lru_push_front key st
      in st1\<lparr>st_table := AList.update key \<lparr>se_destinations = [destination], se_lru_it = it\<rparr> (st_table st1),
             st_destination_total := Suc (st_destination_total st1)\<rparr>)"

definition refresh_key :: "string \<Rightarrow> sync_entry \<Rightarrow> string \<Rightarrow> sync_table \<Rightarrow> sync_table" where
  "refresh_key key e destination st =
     touch key
       (if destination \<in> set (se_destinations e)
        then st\<lparr>st_duplicate_destinations := st_duplicate_destinations st + 1\<rparr>
        else st\<lparr>st_table := AList.update key (e\<lparr>se_destinations := se_destinations e @ [destination]\<rparr>)
                             (st_table st),
                st_destination_total := Suc (st_destination_total st)\<rparr>)"

definition record_destination :: "string \<Rightarrow> string \<Rightarrow> sync_table \<Rightarrow> sync_update \<times> sync_table" where
  "record_destination key destination st0 =
     (let st1 = st0\<lparr>st_updates := st_updates st0 + 1\<rparr>;
          found = map_of (st_table st1) key;
          st2 = (case found of None \<Rightarrow> insert_key key destination st1
                 | Some e \<Rightarrow> refresh_key key e destination st1);
          added = (case found of None \<Rightarrow> True | Some e \<Rightarrow> destination \<notin> set (se_destinations e));
          count = (case map_of (st_table st2) key of None \<Rightarrow> 0 | Some e \<Rightarrow> length (se_destinations e));
          (evicted, st3) = evict_if_needed st2;
          st4 = (if evicted > 0 then st3\<lparr>st_evicted_total := st_evicted_total st3 + of_nat evicted\<rparr> else st3)
      in (\<lparr>su_key_added = (found = None), su_destination_added = added,
           su_destination_duplicate = (found \<noteq> None \<and> \<not> added),
           su_key_count = length (st_table st4), su_destination_count = count,
           su_evicted = evicted\<rparr>, st4))"

definition destinations :: "sync_table \<Rightarrow> string \<Rightarrow> string list" where
  "destinations st key =
     (case map_of (st_table st) key of None \<Rightarrow> [] | Some e \<Rightarrow> se_destinations e)"

definition sync_stats_of :: "sync_table \<Rightarrow> sync_stats" where
  "sync_stats_of st =
     \<lparr>ss_key_count = length (st_table st), ss_destination_total = st_destination_total st,
      ss_updates = st_updates st, ss_duplicate_destinations = st_duplicate_destinations st,
      ss_evicted = st_evicted_total st\<rparr>"

subsection \<open>Totals over a table\<close>

definition dest_total :: "sync_entry table \<Rightarrow> nat" where
  "dest_total t = sum_list (map (\<lambda>kv. length (se_destinations (snd kv))) t)"

lemma dest_total_Nil [simp]: "dest_total [] = 0"
  by (simp add: dest_total_def)

lemma dest_total_update_new:
  "map_of t k = None \<Longrightarrow> dest_total (AList.update k e t) = dest_total t + length (se_destinations e)"
  by (induction t) (auto simp: dest_total_def)

lemma dest_total_update:
  "map_of t k = Some e0 \<Longrightarrow>
   dest_total (AList.update k e t) + length (se_destinations e0) = dest_total t + length (se_destinations e)"
  by (induction t) (auto simp: dest_total_def split: if_splits)

lemma delete_absent: "map_of t k = None \<Longrightarrow> AList.delete k t = t"
  by (induction t) (auto split: if_splits)

lemma dest_total_delete:
  "wf_tbl t \<Longrightarrow> map_of t k = Some e \<Longrightarrow>
   dest_total (AList.delete k t) + length (se_destinations e) = dest_total t"
  by (induction t) (auto simp: dest_total_def delete_absent dest!: wf_tbl_ConsD)

lemma length_delete:
  "wf_tbl t \<Longrightarrow> map_of t k = Some e \<Longrightarrow> Suc (length (AList.delete k t)) = length t"
  by (induction t) (auto simp: delete_absent dest!: wf_tbl_ConsD)

subsection \<open>The invariant\<close>

text \<open>
  \<open>lru_linked\<close>: node identities are distinct and below the supply, no key occurs twice, and the
  table and the list point at each other: every key of the list has an entry whose iterator is
  its node, and every entry's key is in the list.
\<close>

definition lru_linked :: "sync_table \<Rightarrow> bool" where
  "lru_linked st \<longleftrightarrow> wf_tbl (st_table st) \<and> distinct (map fst (st_lru st)) \<and> distinct (map snd (st_lru st))
     \<and> (\<forall>(i, k) \<in> set (st_lru st). i < st_next st \<and> map_option se_lru_it (map_of (st_table st) k) = Some i)
     \<and> set (map snd (st_lru st)) = set (map fst (st_table st))"

definition entry_ok :: "sync_entry \<Rightarrow> bool" where
  "entry_ok e \<longleftrightarrow> se_destinations e \<noteq> [] \<and> distinct (se_destinations e)"

definition entries_ok :: "sync_table \<Rightarrow> bool" where
  "entries_ok st \<longleftrightarrow>
     all_vals entry_ok (st_table st)
     \<and> st_destination_total st = dest_total (st_table st)"

definition st_linked :: "sync_table \<Rightarrow> bool" where
  "st_linked st \<longleftrightarrow> lru_linked st \<and> entries_ok st"

definition st_inv :: "sync_table \<Rightarrow> bool" where
  "st_inv st \<longleftrightarrow> st_linked st \<and> length (st_table st) \<le> st_capacity st"

text \<open>The abstraction: keys in recency order, each with its destinations.\<close>

definition lru_view :: "sync_table \<Rightarrow> (string \<times> string list) list" where
  "lru_view st = map (\<lambda>n. (snd n, destinations st (snd n))) (st_lru st)"

definition lru_spec :: "nat \<Rightarrow> string \<Rightarrow> string \<Rightarrow> (string \<times> string list) list \<Rightarrow> (string \<times> string list) list" where
  "lru_spec cap key destination xs =
     (let ds = (case map_of xs key of None \<Rightarrow> [destination]
                | Some ds \<Rightarrow> if destination \<in> set ds then ds else ds @ [destination])
      in take cap ((key, ds) # filter (\<lambda>kv. fst kv \<noteq> key) xs))"

lemma st_inv_new [simp]: "st_inv (sync_table_new c)"
  by (simp add: st_inv_def st_linked_def lru_linked_def entries_ok_def sync_table_new_def)

lemma linked_lengths: "lru_linked st \<Longrightarrow> length (st_lru st) = length (st_table st)"
proof -
  assume "lru_linked st"
  then have "distinct (map snd (st_lru st))" "distinct (map fst (st_table st))"
    "set (map snd (st_lru st)) = set (map fst (st_table st))"
    by (auto simp: lru_linked_def wf_tbl_def)
  then show ?thesis
    using distinct_card [of "map snd (st_lru st)"] distinct_card [of "map fst (st_table st)"] by simp
qed

lemma linked_in_table:
  "lru_linked st \<Longrightarrow> map_of (st_table st) k = None \<longleftrightarrow> k \<notin> snd ` set (st_lru st)"
  by (simp add: lru_linked_def map_of_eq_None_iff)

lemma linked_node:
  assumes "lru_linked st" "map_of (st_table st) k = Some e"
  shows "(se_lru_it e, k) \<in> set (st_lru st)"
proof -
  from assms have "k \<in> snd ` set (st_lru st)"
    using linked_in_table [OF assms(1), of k] by simp
  then obtain i where i: "(i, k) \<in> set (st_lru st)"
    by auto
  with assms have "i = se_lru_it e"
    by (auto simp: lru_linked_def)
  with i show ?thesis by simp
qed

lemma linked_erase:
  assumes "lru_linked st" "map_of (st_table st) k = Some e" "n \<in> set (st_lru st)"
  shows "fst n \<noteq> se_lru_it e \<longleftrightarrow> snd n \<noteq> k"
proof -
  note node = linked_node [OF assms(1,2)]
  have "distinct (map fst (st_lru st))" "distinct (map snd (st_lru st))"
    using assms(1) by (simp_all add: lru_linked_def)
  then have "inj_on fst (set (st_lru st))" "inj_on snd (set (st_lru st))"
    by (simp_all add: distinct_map)
  then have "fst n = fst (se_lru_it e, k) \<longleftrightarrow> n = (se_lru_it e, k)"
    "snd n = snd (se_lru_it e, k) \<longleftrightarrow> n = (se_lru_it e, k)"
    using node assms(3) by (simp_all only: inj_on_eq_iff)
  then show ?thesis by simp
qed

lemma map_of_lru_view:
  "lru_linked st \<Longrightarrow> map_of (lru_view st) k = map_option se_destinations (map_of (st_table st) k)"
proof -
  assume linked: "lru_linked st"
  have "map_of (lru_view st) k = (if k \<in> snd ` set (st_lru st) then Some (destinations st k) else None)"
    unfolding lru_view_def by (rule map_of_keyed)
  then show ?thesis
    using linked_in_table [OF linked, of k] by (auto simp: destinations_def split: option.splits)
qed

subsection \<open>Insertion and refresh\<close>

lemma insert_key_linked:
  assumes "lru_linked st" "map_of (st_table st) key = None"
  shows "lru_linked (insert_key key d st)"
  using assms linked_in_table [OF assms(1), of key]
  by (auto simp: lru_linked_def insert_key_def lru_push_front_def tbl_simps set_update_new
      image_iff dom_update)

lemma insert_key_entries:
  assumes "entries_ok st" "map_of (st_table st) key = None"
  shows "entries_ok (insert_key key d st)"
  using assms
  by (simp add: entries_ok_def entry_ok_def insert_key_def lru_push_front_def dest_total_update_new)

lemma insert_key_view:
  assumes "lru_linked st" "map_of (st_table st) key = None"
  shows "lru_view (insert_key key d st) = (key, [d]) # filter (\<lambda>kv. fst kv \<noteq> key) (lru_view st)"
proof -
  have "snd n \<noteq> key" if "n \<in> set (st_lru st)" for n
    using that assms linked_in_table [OF assms(1), of key] by auto
  then show ?thesis
    by (auto simp: lru_view_def insert_key_def lru_push_front_def destinations_def tbl_simps
        filter_map comp_def intro!: map_cong [OF filter_True [symmetric]])
qed

lemma touch_linked:
  assumes linked: "lru_linked st" and e: "map_of (st_table st) key = Some e"
  shows "lru_linked (touch key st)"
proof -
  have erase: "filter (\<lambda>n. fst n \<noteq> se_lru_it e) (st_lru st) = filter (\<lambda>n. snd n \<noteq> key) (st_lru st)"
    using linked_erase [OF linked e] by (intro filter_cong) auto
  have "snd ` {n \<in> set (st_lru st). snd n \<noteq> key} = snd ` set (st_lru st) - {key}"
    by auto
  with linked e show ?thesis
    by (auto simp: lru_linked_def touch_def lru_erase_def lru_push_front_def Let_def erase tbl_simps
        distinct_map_filter dom_update)
qed

lemma touch_entries:
  assumes "entries_ok st" "map_of (st_table st) key = Some e"
  shows "entries_ok (touch key st)"
proof -
  have "entry_ok e"
    using assms by (auto simp: entries_ok_def intro: all_vals_map_of)
  then have "entry_ok (e\<lparr>se_lru_it := st_next st\<rparr>)"
    by (simp add: entry_ok_def)
  with assms dest_total_update [OF assms(2), of "e\<lparr>se_lru_it := st_next st\<rparr>"] show ?thesis
    by (simp add: entries_ok_def touch_def lru_erase_def lru_push_front_def Let_def)
qed

lemma touch_view:
  assumes linked: "lru_linked st" and e: "map_of (st_table st) key = Some e"
  shows "lru_view (touch key st) =
     (key, se_destinations e) # filter (\<lambda>kv. fst kv \<noteq> key) (lru_view st)"
proof -
  have "filter (\<lambda>n. fst n \<noteq> se_lru_it e) (st_lru st) = filter (\<lambda>n. snd n \<noteq> key) (st_lru st)"
    using linked_erase [OF linked e] by (intro filter_cong) auto
  with e show ?thesis
    by (auto simp: lru_view_def touch_def lru_erase_def lru_push_front_def Let_def tbl_simps
        destinations_def filter_map comp_def)
qed

lemma append_destination_linked:
  assumes "lru_linked st" "map_of (st_table st) key = Some e"
  shows "lru_linked (st\<lparr>st_table := AList.update key (e\<lparr>se_destinations := ds\<rparr>) (st_table st),
                        st_destination_total := n\<rparr>)"
proof -
  have "key \<in> set (map fst (st_table st))"
    using assms(2) by (auto dest: map_of_SomeD simp: rev_image_eqI)
  with assms show ?thesis
    by (auto simp: lru_linked_def tbl_simps dom_update)
qed

lemma refresh_key_linked:
  assumes "lru_linked st" "map_of (st_table st) key = Some e"
  shows "lru_linked (refresh_key key e d st)"
proof (cases "d \<in> set (se_destinations e)")
  case True
  have "lru_linked (st\<lparr>st_duplicate_destinations := st_duplicate_destinations st + 1\<rparr>)"
    using assms(1) by (simp add: lru_linked_def)
  with True assms(2) show ?thesis
    by (simp add: refresh_key_def touch_linked)
next
  case False
  then show ?thesis
    using assms by (auto simp: refresh_key_def tbl_simps intro!: touch_linked append_destination_linked)
qed

lemma refresh_key_entries:
  assumes "entries_ok st" "map_of (st_table st) key = Some e"
  shows "entries_ok (refresh_key key e d st)"
proof (cases "d \<in> set (se_destinations e)")
  case True
  have "entries_ok (st\<lparr>st_duplicate_destinations := st_duplicate_destinations st + 1\<rparr>)"
    using assms(1) by (simp add: entries_ok_def)
  with True assms(2) show ?thesis
    by (simp add: refresh_key_def touch_entries)
next
  case False
  let ?e = "e\<lparr>se_destinations := se_destinations e @ [d]\<rparr>"
  let ?st = "st\<lparr>st_table := AList.update key ?e (st_table st),
                st_destination_total := Suc (st_destination_total st)\<rparr>"
  have "entry_ok e"
    using assms by (auto simp: entries_ok_def intro: all_vals_map_of)
  with False have "entry_ok ?e"
    by (simp add: entry_ok_def)
  with assms dest_total_update [OF assms(2), of ?e] have "entries_ok ?st"
    by (simp add: entries_ok_def)
  moreover have "map_of (st_table ?st) key = Some ?e"
    by (simp add: tbl_simps)
  ultimately have "entries_ok (touch key ?st)"
    by (rule touch_entries)
  with False show ?thesis
    by (simp add: refresh_key_def)
qed

lemma refresh_key_view:
  assumes "lru_linked st" "map_of (st_table st) key = Some e"
  shows "lru_view (refresh_key key e d st) =
     (key, if d \<in> set (se_destinations e) then se_destinations e else se_destinations e @ [d])
       # filter (\<lambda>kv. fst kv \<noteq> key) (lru_view st)"
proof (cases "d \<in> set (se_destinations e)")
  case True
  let ?st = "st\<lparr>st_duplicate_destinations := st_duplicate_destinations st + 1\<rparr>"
  have "lru_linked ?st" "lru_view ?st = lru_view st"
    using assms(1) by (simp_all add: lru_linked_def lru_view_def destinations_def)
  with True assms(2) touch_view [of ?st key e] show ?thesis
    by (simp add: refresh_key_def)
next
  case False
  let ?e = "e\<lparr>se_destinations := se_destinations e @ [d]\<rparr>"
  let ?st = "st\<lparr>st_table := AList.update key ?e (st_table st),
                st_destination_total := Suc (st_destination_total st)\<rparr>"
  have "filter (\<lambda>kv. fst kv \<noteq> key) (lru_view ?st) = filter (\<lambda>kv. fst kv \<noteq> key) (lru_view st)"
    by (auto simp: lru_view_def destinations_def tbl_simps filter_map comp_def)
  moreover have "lru_linked ?st"
    using assms by (rule append_destination_linked)
  ultimately show ?thesis
    using False touch_view [of ?st key ?e] by (simp add: refresh_key_def tbl_simps)
qed

subsection \<open>Eviction\<close>

lemma last_split: "xs \<noteq> [] \<Longrightarrow> set xs = insert (last xs) (set (butlast xs))"
  by (cases xs rule: rev_cases) auto

lemma evict_one_linked:
  assumes linked: "st_linked st" and ne: "st_lru st \<noteq> []"
  shows "st_linked (evict_one st) \<and> lru_view (evict_one st) = butlast (lru_view st)
     \<and> Suc (length (st_table (evict_one st))) = length (st_table st)
     \<and> st_capacity (evict_one st) = st_capacity st"
proof -
  obtain l i k where l: "st_lru st = l @ [(i, k)]"
    using ne by (metis rev_exhaust surj_pair)
  have lnk: "lru_linked st" and ok: "entries_ok st"
    using linked by (simp_all add: st_linked_def)
  have wf: "wf_tbl (st_table st)"
    using lnk by (simp add: lru_linked_def)
  obtain e where e: "map_of (st_table st) k = Some e"
    using lnk by (auto simp: lru_linked_def l)
  have fresh: "k \<notin> snd ` set l"
    using lnk by (auto simp: lru_linked_def l)
  have tot: "dest_total (AList.delete k (st_table st)) + length (se_destinations e) = dest_total (st_table st)"
    by (rule dest_total_delete [OF wf e])
  have ev: "evict_one st = st\<lparr>st_lru := l, st_table := AList.delete k (st_table st),
      st_destination_total := dest_total (AList.delete k (st_table st))\<rparr>"
    using ok tot by (auto simp: evict_one_def l e Let_def entries_ok_def)
  have others: "map_of (AList.delete k (st_table st)) k' = map_of (st_table st) k'" if "k' \<in> snd ` set l" for k'
    using that fresh by (auto simp: tbl_simps)
  have "lru_linked (evict_one st)"
    using lnk fresh others
    by (auto simp: lru_linked_def ev l delete_keys split: prod.splits) (metis image_eqI snd_conv)+
  moreover have "entries_ok (evict_one st)"
    using ok by (simp add: entries_ok_def ev)
  moreover have "lru_view (evict_one st) = butlast (lru_view st)"
    using others by (auto simp: lru_view_def ev l destinations_def)
  moreover have "Suc (length (st_table (evict_one st))) = length (st_table st)"
    using length_delete [OF wf e] by (simp add: ev)
  ultimately show ?thesis
    by (simp add: st_linked_def ev)
qed

lemma evict_loop_linked:
  "st_linked st \<Longrightarrow>
   st_linked (snd (evict_loop n st)) \<and> lru_view (snd (evict_loop n st)) = take (st_capacity st) (lru_view st)
   \<and> fst (evict_loop n st) = n + (length (st_table st) - st_capacity st)
   \<and> length (st_table (snd (evict_loop n st))) = min (st_capacity st) (length (st_table st))
   \<and> st_capacity (snd (evict_loop n st)) = st_capacity st"
proof (induction n st rule: evict_loop.induct)
  case (1 n st)
  have len: "length (st_lru st) = length (st_table st)" "length (lru_view st) = length (st_lru st)"
    using "1.prems" by (simp_all add: st_linked_def linked_lengths lru_view_def)
  show ?case
  proof (cases "length (st_table st) > st_capacity st")
    case True
    then have ne: "st_lru st \<noteq> []" using len by auto
    note one = evict_one_linked [OF "1.prems" ne]
    have "evict_loop n st = evict_loop (Suc n) (evict_one st)"
      using True ne by (simp add: evict_loop.simps [of n st])
    moreover have "take (st_capacity st) (butlast (lru_view st)) = take (st_capacity st) (lru_view st)"
      using True len by (simp add: take_butlast)
    ultimately show ?thesis
      using "1.IH" [OF conjI [OF True ne]] one True by auto
  next
    case False
    then show ?thesis
      using "1.prems" len by (simp add: evict_loop.simps [of n st])
  qed
qed

subsection \<open>Recording a destination\<close>

definition after_insert :: "string \<Rightarrow> string \<Rightarrow> sync_table \<Rightarrow> sync_table" where
  "after_insert key d st =
     (let st1 = st\<lparr>st_updates := st_updates st + 1\<rparr>
      in case map_of (st_table st1) key of None \<Rightarrow> insert_key key d st1
         | Some e \<Rightarrow> refresh_key key e d st1)"

lemma after_insert_linked:
  assumes "st_linked st"
  shows "st_linked (after_insert key d st)"
    and "st_capacity st = c \<Longrightarrow> take c (lru_view (after_insert key d st)) = lru_spec c key d (lru_view st)"
proof -
  let ?st = "st\<lparr>st_updates := st_updates st + 1\<rparr>"
  have lnk: "lru_linked ?st" "entries_ok ?st"
    using assms by (simp_all add: st_linked_def lru_linked_def entries_ok_def)
  have view: "lru_view ?st = lru_view st" "map_of (st_table ?st) key = map_of (st_table st) key"
    by (simp_all add: lru_view_def destinations_def)
  have found: "map_of (lru_view st) key = map_option se_destinations (map_of (st_table st) key)"
    using map_of_lru_view [OF lnk(1)] view by simp
  show "st_linked (after_insert key d st)"
    using lnk view(2)
    by (auto simp: st_linked_def after_insert_def Let_def split: option.splits
        intro: insert_key_linked insert_key_entries refresh_key_linked refresh_key_entries)
  have "lru_view (after_insert key d st) =
      (key, case map_of (st_table st) key of None \<Rightarrow> [d]
            | Some e \<Rightarrow> if d \<in> set (se_destinations e) then se_destinations e else se_destinations e @ [d])
        # filter (\<lambda>kv. fst kv \<noteq> key) (lru_view st)"
  proof (cases "map_of (st_table st) key")
    case None
    with insert_key_view [OF lnk(1), of key d] view show ?thesis
      by (simp add: after_insert_def)
  next
    case (Some e)
    with refresh_key_view [OF lnk(1), of key e d] view show ?thesis
      by (simp add: after_insert_def)
  qed
  then show "st_capacity st = c \<Longrightarrow> take c (lru_view (after_insert key d st)) = lru_spec c key d (lru_view st)"
    by (cases "map_of (st_table st) key") (auto simp: lru_spec_def found)
qed

lemma after_insert_frame:
  "st_capacity (after_insert key d st) = st_capacity st"
  "length (st_table (after_insert key d st)) =
     (if map_of (st_table st) key = None then Suc (length (st_table st)) else length (st_table st))"
  by (auto simp: after_insert_def insert_key_def refresh_key_def touch_def lru_push_front_def
      lru_erase_def Let_def length_update tbl_simps split: option.splits)

text \<open>The state and the report of one call, in terms of the eviction loop.\<close>

lemma record_destination_eq:
  fixes st :: sync_table and key d :: string
  defines "r \<equiv> evict_loop 0 (after_insert key d st)"
  shows "snd (record_destination key d st) =
     (snd r)\<lparr>st_evicted_total := st_evicted_total (snd r) + of_nat (fst r)\<rparr>"
    and "su_evicted (fst (record_destination key d st)) = fst r"
    and "su_key_count (fst (record_destination key d st)) = length (st_table (snd r))"
    and "su_key_added (fst (record_destination key d st)) \<longleftrightarrow> map_of (st_table st) key = None"
proof -
  have "after_insert key d st = (case map_of (st_table st) key of
      None \<Rightarrow> insert_key key d (st\<lparr>st_updates := st_updates st + 1\<rparr>)
    | Some e \<Rightarrow> refresh_key key e d (st\<lparr>st_updates := st_updates st + 1\<rparr>))"
    by (simp add: after_insert_def Let_def)
  then show "snd (record_destination key d st) =
      (snd r)\<lparr>st_evicted_total := st_evicted_total (snd r) + of_nat (fst r)\<rparr>"
    "su_evicted (fst (record_destination key d st)) = fst r"
    "su_key_count (fst (record_destination key d st)) = length (st_table (snd r))"
    "su_key_added (fst (record_destination key d st)) \<longleftrightarrow> map_of (st_table st) key = None"
    by (cases "evict_loop 0 (after_insert key d st)";
        auto simp: record_destination_def evict_if_needed_def r_def Let_def)+
qed

lemma record_destination_step:
  assumes "st_inv st"
  shows "st_inv (snd (record_destination key d st))"
    and "lru_view (snd (record_destination key d st)) = lru_spec (st_capacity st) key d (lru_view st)"
    and "st_capacity (snd (record_destination key d st)) = st_capacity st"
proof -
  let ?a = "after_insert key d st"
  have linked: "st_linked st" using assms by (simp add: st_inv_def)
  note a = after_insert_linked [OF linked, where key = key and d = d]
  note r = evict_loop_linked [OF a(1), where n = 0]
  have frame: "st_linked (t\<lparr>st_evicted_total := n\<rparr>) = st_linked t"
    "lru_view (t\<lparr>st_evicted_total := n\<rparr>) = lru_view t" for t n
    by (simp_all add: st_linked_def lru_linked_def entries_ok_def lru_view_def destinations_def)
  show "st_inv (snd (record_destination key d st))"
    "lru_view (snd (record_destination key d st)) = lru_spec (st_capacity st) key d (lru_view st)"
    "st_capacity (snd (record_destination key d st)) = st_capacity st"
    using r a(2) by (simp_all add: record_destination_eq st_inv_def frame after_insert_frame)
qed

lemma lru_spec_recent:
  "0 < cap \<Longrightarrow> \<exists>ds rest. lru_spec cap key d xs = (key, ds) # rest \<and> d \<in> set ds"
  by (cases cap) (auto simp: lru_spec_def Let_def split: option.splits)

subsection \<open>Properties\<close>

definition record_all :: "(string \<times> string) list \<Rightarrow> sync_table \<Rightarrow> sync_table" where
  "record_all calls st = fold (\<lambda>(k, d) s. snd (record_destination k d s)) calls st"

lemma record_all_view:
  "st_inv st \<Longrightarrow> st_inv (record_all calls st)
     \<and> lru_view (record_all calls st) = fold (\<lambda>(k, d). lru_spec (st_capacity st) k d) calls (lru_view st)"
  by (induction calls arbitrary: st) (auto simp: record_all_def record_destination_step)

text \<open>C23. Refinement. After any sequence of recorded requests, the table of a node with the given capacity is
  the textbook LRU table of that sequence, and the invariant holds: every stored iterator is
  valid, the capacity is respected and the destination total is exact.\<close>

theorem sync_table_refines_lru:
  "st_inv (record_all calls (sync_table_new c))
   \<and> lru_view (record_all calls (sync_table_new c)) = fold (\<lambda>(k, d). lru_spec (unat c) k d) calls []"
proof -
  have "st_capacity (sync_table_new c) = unat c" "lru_view (sync_table_new c) = []"
    by (simp_all add: sync_table_new_def lru_view_def)
  with record_all_view [of "sync_table_new c" calls] show ?thesis
    by simp
qed

text \<open>Report. One call evicts exactly when it adds a key to a full table, and then one key; the
  reported key count is the size after eviction, which never exceeds the capacity; with a positive
  capacity the recorded destination is among the key's destinations afterwards.\<close>

theorem sync_update_report:
  assumes "st_inv st"
  shows "case record_destination key d st of (u, st') \<Rightarrow>
      su_evicted u = (if map_of (st_table st) key = None \<and> length (st_table st) = st_capacity st then 1 else 0)
    \<and> su_key_count u = length (st_table st') \<and> su_key_count u \<le> st_capacity st
    \<and> (su_key_added u \<longleftrightarrow> map_of (st_table st) key = None)
    \<and> (0 < st_capacity st \<longrightarrow> d \<in> set (destinations st' key))"
proof -
  have linked: "st_linked st" and cap: "length (st_table st) \<le> st_capacity st"
    using assms by (simp_all add: st_inv_def)
  define u st' where "u = fst (record_destination key d st)" and "st' = snd (record_destination key d st)"
  note a = after_insert_linked(1) [OF linked, where key = key and d = d]
  note r = evict_loop_linked [OF a, where n = 0]
  have "d \<in> set (destinations st' key)" if pos: "0 < st_capacity st"
  proof -
    obtain ds rest where v: "lru_view st' = (key, ds) # rest" "d \<in> set ds"
      using record_destination_step(2) [OF assms(1), of key d] lru_spec_recent [OF pos, of key d "lru_view st"]
      by (auto simp: st'_def)
    have "lru_linked st'"
      using record_destination_step(1) [OF assms(1), of key d] by (simp add: st'_def st_inv_def st_linked_def)
    then have "map_option se_destinations (map_of (st_table st') key) = Some ds"
      using map_of_lru_view [of st' key] v by simp
    with v show ?thesis by (auto simp: destinations_def)
  qed
  with r cap show ?thesis
    by (auto simp: u_def st'_def record_destination_eq after_insert_frame case_prod_unfold)
qed

theorem sync_update_report_witness:
  "su_evicted (fst (record_destination ''b'' ''n2'' (record_all [(''a'', ''n1'')] (sync_table_new 1)))) = 1"
proof -
  let ?st = "record_all [(''a'', ''n1'')] (sync_table_new 1)"
  have "st_inv ?st"
    using record_all_view [of "sync_table_new 1" "[(''a'', ''n1'')]"] by simp
  note rep = sync_update_report [OF this, where key = "''b''" and d = "''n2''"]
  have "st_table ?st = [(''a'', \<lparr>se_destinations = [''n1''], se_lru_it = 0\<rparr>)]" "st_capacity ?st = 1"
    by (simp_all add: record_all_def record_destination_def sync_table_new_def insert_key_def
        lru_push_front_def evict_if_needed_def evict_loop.simps Let_def)
  with rep show ?thesis by (simp add: case_prod_unfold)
qed

end
