(* ===== verification/Query_Bf_Limiter.thy ===== *)
theory Query_Bf_Limiter
  imports C_Strings
begin

text \<open>
  \<^verbatim>\<open>tables/query_bf_limiter.cpp\<close>: the cap on how often a Query-BF with the same origin and digest is
  forwarded. The specification is one fixed-window counter per origin and digest; the table, with
  its string keys, its pruning and its zero time stamp as the mark of a fresh entry, refines it on
  every sequence of calls with a monotonic clock that is past zero. From the specification follows how many
  forwards a time interval can see.
\<close>

subsection \<open>State and operations\<close>

record limiter_entry =
  le_window_start :: time_ns
  le_attempts :: nat

record limiter =
  ql_limit :: nat
  ql_window :: int
  ql_entries :: "limiter_entry table"

definition limiter_new :: "u64 \<Rightarrow> int \<Rightarrow> limiter" where
  "limiter_new attempt_limit window =
     \<lparr>ql_limit = unat attempt_limit, ql_window = window, ql_entries = []\<rparr>"

definition limiter_key :: "string \<Rightarrow> u64 \<Rightarrow> string" where
  "limiter_key origin digest = origin @ '':'' @ show_nat (unat digest)"

definition limiter_expired :: "int \<Rightarrow> time_ns \<Rightarrow> limiter_entry \<Rightarrow> bool" where
  "limiter_expired window now e \<longleftrightarrow> now - le_window_start e > ms_ns window * 2"

definition limiter_prune :: "time_ns \<Rightarrow> limiter \<Rightarrow> limiter" where
  "limiter_prune now l =
     (if ql_window l \<le> 0 then l
      else l\<lparr>ql_entries := prune (limiter_expired (ql_window l) now) (ql_entries l)\<rparr>)"

definition limiter_allow :: "time_ns \<Rightarrow> string \<Rightarrow> u64 \<Rightarrow> limiter \<Rightarrow> bool \<times> limiter" where
  "limiter_allow now origin digest l0 =
     (if ql_limit l0 = 0 \<or> ql_window l0 \<le> 0 then (True, l0)
      else let l1 = limiter_prune now l0;
               key = limiter_key origin digest;
               e0 = (case map_of (ql_entries l1) key of
                       None \<Rightarrow> \<lparr>le_window_start = 0, le_attempts = 0\<rparr> | Some e \<Rightarrow> e);
               e1 = (if le_window_start e0 = 0 then e0\<lparr>le_window_start := now\<rparr> else e0);
               e2 = (if now - le_window_start e1 > ms_ns (ql_window l1)
                     then \<lparr>le_window_start = now, le_attempts = 0\<rparr> else e1)
           in if le_attempts e2 \<ge> ql_limit l1
              then (False, l1\<lparr>ql_entries := AList.update key e2 (ql_entries l1)\<rparr>)
              else (True, l1\<lparr>ql_entries :=
                        AList.update key (e2\<lparr>le_attempts := Suc (le_attempts e2)\<rparr>) (ql_entries l1)\<rparr>))"

definition limiter_entry_count :: "limiter \<Rightarrow> nat" where
  "limiter_entry_count l = length (ql_entries l)"

interpretation limiter_expiry: expiry "limiter_expired window" for window
  by unfold_locales (simp add: limiter_expired_def)

lemma limiter_key_inj: "limiter_key o1 d1 = limiter_key o2 d2 \<longleftrightarrow> o1 = o2 \<and> d1 = d2"
proof -
  have no_colon: "CHR '':'' \<notin> set (show_nat n)" for n
    by (auto dest!: show_nat_set simp: is_digit_def)
  show ?thesis
    by (simp add: limiter_key_def sep_suffix_inj no_colon show_nat_inj word_unat_eq_iff)
qed

subsection \<open>The specification: one fixed window per key\<close>

type_synonym limiter_call = "time_ns \<times> string \<times> u64"

text \<open>The window of one key: its start and the forwards counted in it.\<close>

definition window_step :: "nat \<Rightarrow> int \<Rightarrow> time_ns \<Rightarrow> (time_ns \<times> nat) option \<Rightarrow> bool \<times> (time_ns \<times> nat) option" where
  "window_step limit window now w =
     (case w of
        None \<Rightarrow> (True, Some (now, 1))
      | Some (start, n) \<Rightarrow>
          if now - start > ms_ns window then (True, Some (now, 1))
          else if n < limit then (True, Some (start, Suc n)) else (False, Some (start, n)))"

fun limiter_spec ::
  "nat \<Rightarrow> int \<Rightarrow> (string \<times> u64 \<Rightarrow> (time_ns \<times> nat) option) \<Rightarrow> limiter_call list \<Rightarrow> bool list" where
  "limiter_spec limit window ws [] = []"
| "limiter_spec limit window ws ((now, origin, digest) # calls) =
     (let (b, w) = window_step limit window now (ws (origin, digest))
      in b # limiter_spec limit window (ws((origin, digest) := w)) calls)"

fun limiter_run :: "limiter \<Rightarrow> limiter_call list \<Rightarrow> bool list" where
  "limiter_run l [] = []"
| "limiter_run l ((now, origin, digest) # calls) =
     (let (b, l') = limiter_allow now origin digest l in b # limiter_run l' calls)"

fun limiter_clock :: "time_ns \<Rightarrow> limiter_call list \<Rightarrow> bool" where
  "limiter_clock prev [] = True"
| "limiter_clock prev ((now, origin, digest) # calls) = (prev \<le> now \<and> limiter_clock now calls)"

text \<open>The table and the windows agree: an entry is the key's window, and a window without entry
  is too old to be continued.\<close>

definition windows_agree :: "limiter \<Rightarrow> (string \<times> u64 \<Rightarrow> (time_ns \<times> nat) option) \<Rightarrow> time_ns \<Rightarrow> bool" where
  "windows_agree l ws prev \<longleftrightarrow> wf_tbl (ql_entries l) \<and> 0 < ql_limit l \<and> 0 < ql_window l \<and> 0 < prev \<and>
     (\<forall>origin digest. case map_of (ql_entries l) (limiter_key origin digest) of
        Some e \<Rightarrow> ws (origin, digest) = Some (le_window_start e, le_attempts e) \<and> 0 < le_window_start e
      | None \<Rightarrow> (\<forall>w. ws (origin, digest) = Some w \<longrightarrow> prev - fst w > ms_ns (ql_window l)))"

lemma windows_agreeD:
  assumes "windows_agree l ws prev" "prev \<le> now"
  shows "case map_of (ql_entries (limiter_prune now l)) (limiter_key origin digest) of
       Some e \<Rightarrow> ws (origin, digest) = Some (le_window_start e, le_attempts e) \<and> 0 < le_window_start e
     | None \<Rightarrow> (\<forall>w. ws (origin, digest) = Some w \<longrightarrow> now - fst w > ms_ns (ql_window l))"
proof -
  have wf: "wf_tbl (ql_entries l)" and win: "0 < ql_window l"
    and ag: "case map_of (ql_entries l) (limiter_key origin digest) of
       Some e \<Rightarrow> ws (origin, digest) = Some (le_window_start e, le_attempts e) \<and> 0 < le_window_start e
     | None \<Rightarrow> (\<forall>w. ws (origin, digest) = Some w \<longrightarrow> prev - fst w > ms_ns (ql_window l))"
    using assms(1) by (auto simp: windows_agree_def)
  have "x > ms_ns (ql_window l)" if "x > ms_ns (ql_window l) * 2" for x
    using win that by (simp add: ms_ns_def)
  then show ?thesis
    using ag assms(2) win
    by (auto simp: limiter_prune_def map_of_prune [OF wf] limiter_expired_def split: option.splits)
qed

lemma limiter_prune_params [simp]:
  "ql_limit (limiter_prune now l) = ql_limit l" "ql_window (limiter_prune now l) = ql_window l"
  by (simp_all add: limiter_prune_def)

text \<open>One call stores the key's next window and answers as the window does.\<close>

lemma limiter_allow_entry:
  fixes origin :: string and digest :: u64
  assumes ag: "windows_agree l ws prev" and ord: "prev \<le> now"
  shows "\<exists>e. limiter_allow now origin digest l =
       (fst (window_step (ql_limit l) (ql_window l) now (ws (origin, digest))),
        (limiter_prune now l)\<lparr>ql_entries :=
           AList.update (limiter_key origin digest) e (ql_entries (limiter_prune now l))\<rparr>)
     \<and> snd (window_step (ql_limit l) (ql_window l) now (ws (origin, digest))) =
         Some (le_window_start e, le_attempts e)
     \<and> 0 < le_window_start e"
proof -
  have pos: "0 < ql_limit l" "0 < ql_window l" "0 < now"
    using ag ord by (auto simp: windows_agree_def)
  have win: "0 < ms_ns (ql_window l)" using pos by simp
  note D = windows_agreeD [OF ag ord, of origin digest]
  show ?thesis
  proof (cases "map_of (ql_entries (limiter_prune now l)) (limiter_key origin digest)")
    case None
    then have "window_step (ql_limit l) (ql_window l) now (ws (origin, digest)) = (True, Some (now, 1))"
      using D by (auto simp: window_step_def split: option.splits)
    with None pos win show ?thesis
      by (intro exI [of _ "\<lparr>le_window_start = now, le_attempts = 1\<rparr>"]) (simp add: limiter_allow_def Let_def)
  next
    case (Some e)
    have ws: "ws (origin, digest) = Some (le_window_start e, le_attempts e)" "0 < le_window_start e"
      using D Some by auto
    show ?thesis
    proof (cases "now - le_window_start e > ms_ns (ql_window l)")
      case True
      with Some ws pos show ?thesis
        by (intro exI [of _ "\<lparr>le_window_start = now, le_attempts = 1\<rparr>"])
          (simp add: limiter_allow_def Let_def window_step_def)
    next
      case False
      with Some ws pos show ?thesis
        by (intro exI [of _ "if le_attempts e < ql_limit l then e\<lparr>le_attempts := Suc (le_attempts e)\<rparr> else e"])
          (simp add: limiter_allow_def Let_def window_step_def)
    qed
  qed
qed

lemma limiter_allow_step:
  fixes origin :: string and digest :: u64
  assumes ag: "windows_agree l ws prev" and ord: "prev \<le> now"
  defines "s \<equiv> window_step (ql_limit l) (ql_window l) now (ws (origin, digest))"
    and "l' \<equiv> snd (limiter_allow now origin digest l)"
  shows "fst (limiter_allow now origin digest l) = fst s"
    and "windows_agree l' (ws((origin, digest) := snd s)) now"
    and "ql_limit l' = ql_limit l" "ql_window l' = ql_window l"
proof -
  let ?p = "limiter_prune now l"
  obtain e where e: "limiter_allow now origin digest l =
      (fst s, ?p\<lparr>ql_entries := AList.update (limiter_key origin digest) e (ql_entries ?p)\<rparr>)"
    "snd s = Some (le_window_start e, le_attempts e)" "0 < le_window_start e"
    using limiter_allow_entry [OF ag ord, of origin digest] by (auto simp: s_def)
  have wf: "wf_tbl (ql_entries ?p)"
    using ag by (simp add: windows_agree_def limiter_prune_def)
  have pos: "0 < ql_limit l" "0 < ql_window l" "0 < now"
    using ag ord by (auto simp: windows_agree_def)
  show "fst (limiter_allow now origin digest l) = fst s"
    and lim: "ql_limit l' = ql_limit l" and win: "ql_window l' = ql_window l"
    by (simp_all add: l'_def e)
  have "case map_of (ql_entries l') (limiter_key og dg) of
       Some e \<Rightarrow> (ws((origin, digest) := snd s)) (og, dg) = Some (le_window_start e, le_attempts e)
                 \<and> 0 < le_window_start e
     | None \<Rightarrow> (\<forall>w. (ws((origin, digest) := snd s)) (og, dg) = Some w \<longrightarrow> now - fst w > ms_ns (ql_window l'))"
    for og dg
    using windows_agreeD [OF ag ord, of og dg] e(2,3)
    by (auto simp: l'_def e(1) tbl_simps limiter_key_inj split: option.splits)
  moreover have "wf_tbl (ql_entries l')"
    using wf by (simp add: l'_def e(1))
  ultimately show "windows_agree l' (ws((origin, digest) := snd s)) now"
    using pos lim win unfolding windows_agree_def by simp
qed

lemma limiter_run_spec:
  "windows_agree l ws prev \<Longrightarrow> limiter_clock prev calls \<Longrightarrow>
   limiter_run l calls = limiter_spec (ql_limit l) (ql_window l) ws calls"
proof (induction calls arbitrary: l ws prev)
  case (Cons c calls)
  obtain now origin digest where c: "c = (now, origin, digest)"
    by (cases c) auto
  have ord: "prev \<le> now" "limiter_clock now calls"
    using Cons.prems(2) by (simp_all add: c)
  note st = limiter_allow_step [OF Cons.prems(1) ord(1), of origin digest]
  show ?case
    using Cons.IH [OF st(2) ord(2)] st(1,3,4) by (simp add: c case_prod_unfold Let_def fun_upd_def)
qed simp

subsection \<open>How many forwards a time interval can see\<close>

fun window_allows :: "nat \<Rightarrow> int \<Rightarrow> (time_ns \<times> nat) option \<Rightarrow> time_ns list \<Rightarrow> nat" where
  "window_allows limit window w [] = 0"
| "window_allows limit window w (now # ts) =
     (let (b, w') = window_step limit window now w
      in (if b then 1 else 0) + window_allows limit window w' ts)"

lemma window_allows_same:
  "\<forall>t \<in> set ts. t - start \<le> ms_ns window \<Longrightarrow> n \<le> limit \<Longrightarrow>
   window_allows limit window (Some (start, n)) ts = min (limit - n) (length ts)"
proof (induction ts arbitrary: n)
  case (Cons t ts)
  then show ?case
    by (cases "n < limit") (auto simp: window_step_def not_less)
qed simp

lemma window_allows_interval:
  "sorted ts \<Longrightarrow> ts \<noteq> [] \<Longrightarrow> last ts - hd ts \<le> ms_ns window \<Longrightarrow> 0 < limit \<Longrightarrow>
   (\<And>start n. w = Some (start, n) \<Longrightarrow> n \<le> limit) \<Longrightarrow>
   window_allows limit window w ts \<le>
     limit + (case w of None \<Rightarrow> 0 | Some (start, n) \<Rightarrow> limit - n)"
proof (induction ts arbitrary: w)
  case (Cons t ts)
  have le: "x - t \<le> ms_ns window" if "x \<in> set ts" for x
  proof -
    have "x \<le> last (t # ts)"
      using Cons.prems(1) that by (cases ts rule: rev_cases) (auto simp: sorted_append)
    with Cons.prems(3) show ?thesis by simp
  qed
  have "t \<le> last (t # ts)"
    using Cons.prems(1) by (cases ts rule: rev_cases) auto
  moreover have "last (t # ts) - t \<le> ms_ns window"
    using Cons.prems(3) by simp
  ultimately have nonneg: "0 \<le> ms_ns window"
    by linarith
  have fresh: "window_allows limit window (Some (t, 1)) ts \<le> limit - 1"
    using window_allows_same [of ts t window 1 limit] le Cons.prems(4) by simp
  show ?case
  proof (cases w)
    case None
    with fresh Cons.prems(4) show ?thesis by (simp add: window_step_def)
  next
    case (Some p)
    obtain start n where p: "w = Some (start, n)" using Some by (cases p) auto
    have n: "n \<le> limit" using Cons.prems(5) p by simp
    show ?thesis
    proof (cases "t - start > ms_ns window")
      case True
      with fresh p Cons.prems(4) show ?thesis by (simp add: window_step_def)
    next
      case False
      have tail: "window_allows limit window (Some (start, m)) ts \<le> limit + (limit - m)" if "m \<le> limit" for m
      proof (cases "ts = []")
        case False
        have "last ts - hd ts \<le> ms_ns window"
          using le [of "last ts"] Cons.prems(1) False nonneg by (cases ts) auto
        with Cons.IH [of "Some (start, m)"] Cons.prems(1,4) False that show ?thesis by simp
      qed simp
      show ?thesis
        using tail [of n] tail [of "Suc n"] False p n by (auto simp: window_step_def not_less_eq_eq)
    qed
  qed
qed simp

lemma windows_agree_new:
  "limit \<noteq> 0 \<Longrightarrow> 0 < window \<Longrightarrow> 0 < prev \<Longrightarrow> windows_agree (limiter_new limit window) (\<lambda>_. None) prev"
  by (simp add: windows_agree_def limiter_new_def unat_gt_0)

subsection \<open>Properties\<close>

text \<open>C25. Refinement. On every sequence of calls with a monotonic positive clock, a new limiter with a
  positive limit and window answers as one independent fixed-window counter per origin and digest
  does: pruning, the string keys and the zero mark never change an answer.\<close>

theorem limiter_refines_windows:
  assumes "limit \<noteq> 0" "0 < window" "0 < start" "limiter_clock start calls"
  shows "limiter_run (limiter_new limit window) calls =
     limiter_spec (unat limit) window (\<lambda>_. None) calls"
  using limiter_run_spec [OF windows_agree_new [OF assms(1-3)] assms(4)]
  by (simp add: limiter_new_def)

theorem limiter_refines_windows_witness:
  "limiter_run (limiter_new 2 1) [(5, ''a'', 7), (6, ''a'', 7), (7, ''a'', 7), (8, ''b'', 7)]
     = [True, True, False, True]"
  using limiter_refines_windows
    [of 2 1 5 "[(5, ''a'', 7), (6, ''a'', 7), (7, ''a'', 7), (8, ''b'', 7)]"]
  by (simp add: window_step_def ms_ns_def)

text \<open>Rate bound. In any interval no longer than the window, the forwards that one key is allowed are at
  most twice the limit, whatever happened before. The limit itself is exceeded in such an interval: with
  limit 3 and a window of one second, five forwards pass within one nanosecond around the end of the
  window.\<close>

theorem limiter_interval_bound:
  assumes "sorted ts" "ts \<noteq> []" "last ts - hd ts \<le> ms_ns window" "0 < limit"
    and "\<And>start n. w = Some (start, n) \<Longrightarrow> n \<le> limit"
  shows "window_allows limit window w ts \<le> 2 * limit"
proof -
  have "window_allows limit window w ts \<le> limit + (case w of None \<Rightarrow> 0 | Some (start, n) \<Rightarrow> limit - n)"
    using assms by (intro window_allows_interval) auto
  then show ?thesis
    by (auto split: option.splits)
qed

theorem limiter_interval_bound_witness:
  "window_allows 3 1000 (Some (1, 1)) [1000000001, 1000000001, 1000000002, 1000000002, 1000000002] \<le> 2 * 3"
  by (rule limiter_interval_bound) (simp_all add: ms_ns_def)

text \<open>The burst at a window's end, on the limiter itself: six calls with limit 3 and a window of
  one second are all allowed, the last five of them within one nanosecond.\<close>

theorem limiter_burst:
  "limiter_run (limiter_new 3 1000)
     [(1, ''n1'', 9), (1000000001, ''n1'', 9), (1000000001, ''n1'', 9),
      (1000000002, ''n1'', 9), (1000000002, ''n1'', 9), (1000000002, ''n1'', 9)]
   = [True, True, True, True, True, True]"
proof -
  have k: "limiter_key ''n1'' 9 = ''n1:9''"
    by code_simp
  show ?thesis
    by (simp add: limiter_new_def limiter_allow_def limiter_prune_def prune_def limiter_expired_def
        ms_ns_def k Let_def)
qed

end
