(* ===== verification/Bloom_Filter.thy ===== *)
theory Bloom_Filter
  imports C_Double
begin

text \<open>
  \<^verbatim>\<open>tables/bloom_filter.cpp\<close>: the filter object with its byte vector, the two hash functions on
  64-bit words, insertion and membership by double hashing, merging, the hexadecimal form that
  goes on the wire, the digest and the fill ratio. The abstraction \<open>bits_of\<close> reads the set of bit
  positions out of the byte vector; every operation is characterised through it, and the
  membership laws follow.
\<close>

subsection \<open>Hashing\<close>

definition fnv1a64 :: "string \<Rightarrow> u64" where
  "fnv1a64 s = foldl (\<lambda>hash c. (hash XOR of_char c) * 1099511628211) 1469598103934665603 s"

definition mix64 :: "u64 \<Rightarrow> u64" where
  "mix64 v0 =
     (let v1 = v0 + 0x9e3779b97f4a7c15;
          v2 = (v1 XOR drop_bit 30 v1) * 0xbf58476d1ce4e5b9;
          v3 = (v2 XOR drop_bit 27 v2) * 0x94d049bb133111eb
      in v3 XOR drop_bit 31 v3)"

definition hex_value :: "char \<Rightarrow> int" where
  "hex_value c = (let n = (of_char c :: int) in
     if 48 \<le> n \<and> n \<le> 57 then n - 48
     else if 97 \<le> n \<and> n \<le> 102 then 10 + (n - 97)
     else if 65 \<le> n \<and> n \<le> 70 then 10 + (n - 65)
     else - 1)"

subsection \<open>The filter\<close>

record bloom =
  bf_bits :: u64
  bf_hashes :: u64
  bf_data :: "u8 list"

text \<open>The number of bytes, in \<^verbatim>\<open>size_t\<close> arithmetic: the addition can wrap.\<close>

definition byte_size :: "u64 \<Rightarrow> u64" where
  "byte_size bits = (bits + 7) div 8"

definition bloom_new :: "u64 \<Rightarrow> u64 \<Rightarrow> bloom" where
  "bloom_new bits hashes =
     \<lparr>bf_bits = bits, bf_hashes = hashes, bf_data = replicate (unat (byte_size bits)) 0\<rparr>"

definition bloom_clear :: "bloom \<Rightarrow> bloom" where
  "bloom_clear f = f\<lparr>bf_data := map (\<lambda>_. 0) (bf_data f)\<rparr>"

definition bf_set_bit :: "u64 \<Rightarrow> bloom \<Rightarrow> bloom" where
  "bf_set_bit idx f =
     (if bf_bits f = 0 then f
      else let byte_index = unat (idx div 8); mask = push_bit (unat (idx mod 8)) 1
           in f\<lparr>bf_data := (bf_data f)[byte_index := (bf_data f ! byte_index) OR mask]\<rparr>)"

definition bf_get_bit :: "u64 \<Rightarrow> bloom \<Rightarrow> bool" where
  "bf_get_bit idx f =
     (if bf_bits f = 0 then False
      else let byte_index = unat (idx div 8); mask = push_bit (unat (idx mod 8)) 1
           in (bf_data f ! byte_index) AND mask \<noteq> 0)"

definition bloom_index :: "bloom \<Rightarrow> u64 \<Rightarrow> u64 \<Rightarrow> nat \<Rightarrow> u64" where
  "bloom_index f h1 h2 i = (h1 + of_nat i * h2) mod bf_bits f"

definition bloom_add :: "string \<Rightarrow> bloom \<Rightarrow> bloom" where
  "bloom_add s f =
     (if bf_bits f = 0 \<or> bf_hashes f = 0 then f
      else let h1 = fnv1a64 s; h2 = mix64 h1
           in fold (\<lambda>i g. bf_set_bit (bloom_index f h1 h2 i) g) [0..<unat (bf_hashes f)] f)"

definition maybe_contains :: "bloom \<Rightarrow> string \<Rightarrow> bool" where
  "maybe_contains f s =
     (if bf_bits f = 0 \<or> bf_hashes f = 0 then False
      else let h1 = fnv1a64 s; h2 = mix64 h1
           in list_all (\<lambda>i. bf_get_bit (bloom_index f h1 h2 i) f) [0..<unat (bf_hashes f)])"

definition bloom_merge :: "bloom \<Rightarrow> bloom \<Rightarrow> bloom" where
  "bloom_merge f other =
     (if bf_bits f \<noteq> bf_bits other \<or> bf_hashes f \<noteq> bf_hashes other then f
      else if length (bf_data f) \<noteq> length (bf_data other) then f
      else f\<lparr>bf_data := map2 (OR) (bf_data f) (bf_data other)\<rparr>)"

definition hex_char :: "u8 \<Rightarrow> char" where
  "hex_char b = ''0123456789abcdef'' ! unat b"

definition to_hex :: "bloom \<Rightarrow> string" where
  "to_hex f = concat (map (\<lambda>b. [hex_char (drop_bit 4 b AND 0x0f), hex_char (b AND 0x0f)]) (bf_data f))"

text \<open>The loop of \<^verbatim>\<open>from_hex\<close>: two digits per byte, giving up at the first bad digit.\<close>

fun hex_bytes :: "string \<Rightarrow> u8 list option" where
  "hex_bytes (a # b # rest) =
     (let hi = hex_value a; lo = hex_value b in
      if hi < 0 \<or> lo < 0 then None
      else map_option (\<lambda>bs. word_of_int (push_bit 4 hi OR lo) # bs) (hex_bytes rest))"
| "hex_bytes _ = Some []"

definition from_hex :: "u64 \<Rightarrow> u64 \<Rightarrow> string \<Rightarrow> bloom option" where
  "from_hex bits hashes hex =
     (if length hex \<noteq> unat (byte_size bits) * 2 then None
      else map_option (\<lambda>bs. \<lparr>bf_bits = bits, bf_hashes = hashes, bf_data = bs\<rparr>) (hex_bytes hex))"

definition bloom_digest :: "bloom \<Rightarrow> u64" where
  "bloom_digest f = foldl (\<lambda>hash b. (hash XOR ucast b) * 1099511628211) 1469598103934665603 (bf_data f)"

definition popcount :: "u8 \<Rightarrow> nat" where
  "popcount b = length (filter (bit b) [0..<8])"

definition bits_set :: "bloom \<Rightarrow> nat" where
  "bits_set f = sum_list (map popcount (bf_data f))"

definition fill_ratio :: "bloom \<Rightarrow> double" where
  "fill_ratio f =
     (if bf_bits f = 0 \<or> bf_data f = [] then DFin 0
      else ddiv (double_of_nat (bits_set f)) (double_of_nat (unat (bf_bits f))))"

subsection \<open>Well-formed filters and their bits\<close>

text \<open>
  \<open>bloom_wf\<close> is what the constructor and \<^verbatim>\<open>from_hex\<close> establish when the bit count is not within 7 of
  \<open>2^64\<close> (it comes from a positive 32-bit setting): the vector has exactly the bytes needed, so that every index
  below the bit count is inside it.
\<close>

definition bloom_wf :: "bloom \<Rightarrow> bool" where
  "bloom_wf f \<longleftrightarrow> unat (bf_bits f) + 7 < 2 ^ 64 \<and> length (bf_data f) = unat (byte_size (bf_bits f))"

definition bits_of :: "u8 list \<Rightarrow> nat set" where
  "bits_of d = {n. n < 8 * length d \<and> bit (d ! (n div 8)) (n mod 8)}"

definition key_bits :: "u64 \<Rightarrow> u64 \<Rightarrow> string \<Rightarrow> nat set" where
  "key_bits bits hashes s =
     (\<lambda>i. unat ((fnv1a64 s + of_nat i * mix64 (fnv1a64 s)) mod bits)) ` {..<unat hashes}"

lemma byte_size_unat:
  "unat bits + 7 < 2 ^ 64 \<Longrightarrow> unat (byte_size bits) = (unat bits + 7) div 8"
  by (simp add: byte_size_def unat_div_distrib unat_word_ariths)

lemma wf_length: "bloom_wf f \<Longrightarrow> length (bf_data f) = (unat (bf_bits f) + 7) div 8"
  by (simp add: bloom_wf_def byte_size_unat)

lemma wf_in_range: "bloom_wf f \<Longrightarrow> n < unat (bf_bits f) \<Longrightarrow> n div 8 < length (bf_data f)"
  by (simp add: wf_length)

lemma unat_mod_less: "(b :: u64) \<noteq> 0 \<Longrightarrow> unat (a mod b) < unat b"
  by (simp add: unat_mod_distrib unat_gt_0)

lemma key_bits_bound: "bits \<noteq> 0 \<Longrightarrow> n \<in> key_bits bits hashes s \<Longrightarrow> n < unat bits"
  by (auto simp: key_bits_def unat_mod_less)

lemma bits_of_set_bit:
  assumes "bf_bits f \<noteq> 0" "unat idx div 8 < length (bf_data f)"
  shows "bits_of (bf_data (bf_set_bit idx f)) = insert (unat idx) (bits_of (bf_data f))"
proof -
  have i: "unat (idx div 8) = unat idx div 8" "unat (idx mod 8) = unat idx mod 8"
    by (simp_all add: unat_div_distrib unat_mod_distrib)
  have "n \<in> bits_of (bf_data (bf_set_bit idx f)) \<longleftrightarrow> n = unat idx \<or> n \<in> bits_of (bf_data f)" for n
  proof (cases "n div 8 = unat idx div 8")
    case True
    then have "n < 8 * length (bf_data f)"
      using assms(2) by linarith
    moreover have "n = unat idx \<longleftrightarrow> n mod 8 = unat idx mod 8"
      using True by (metis div_mult_mod_eq)
    ultimately show ?thesis
      using True assms i by (auto simp: bits_of_def bf_set_bit_def Let_def bit_simps)
  next
    case False
    then show ?thesis
      using assms i by (auto simp: bits_of_def bf_set_bit_def Let_def nth_list_update)
  qed
  then show ?thesis by auto
qed

lemma bf_set_bit_frame [simp]:
  "bf_bits (bf_set_bit idx f) = bf_bits f" "bf_hashes (bf_set_bit idx f) = bf_hashes f"
  "length (bf_data (bf_set_bit idx f)) = length (bf_data f)"
  by (simp_all add: bf_set_bit_def Let_def)

lemma bf_get_bit_iff:
  assumes "bf_bits f \<noteq> 0" "unat idx div 8 < length (bf_data f)"
  shows "bf_get_bit idx f \<longleftrightarrow> unat idx \<in> bits_of (bf_data f)"
proof -
  have "unat (idx div 8) = unat idx div 8" "unat (idx mod 8) = unat idx mod 8"
    by (simp_all add: unat_div_distrib unat_mod_distrib)
  moreover have "unat idx < 8 * length (bf_data f)"
    using assms(2) by linarith
  ultimately show ?thesis
    using assms by (simp add: bf_get_bit_def bits_of_def Let_def bit_iff_and_push_bit_not_eq_0)
qed

lemma bits_of_fold_set_bit:
  assumes "bf_bits f \<noteq> 0" "\<And>i. i \<in> set is \<Longrightarrow> unat (idx i) div 8 < length (bf_data f)"
  shows "bits_of (bf_data (fold (\<lambda>i g. bf_set_bit (idx i) g) is f)) =
           bits_of (bf_data f) \<union> (\<lambda>i. unat (idx i)) ` set is"
  using assms by (induction "is" arbitrary: f) (auto simp: bits_of_set_bit)

lemma fold_set_bit_frame [simp]:
  "bf_bits (fold (\<lambda>i g. bf_set_bit (idx i) g) is f) = bf_bits f"
  "bf_hashes (fold (\<lambda>i g. bf_set_bit (idx i) g) is f) = bf_hashes f"
  "length (bf_data (fold (\<lambda>i g. bf_set_bit (idx i) g) is f)) = length (bf_data f)"
  by (induction "is" arbitrary: f) auto

lemma bloom_add_frame [simp]:
  "bf_bits (bloom_add s f) = bf_bits f" "bf_hashes (bloom_add s f) = bf_hashes f"
  "length (bf_data (bloom_add s f)) = length (bf_data f)"
  by (simp_all add: bloom_add_def Let_def)

lemma bloom_wf_add [simp]: "bloom_wf f \<Longrightarrow> bloom_wf (bloom_add s f)"
  by (simp add: bloom_wf_def)

lemma bits_of_add:
  assumes "bloom_wf f" "bf_bits f \<noteq> 0"
  shows "bits_of (bf_data (bloom_add s f)) =
     bits_of (bf_data f) \<union> key_bits (bf_bits f) (bf_hashes f) s"
proof (cases "bf_hashes f = 0")
  case True
  then show ?thesis by (simp add: bloom_add_def key_bits_def)
next
  case False
  let ?idx = "bloom_index f (fnv1a64 s) (mix64 (fnv1a64 s))"
  have "unat (?idx i) div 8 < length (bf_data f)" for i
    using assms by (intro wf_in_range) (simp_all add: bloom_index_def unat_mod_less)
  then have "bits_of (bf_data (fold (\<lambda>i g. bf_set_bit (?idx i) g) [0..<unat (bf_hashes f)] f)) =
      bits_of (bf_data f) \<union> (\<lambda>i. unat (?idx i)) ` set [0..<unat (bf_hashes f)]"
    using assms(2) by (intro bits_of_fold_set_bit)
  with False assms(2) show ?thesis
    by (simp add: bloom_add_def Let_def key_bits_def bloom_index_def lessThan_atLeast0)
qed

lemma maybe_contains_iff:
  assumes "bloom_wf f" "bf_bits f \<noteq> 0" "bf_hashes f \<noteq> 0"
  shows "maybe_contains f s \<longleftrightarrow> key_bits (bf_bits f) (bf_hashes f) s \<subseteq> bits_of (bf_data f)"
proof -
  let ?idx = "bloom_index f (fnv1a64 s) (mix64 (fnv1a64 s))"
  have "bf_get_bit (?idx i) f \<longleftrightarrow> unat (?idx i) \<in> bits_of (bf_data f)" for i
    using assms by (intro bf_get_bit_iff wf_in_range) (simp_all add: bloom_index_def unat_mod_less)
  then show ?thesis
    using assms
    by (auto simp: maybe_contains_def Let_def list_all_iff key_bits_def bloom_index_def)
qed

lemma bits_of_new [simp]: "bits_of (bf_data (bloom_new bits hashes)) = {}"
  by (auto simp: bits_of_def bloom_new_def)

lemma bloom_new_params [simp]:
  "bf_bits (bloom_new bits hashes) = bits" "bf_hashes (bloom_new bits hashes) = hashes"
  by (simp_all add: bloom_new_def)

lemma bloom_wf_new: "unat bits + 7 < 2 ^ 64 \<Longrightarrow> bloom_wf (bloom_new bits hashes)"
  by (simp add: bloom_wf_def bloom_new_def)

subsection \<open>Merging\<close>

lemma bits_of_map2:
  "length d = length e \<Longrightarrow> bits_of (map2 (OR) d e) = bits_of d \<union> bits_of e"
  by (auto simp: bits_of_def bit_simps)

definition same_shape :: "bloom \<Rightarrow> bloom \<Rightarrow> bool" where
  "same_shape f g \<longleftrightarrow> bf_bits f = bf_bits g \<and> bf_hashes f = bf_hashes g"

lemma bloom_merge_frame [simp]:
  "bf_bits (bloom_merge f g) = bf_bits f" "bf_hashes (bloom_merge f g) = bf_hashes f"
  "length (bf_data (bloom_merge f g)) = length (bf_data f)"
  by (simp_all add: bloom_merge_def)

lemma bloom_wf_merge [simp]: "bloom_wf f \<Longrightarrow> bloom_wf (bloom_merge f g)"
  by (simp add: bloom_wf_def)

lemma bits_of_merge:
  "bloom_wf f \<Longrightarrow> bloom_wf g \<Longrightarrow> same_shape f g \<Longrightarrow>
   bits_of (bf_data (bloom_merge f g)) = bits_of (bf_data f) \<union> bits_of (bf_data g)"
  by (simp add: bloom_merge_def same_shape_def bloom_wf_def bits_of_map2)

lemma merge_shape_mismatch: "\<not> same_shape f g \<Longrightarrow> bloom_merge f g = f"
  by (auto simp: bloom_merge_def same_shape_def)

text \<open>A filter that can hold keys: the interface of an approximate set is interpreted on it.\<close>

definition bloom_good :: "bloom \<Rightarrow> bool" where
  "bloom_good f \<longleftrightarrow> bloom_wf f \<and> bf_bits f \<noteq> 0 \<and> bf_hashes f \<noteq> 0"

interpretation bloom_set: mergeable_set bloom_add maybe_contains bloom_good bloom_merge same_shape
  by unfold_locales
    (auto simp: bloom_good_def same_shape_def maybe_contains_iff bits_of_add bits_of_merge)

lemma bits_of_adds:
  "bloom_wf f \<Longrightarrow> bf_bits f \<noteq> 0 \<Longrightarrow>
   bits_of (bf_data (fold bloom_add ks f)) =
     bits_of (bf_data f) \<union> (\<Union>k \<in> set ks. key_bits (bf_bits f) (bf_hashes f) k)"
  by (induction ks arbitrary: f) (auto simp: bits_of_add)

lemma fold_add_params [simp]:
  "bf_bits (fold bloom_add ks f) = bf_bits f" "bf_hashes (fold bloom_add ks f) = bf_hashes f"
  by (induction ks arbitrary: f) auto

lemma bits_of_inj:
  assumes "length d = length e" "bits_of d = bits_of e"
  shows "d = e"
proof (rule nth_equalityI)
  fix i assume i: "i < length d"
  have "bit (d ! i) k \<longleftrightarrow> bit (e ! i) k" if "k < 8" for k
  proof -
    have "8 * i + k \<in> bits_of d \<longleftrightarrow> 8 * i + k \<in> bits_of e"
      using assms(2) by simp
    then show ?thesis
      using i assms(1) that by (simp add: bits_of_def)
  qed
  then show "d ! i = e ! i"
    by (intro bit_word_eqI) simp
qed (rule assms(1))

subsection \<open>The hexadecimal form\<close>

lemma less_16_cases: "n < (16 :: nat) \<Longrightarrow> n \<in> set [0..<16]"
  by simp

lemma hex_value_char:
  "unat b < 16 \<Longrightarrow> hex_value (hex_char b) = int (unat b)"
proof -
  have all: "\<forall>n \<in> set [0..<16]. hex_value (''0123456789abcdef'' ! n) = int n"
    by (simp add: hex_value_def upt_conv_Cons Let_def)
  assume "unat b < 16"
  then show ?thesis
    unfolding hex_char_def using less_16_cases all by blast
qed

lemma nibble_less: "unat ((b :: u8) AND 15) < 16"
proof -
  have "b AND 15 \<le> 15" by (rule word_and_le1)
  then show ?thesis by (simp add: word_le_nat_alt)
qed

lemma byte_nibbles:
  "word_of_int (push_bit 4 (uint (drop_bit 4 b AND 15)) OR uint (b AND 15)) = (b :: u8)"
proof -
  have mask: "(15 :: u8) = mask 4"
    by (simp add: mask_eq_exp_minus_1)
  show ?thesis
    unfolding mask
    by (intro bit_word_eqI) (auto simp: bit_simps bit_word_of_int_iff)
qed

lemma hex_bytes_to_hex:
  "hex_bytes (concat (map (\<lambda>b. [hex_char (drop_bit 4 b AND 15), hex_char (b AND 15)]) bs)) = Some bs"
proof (induction bs)
  case (Cons b bs)
  then show ?case
    by (simp add: hex_value_char nibble_less byte_nibbles Let_def)
qed simp

lemma length_to_hex: "length (to_hex f) = 2 * length (bf_data f)"
  by (simp add: to_hex_def length_concat comp_def sum_list_triv)

lemma from_hex_to_hex: "bloom_wf f \<Longrightarrow> from_hex (bf_bits f) (bf_hashes f) (to_hex f) = Some f"
  using length_to_hex [of f] by (simp add: from_hex_def bloom_wf_def to_hex_def hex_bytes_to_hex)

lemma hex_bytes_length: "hex_bytes h = Some bs \<Longrightarrow> length bs = length h div 2"
  by (induction h arbitrary: bs rule: hex_bytes.induct) (auto simp: Let_def split: if_splits)

lemma from_hex_shape:
  "from_hex bits hashes h = Some f \<Longrightarrow>
   bf_bits f = bits \<and> bf_hashes f = hashes \<and> length (bf_data f) = unat (byte_size bits)"
  by (auto simp: from_hex_def hex_bytes_length split: if_splits)

lemma from_hex_wf:
  "from_hex bits hashes h = Some f \<Longrightarrow> unat bits + 7 < 2 ^ 64 \<Longrightarrow> bloom_wf f"
  by (auto simp: bloom_wf_def dest: from_hex_shape)

interpretation bloom_hex: codec to_hex "from_hex bits hashes"
  "\<lambda>f. bloom_wf f \<and> bf_bits f = bits \<and> bf_hashes f = hashes" for bits hashes
  by unfold_locales (auto dest: from_hex_to_hex)

lemma hex_bytes_None:
  "even (length h) \<Longrightarrow> hex_bytes h = None \<longleftrightarrow> (\<exists>c \<in> set h. hex_value c < 0)"
  by (induction h rule: hex_bytes.induct) (auto simp: Let_def)

lemma from_hex_None:
  "from_hex bits hashes h = None \<longleftrightarrow>
   length h \<noteq> 2 * unat (byte_size bits) \<or> (\<exists>c \<in> set h. hex_value c < 0)"
  by (auto simp: from_hex_def hex_bytes_None mult.commute)

text \<open>The digits that are accepted, and what an accepted text stands for.\<close>

lemma hex_value_digits: "0 \<le> hex_value c \<longleftrightarrow> c \<in> set ''0123456789abcdefABCDEF''"
proof
  assume c: "0 \<le> hex_value c"
  let ?n = "of_char c :: nat"
  have "(of_char c :: int) = int ?n"
    by (rule of_nat_of_char [symmetric])
  then have "48 \<le> ?n \<and> ?n < 58 \<or> 97 \<le> ?n \<and> ?n < 103 \<or> 65 \<le> ?n \<and> ?n < 71"
    using c unfolding hex_value_def Let_def by (simp only: split: if_splits) presburger+
  then have "?n \<in> set ([48..<58] @ [97..<103] @ [65..<71])"
    unfolding set_append set_upt by simp
  moreover have "\<forall>n \<in> set ([48..<58] @ [97..<103] @ [65..<71]). char_of n \<in> set ''0123456789abcdefABCDEF''"
    by code_simp
  ultimately have "char_of ?n \<in> set ''0123456789abcdefABCDEF''"
    by blast
  then show "c \<in> set ''0123456789abcdefABCDEF''"
    by simp
next
  assume "c \<in> set ''0123456789abcdefABCDEF''"
  then show "0 \<le> hex_value c"
    by (auto simp: hex_value_def)
qed

lemma lower_digits:
  "(char_of (97 :: nat) :: char) = CHR ''a''" "(char_of (98 :: nat) :: char) = CHR ''b''"
  "(char_of (99 :: nat) :: char) = CHR ''c''" "(char_of (100 :: nat) :: char) = CHR ''d''"
  "(char_of (101 :: nat) :: char) = CHR ''e''" "(char_of (102 :: nat) :: char) = CHR ''f''"
  by (simp_all only: char_of_eq_iff) code_simp+

lemma hex_digit_lower:
  "0 \<le> hex_value c \<Longrightarrow> take_bit 4 (hex_value c) = hex_value c \<and> hex_char (word_of_int (hex_value c)) = to_lower c"
  unfolding hex_value_digits
  by (auto simp: hex_value_def hex_char_def to_lower_def take_bit_eq_mod lower_digits)

lemma byte_of_nibbles:
  assumes "take_bit 4 hi = hi" "take_bit 4 lo = lo"
  shows "drop_bit 4 (word_of_int (push_bit 4 hi OR lo) :: u8) AND 15 = word_of_int hi"
    "(word_of_int (push_bit 4 hi OR lo) :: u8) AND 15 = word_of_int lo"
proof -
  have mask: "(15 :: u8) = mask 4"
    by (simp add: mask_eq_exp_minus_1)
  have hi: "bit hi n \<Longrightarrow> n < 4" and lo: "bit lo n \<Longrightarrow> n < 4" for n
    using arg_cong [OF assms(1), of "\<lambda>x. bit x n"] arg_cong [OF assms(2), of "\<lambda>x. bit x n"]
    by (auto simp: bit_take_bit_iff)
  show "drop_bit 4 (word_of_int (push_bit 4 hi OR lo) :: u8) AND 15 = word_of_int hi"
    unfolding mask by (rule bit_word_eqI) (auto simp: bit_simps bit_word_of_int_iff dest: hi lo)
  show "(word_of_int (push_bit 4 hi OR lo) :: u8) AND 15 = word_of_int lo"
    unfolding mask by (rule bit_word_eqI) (auto simp: bit_simps bit_word_of_int_iff dest: hi lo)
qed

lemma hex_bytes_lower:
  "hex_bytes h = Some bs \<Longrightarrow> even (length h) \<Longrightarrow>
   concat (map (\<lambda>b. [hex_char (drop_bit 4 b AND 15), hex_char (b AND 15)]) bs) = map to_lower h"
proof (induction h arbitrary: bs rule: hex_bytes.induct)
  case (1 a b rest)
  then obtain cs where "0 \<le> hex_value a" "0 \<le> hex_value b" "hex_bytes rest = Some cs"
      "bs = word_of_int (push_bit 4 (hex_value a) OR hex_value b) # cs"
    by (auto simp: Let_def split: if_splits)
  with 1 show ?case
    using hex_digit_lower [of a] hex_digit_lower [of b] byte_of_nibbles [of "hex_value a" "hex_value b"] by simp
qed auto

lemma from_hex_lower: "from_hex bits hashes h = Some g \<Longrightarrow> to_hex g = map to_lower h"
  by (auto simp: from_hex_def to_hex_def split: if_splits dest!: hex_bytes_lower)

subsection \<open>The fill ratio\<close>

lemma bits_of_snoc:
  "bits_of (d @ [b]) = bits_of d \<union> (\<lambda>i. 8 * length d + i) ` {i. i < 8 \<and> bit b i}"
proof -
  have "n \<in> bits_of (d @ [b]) \<longleftrightarrow>
      n \<in> bits_of d \<or> n \<in> (\<lambda>i. 8 * length d + i) ` {i. i < 8 \<and> bit b i}" for n
  proof (cases "n < 8 * length d")
    case True
    then have "n div 8 < length d" by linarith
    with True show ?thesis by (auto simp: bits_of_def nth_append)
  next
    case False
    show ?thesis
    proof (cases "n < 8 * length d + 8")
      case True
      with False obtain k where k: "n = 8 * length d + k" "k < 8"
        by (metis add_less_cancel_left le_Suc_ex not_less)
      then have "n div 8 = length d" "n mod 8 = k" by simp_all
      with k show ?thesis
        by (auto simp: bits_of_def nth_append image_iff)
    qed (auto simp: bits_of_def)
  qed
  then show ?thesis by blast
qed

lemma bits_of_bound: "n \<in> bits_of d \<Longrightarrow> n < 8 * length d"
  by (simp add: bits_of_def)

lemma finite_bits_of [simp]: "finite (bits_of d)"
  by (rule finite_subset [of _ "{..<8 * length d}"]) (auto simp: bits_of_def)

lemma popcount_card: "popcount b = card {i. i < 8 \<and> bit b i}"
proof -
  have "{i. i < 8 \<and> bit b i} = set (filter (bit b) [0..<8])"
    by auto
  then show ?thesis
    unfolding popcount_def by (simp only: distinct_card distinct_filter distinct_upt)
qed

lemma card_bits_of: "sum_list (map popcount d) = card (bits_of d)"
proof (induction d rule: rev_induct)
  case Nil
  then show ?case by (simp add: bits_of_def)
next
  case (snoc b d)
  have "card (bits_of (d @ [b])) = card (bits_of d) + card ((\<lambda>i. 8 * length d + i) ` {i. i < 8 \<and> bit b i})"
    unfolding bits_of_snoc by (rule card_Un_disjoint) (auto dest: bits_of_bound)
  also have "card ((\<lambda>i. 8 * length d + i) ` {i. i < 8 \<and> bit b i}) = popcount b"
    by (simp add: popcount_card card_image)
  finally show ?case using snoc by simp
qed

text \<open>No bit beyond the bit count is set: true of a new filter and kept by insertion and merging, but
  not established by \<^const>\<open>from_hex\<close>, which takes the last byte as it comes.\<close>

definition padding_clear :: "bloom \<Rightarrow> bool" where
  "padding_clear f \<longleftrightarrow> bits_of (bf_data f) \<subseteq> {..<unat (bf_bits f)}"

lemma padding_clear_new [simp]: "padding_clear (bloom_new bits hashes)"
  by (simp add: padding_clear_def)

lemma padding_clear_add:
  assumes "bloom_wf f" "padding_clear f"
  shows "padding_clear (bloom_add s f)"
proof (cases "bf_bits f = 0")
  case True
  with assms show ?thesis by (simp add: bloom_add_def)
next
  case False
  with assms show ?thesis
    by (auto simp: padding_clear_def bits_of_add dest: key_bits_bound)
qed

lemma padding_clear_merge:
  "bloom_wf f \<Longrightarrow> bloom_wf g \<Longrightarrow> padding_clear f \<Longrightarrow> padding_clear g \<Longrightarrow> padding_clear (bloom_merge f g)"
  by (cases "same_shape f g")
    (auto simp: padding_clear_def bits_of_merge same_shape_def merge_shape_mismatch)

lemma fill_ratio_exact:
  assumes "bloom_wf f" "unat (bf_bits f) = b" "0 < b" "b < 2 ^ 53" "bits_set f < 2 ^ 53"
  shows "fill_ratio f = round_double (of_nat (bits_set f) / of_nat b)"
proof -
  have "bf_data f \<noteq> []" "bf_bits f \<noteq> 0"
    using wf_in_range [OF assms(1), of 0] assms(2,3) by auto
  with assms(2) have "fill_ratio f = ddiv (double_of_nat (bits_set f)) (double_of_nat b)"
    by (simp add: fill_ratio_def)
  with assms(3-) show ?thesis
    by (simp add: double_of_nat_exact)
qed

lemma fill_ratio_unit:
  assumes "bloom_wf f" "unat (bf_bits f) < 2 ^ 53" "padding_clear f"
  shows "\<exists>r. fill_ratio f = DFin r \<and> 0 \<le> r \<and> r \<le> 1"
proof (cases "unat (bf_bits f) = 0")
  case True
  then show ?thesis by (simp add: fill_ratio_def unat_eq_zero)
next
  case False
  define b where "b = unat (bf_bits f)"
  have le: "bits_set f \<le> b"
    using assms(3) card_mono [of "{..<unat (bf_bits f)}" "bits_of (bf_data f)"]
    by (simp add: bits_set_def card_bits_of padding_clear_def b_def)
  have b: "0 < b" "b < 2 ^ 53"
    using False assms(2) by (simp_all add: b_def)
  with assms le have "fill_ratio f = round_double (of_nat (bits_set f) / of_nat b)"
    by (intro fill_ratio_exact) (auto simp: b_def)
  moreover have "(of_nat (bits_set f) :: rat) / of_nat b \<le> 1"
    using le b by simp
  ultimately show ?thesis
    using round_double_unit [of "of_nat (bits_set f) / of_nat b"] by simp
qed

subsection \<open>Properties\<close>

text \<open>C19. Exactness. After any batch of insertions into a new filter, a key is reported present exactly
  when every bit position it hashes to is one of the positions of the inserted keys: false
  positives come from hash collisions only, and there are no false negatives. The same holds of a filter that
  was merged with another of its shape and had keys added afterwards, for the keys of all three batches.\<close>

theorem bloom_membership:
  assumes "unat bits + 7 < 2 ^ 64" "bits \<noteq> 0" "hashes \<noteq> 0"
  shows "let f = fold bloom_add ks (bloom_new bits hashes); g = fold bloom_add js (bloom_new bits hashes);
             h = fold bloom_add ls (bloom_merge f g)
     in (maybe_contains f k \<longleftrightarrow> key_bits bits hashes k \<subseteq> (\<Union>x \<in> set ks. key_bits bits hashes x))
      \<and> (maybe_contains h k \<longleftrightarrow> key_bits bits hashes k \<subseteq> (\<Union>x \<in> set ks \<union> set js \<union> set ls. key_bits bits hashes x))
      \<and> list_all (maybe_contains h) (ks @ js @ ls)"
proof -
  let ?new = "bloom_new bits hashes"
  let ?f = "fold bloom_add ks ?new" and ?g = "fold bloom_add js ?new"
  let ?h = "fold bloom_add ls (bloom_merge ?f ?g)"
  have new: "bloom_good ?new"
    using assms by (simp add: bloom_good_def bloom_wf_new)
  have good: "bloom_good ?f" "bloom_good ?g"
    by (rule bloom_set.good_adds [OF new])+
  then have merged: "bloom_good (bloom_merge ?f ?g)"
    by (simp add: bloom_good_def)
  have h: "bloom_good ?h"
    by (rule bloom_set.good_adds [OF merged])
  have "same_shape ?f ?g"
    by (simp add: same_shape_def)
  then have "bits_of (bf_data ?h) = (\<Union>x \<in> set ks \<union> set js \<union> set ls. key_bits bits hashes x)"
    using good merged new assms(2) by (auto simp: bloom_good_def bits_of_adds bits_of_merge)
  then have "maybe_contains ?h x \<longleftrightarrow> key_bits bits hashes x \<subseteq> (\<Union>x \<in> set ks \<union> set js \<union> set ls. key_bits bits hashes x)" for x
    using h by (simp add: bloom_good_def maybe_contains_iff)
  moreover have "maybe_contains ?f k \<longleftrightarrow> key_bits bits hashes k \<subseteq> (\<Union>x \<in> set ks. key_bits bits hashes x)"
    using good(1) new by (simp add: bloom_good_def maybe_contains_iff bits_of_adds)
  ultimately show ?thesis
    by (auto simp: Let_def list_all_iff)
qed

theorem bloom_membership_witness:
  "maybe_contains (fold bloom_add [''c''] (bloom_merge (fold bloom_add [''a''] (bloom_new 512 3)) (fold bloom_add [''b''] (bloom_new 512 3)))) ''b''"
  using bloom_membership [of 512 3 "[''a'']" "[''b'']" "[''c'']" "''d''"] by (simp add: Let_def)

text \<open>C28. Transport. A filter built from any batch of keys and sent in hexadecimal is parsed by a
  receiver with the same parameters into the same filter, which reports every key of the batch. A receiver accepts
  exactly the texts of two hexadecimal digits for each byte of its filters, in either case, and an accepted
  text stands for the filter that is written as this text in lower case.\<close>

theorem bloom_transport:
  assumes "unat bits + 7 < 2 ^ 64" "bits \<noteq> 0" "hashes \<noteq> 0"
  shows "(let f = fold bloom_add ks (bloom_new bits hashes) in from_hex bits hashes (to_hex f) = Some f \<and> list_all (maybe_contains f) ks)
     \<and> (case from_hex bits hashes h of
          Some g \<Rightarrow> length h = 2 * ((unat bits + 7) div 8) \<and> set h \<subseteq> set ''0123456789abcdefABCDEF''
            \<and> bf_bits g = bits \<and> bf_hashes g = hashes \<and> to_hex g = map to_lower h
        | None \<Rightarrow> length h \<noteq> 2 * ((unat bits + 7) div 8) \<or> \<not> set h \<subseteq> set ''0123456789abcdefABCDEF'')"
proof
  let ?f = "fold bloom_add ks (bloom_new bits hashes)"
  have good: "bloom_good (bloom_new bits hashes)"
    using assms by (simp add: bloom_good_def bloom_wf_new)
  then have "bloom_wf ?f"
    using bloom_set.good_adds [of "bloom_new bits hashes" ks] by (simp add: bloom_good_def)
  then have "from_hex bits hashes (to_hex ?f) = Some ?f"
    using from_hex_to_hex [of ?f] by simp
  with good show "let f = ?f in from_hex bits hashes (to_hex f) = Some f \<and> list_all (maybe_contains f) ks"
    by (simp add: Let_def list_all_iff bloom_set.adds_contain)
  have exact: "from_hex bits hashes h = None \<longleftrightarrow>
      length h \<noteq> 2 * ((unat bits + 7) div 8) \<or> \<not> set h \<subseteq> set ''0123456789abcdefABCDEF''"
    unfolding from_hex_None byte_size_unat [OF assms(1)] not_le [symmetric] hex_value_digits by blast
  show "case from_hex bits hashes h of
      Some g \<Rightarrow> length h = 2 * ((unat bits + 7) div 8) \<and> set h \<subseteq> set ''0123456789abcdefABCDEF''
        \<and> bf_bits g = bits \<and> bf_hashes g = hashes \<and> to_hex g = map to_lower h
    | None \<Rightarrow> length h \<noteq> 2 * ((unat bits + 7) div 8) \<or> \<not> set h \<subseteq> set ''0123456789abcdefABCDEF''"
  proof (cases "from_hex bits hashes h")
    case None
    with exact show ?thesis
      unfolding None option.case by blast
  next
    case (Some g)
    then have "length h = 2 * ((unat bits + 7) div 8) \<and> set h \<subseteq> set ''0123456789abcdefABCDEF''"
      using exact Some by (simp only: option.distinct de_Morgan_disj not_not) simp
    then show ?thesis
      unfolding Some option.case using from_hex_shape [OF Some] from_hex_lower [OF Some] by blast
  qed
qed

theorem bloom_transport_witness:
  "from_hex 64 2 (to_hex (fold bloom_add [''alpha'', ''beta''] (bloom_new 64 2))) = Some (fold bloom_add [''alpha'', ''beta''] (bloom_new 64 2))
   \<and> from_hex 64 2 ''00112233445566g7'' = None"
  using bloom_transport [of 64 2 "[''alpha'', ''beta'']" "''00112233445566g7''"]
  by (auto simp: Let_def split: option.splits)

text \<open>Memory safety. In a well-formed filter every byte that insertion and lookup touch lies inside
  the vector, and insertion and merging keep the filter well-formed.\<close>

theorem bloom_accesses_in_bounds:
  assumes "bloom_wf f" "bf_bits f \<noteq> 0"
  shows "unat (bloom_index f h1 h2 i div 8) < length (bf_data f)
     \<and> bloom_wf (bloom_add s f) \<and> bloom_wf (bloom_merge f g)"
proof -
  have "unat (bloom_index f h1 h2 i) < unat (bf_bits f)"
    using assms by (simp add: bloom_index_def unat_mod_less)
  with assms(1) show ?thesis
    by (simp add: unat_div_distrib wf_in_range)
qed

theorem bloom_accesses_in_bounds_witness:
  "unat (bloom_index (bloom_new 13 3) 77 5 2 div 8) < length (bf_data (bloom_new 13 3))"
  using bloom_accesses_in_bounds [of "bloom_new 13 3" 77 5 2]
  by (simp add: bloom_wf_new)

text \<open>Fill ratio. The computed ratio of a filter built by insertions is a number between 0 and 1
  after rounding; a filter parsed from the wire has no such bound, because the padding bits of its
  last byte are taken as sent: with one bit configured, the byte \<open>ff\<close> gives the ratio 8.\<close>

theorem fill_ratio_range:
  assumes "unat bits < 2 ^ 53"
  shows "(\<exists>r. fill_ratio (fold bloom_add ks (bloom_new bits hashes)) = DFin r \<and> 0 \<le> r \<and> r \<le> 1)
     \<and> map_option fill_ratio (from_hex 1 1 ''ff'') = Some (DFin 8)"
proof -
  have "bloom_wf (fold bloom_add ks f) \<and> padding_clear (fold bloom_add ks f)"
    if "bloom_wf f" "padding_clear f" for f
    using that by (induction ks arbitrary: f) (auto simp: padding_clear_add)
  then have range: "\<exists>r. fill_ratio (fold bloom_add ks (bloom_new bits hashes)) = DFin r \<and> 0 \<le> r \<and> r \<le> 1"
    using assms by (intro fill_ratio_unit) (simp_all add: bloom_wf_new)
  have "from_hex 1 1 ''ff'' = Some \<lparr>bf_bits = 1, bf_hashes = 1, bf_data = [255]\<rparr>"
    by (simp add: from_hex_def byte_size_def hex_value_def Let_def)
  moreover have "fill_ratio \<lparr>bf_bits = 1, bf_hashes = 1, bf_data = [255]\<rparr> = DFin 8"
    using double_of_nat_exact [of 8, unfolded double_of_nat_def]
    by (simp add: fill_ratio_def bits_set_def popcount_def upt_conv_Cons double_of_nat_exact)
  ultimately show ?thesis
    using range by simp
qed

theorem fill_ratio_range_witness:
  "\<exists>r. fill_ratio (fold bloom_add [''alpha''] (bloom_new 512 3)) = DFin r \<and> 0 \<le> r \<and> r \<le> 1"
  using fill_ratio_range [of 512 "[''alpha'']" 3] by simp

end
