(* ===== verification/Content_Bf_Table.thy ===== *)
theory Content_Bf_Table
  imports Bloom_Filter Net_Address
begin

text \<open>
  \<^verbatim>\<open>tables/content_bf_table.cpp\<close>: the node's own Content-BF and the latest summary of every
  neighbour, with its age. A lookup first erases the summaries older than the TTL and then takes the
  first remaining one (in the container's traversal order) that may contain the key.
\<close>

subsection \<open>State and operations\<close>

record neighbor_entry =
  ne_filter :: bloom
  ne_updated :: time_ns
  ne_addr :: sockaddr_in

record content_table =
  ct_local :: bloom
  ct_ttl :: int
  ct_neighbors :: "neighbor_entry table"

definition content_table_new :: "u64 \<Rightarrow> u64 \<Rightarrow> int \<Rightarrow> content_table" where
  "content_table_new bits hashes ttl =
     \<lparr>ct_local = bloom_new bits hashes, ct_ttl = ttl, ct_neighbors = []\<rparr>"

definition add_local_key :: "string \<Rightarrow> content_table \<Rightarrow> content_table" where
  "add_local_key key ct = ct\<lparr>ct_local := bloom_add key (ct_local ct)\<rparr>"

definition local_snapshot :: "content_table \<Rightarrow> bloom" where
  "local_snapshot ct = ct_local ct"

definition update_neighbor :: "time_ns \<Rightarrow> sockaddr_in \<Rightarrow> bloom \<Rightarrow> content_table \<Rightarrow> content_table" where
  "update_neighbor now addr bf ct =
     ct\<lparr>ct_neighbors := AList.update (addr_to_string addr)
          \<lparr>ne_filter = bf, ne_updated = now, ne_addr = addr\<rparr> (ct_neighbors ct)\<rparr>"

definition neighbor_expired :: "int \<Rightarrow> time_ns \<Rightarrow> neighbor_entry \<Rightarrow> bool" where
  "neighbor_expired ttl now e \<longleftrightarrow> now - ne_updated e > ms_ns ttl"

definition content_prune :: "time_ns \<Rightarrow> content_table \<Rightarrow> content_table" where
  "content_prune now ct =
     (if ct_ttl ct \<le> 0 then ct
      else ct\<lparr>ct_neighbors := prune (neighbor_expired (ct_ttl ct) now) (ct_neighbors ct)\<rparr>)"

fun first_match :: "string \<Rightarrow> neighbor_entry table \<Rightarrow> sockaddr_in option" where
  "first_match key [] = None"
| "first_match key ((_, e) # rest) =
     (if maybe_contains (ne_filter e) key then Some (ne_addr e) else first_match key rest)"

definition select_neighbor :: "time_ns \<Rightarrow> string \<Rightarrow> content_table \<Rightarrow> sockaddr_in option \<times> content_table" where
  "select_neighbor now key ct0 =
     (let ct1 = content_prune now ct0 in (first_match key (ct_neighbors ct1), ct1))"

definition neighbor_count :: "content_table \<Rightarrow> nat" where
  "neighbor_count ct = length (ct_neighbors ct)"

interpretation neighbor_expiry: expiry "neighbor_expired ttl" for ttl
  by unfold_locales (simp add: neighbor_expired_def)

subsection \<open>Invariant\<close>

text \<open>Every summary is stored under the text form of its own address.\<close>

definition ct_wf :: "content_table \<Rightarrow> bool" where
  "ct_wf ct \<longleftrightarrow> wf_tbl (ct_neighbors ct)
     \<and> (\<forall>(k, e) \<in> set (ct_neighbors ct). k = addr_to_string (ne_addr e))"

lemma ct_wf_new [simp]: "ct_wf (content_table_new bits hashes ttl)"
  by (simp add: ct_wf_def content_table_new_def)

lemma ct_wf_add_local [simp]: "ct_wf (add_local_key k ct) = ct_wf ct"
  by (simp add: ct_wf_def add_local_key_def)

lemma ct_wf_update [simp]: "ct_wf ct \<Longrightarrow> ct_wf (update_neighbor now a f ct)"
  by (auto simp: ct_wf_def update_neighbor_def dest!: update_Nil_mem)

lemma ct_wf_prune [simp]: "ct_wf ct \<Longrightarrow> ct_wf (content_prune now ct)"
  by (auto simp: ct_wf_def content_prune_def prune_def)

lemma ct_wf_select [simp]: "ct_wf ct \<Longrightarrow> ct_wf (snd (select_neighbor now key ct))"
  by (simp add: select_neighbor_def Let_def)

subsection \<open>Selection\<close>

lemma first_match_None:
  "first_match key t = None \<longleftrightarrow> (\<forall>(k, e) \<in> set t. \<not> maybe_contains (ne_filter e) key)"
  by (induction key t rule: first_match.induct) auto

lemma first_match_Some:
  "first_match key t = Some a \<Longrightarrow> \<exists>(k, e) \<in> set t. maybe_contains (ne_filter e) key \<and> a = ne_addr e"
  by (induction key t rule: first_match.induct) (auto split: if_splits)

text \<open>The summaries a lookup at \<open>now\<close> may use.\<close>

definition live :: "content_table \<Rightarrow> time_ns \<Rightarrow> neighbor_entry \<Rightarrow> bool" where
  "live ct now e \<longleftrightarrow> e \<in> snd ` set (ct_neighbors ct)
     \<and> (ct_ttl ct \<le> 0 \<or> \<not> neighbor_expired (ct_ttl ct) now e)"

lemma live_prune: "e \<in> snd ` set (ct_neighbors (content_prune now ct)) \<longleftrightarrow> live ct now e"
  by (auto simp: live_def content_prune_def prune_def)

lemma select_neighbor_Some:
  "fst (select_neighbor now key ct) = Some a \<Longrightarrow>
   \<exists>e. live ct now e \<and> maybe_contains (ne_filter e) key \<and> a = ne_addr e"
  unfolding select_neighbor_def Let_def fst_conv
  by (drule first_match_Some) (force simp: live_prune [symmetric])

lemma select_neighbor_None:
  "fst (select_neighbor now key ct) = None \<longleftrightarrow>
   (\<forall>e. live ct now e \<longrightarrow> \<not> maybe_contains (ne_filter e) key)"
  unfolding select_neighbor_def Let_def fst_conv
  by (force simp: first_match_None live_prune [symmetric])

lemma update_neighbor_live:
  "ct_wf ct \<Longrightarrow> (0 < ct_ttl ct \<longrightarrow> later - now \<le> ms_ns (ct_ttl ct)) \<Longrightarrow>
   live (update_neighbor now a f ct) later \<lparr>ne_filter = f, ne_updated = now, ne_addr = a\<rparr>"
proof -
  assume wf: "ct_wf ct" and age: "0 < ct_ttl ct \<longrightarrow> later - now \<le> ms_ns (ct_ttl ct)"
  let ?e = "\<lparr>ne_filter = f, ne_updated = now, ne_addr = a\<rparr>"
  have "map_of (ct_neighbors (update_neighbor now a f ct)) (addr_to_string a) = Some ?e"
    by (simp add: update_neighbor_def tbl_simps)
  then have "?e \<in> snd ` set (ct_neighbors (update_neighbor now a f ct))"
    by (force dest: map_of_SomeD)
  moreover have "ct_ttl (update_neighbor now a f ct) = ct_ttl ct"
    by (simp add: update_neighbor_def)
  ultimately show ?thesis
    using age by (auto simp: live_def neighbor_expired_def)
qed

subsection \<open>Properties\<close>

text \<open>C27. Selection is exact. A summary may be used as long as it is not older than the TTL, or for ever when the TTL is not
  positive. A lookup answers with a neighbour exactly when some usable summary may contain the key,
  and then with the address of such a summary. It removes exactly the summaries that are too old, and nothing else changes.\<close>

theorem select_neighbor_exact:
  "let usable = (\<lambda>e. ct_ttl ct \<le> 0 \<or> now - ne_updated e \<le> 1000000 * ct_ttl ct); (found, ct') = select_neighbor now key ct
   in (case found of
         Some a \<Rightarrow> \<exists>e \<in> snd ` set (ct_neighbors ct). usable e \<and> maybe_contains (ne_filter e) key \<and> a = ne_addr e
       | None \<Rightarrow> \<not> (\<exists>e \<in> snd ` set (ct_neighbors ct). usable e \<and> maybe_contains (ne_filter e) key))
    \<and> ct' = ct\<lparr>ct_neighbors := filter (\<lambda>ke. usable (snd ke)) (ct_neighbors ct)\<rparr>"
proof -
  let ?usable = "\<lambda>e. ct_ttl ct \<le> 0 \<or> now - ne_updated e \<le> 1000000 * ct_ttl ct"
  have live: "live ct now e \<longleftrightarrow> e \<in> snd ` set (ct_neighbors ct) \<and> ?usable e" for e
    by (auto simp: live_def neighbor_expired_def ms_ns_def)
  have "case fst (select_neighbor now key ct) of
      Some a \<Rightarrow> \<exists>e. live ct now e \<and> maybe_contains (ne_filter e) key \<and> a = ne_addr e
    | None \<Rightarrow> \<not> (\<exists>e. live ct now e \<and> maybe_contains (ne_filter e) key)"
    using select_neighbor_Some select_neighbor_None by (auto split: option.splits)
  moreover have "snd (select_neighbor now key ct) = ct\<lparr>ct_neighbors := filter (\<lambda>ke. ?usable (snd ke)) (ct_neighbors ct)\<rparr>"
    by (cases "ct_ttl ct \<le> 0") (auto simp: select_neighbor_def content_prune_def prune_def neighbor_expired_def ms_ns_def not_less mult.commute
        intro!: filter_cong [OF refl])
  ultimately show ?thesis
    unfolding live Let_def split_beta by (auto split: option.splits)
qed

text \<open>A neighbour's key is found. If a neighbour's summary was built from keys that include the wanted one,
  travelled as hexadecimal, and was stored no longer than the TTL ago, a lookup of the key finds a
  neighbour (perhaps another one whose summary also matches).\<close>

theorem stored_summary_is_found:
  assumes "ct_wf ct" "unat bits + 7 < 2 ^ 64" "bits \<noteq> 0" "hashes \<noteq> 0" "key \<in> set ks"
    and "from_hex bits hashes (to_hex (fold bloom_add ks (bloom_new bits hashes))) = Some f"
    and "0 < ct_ttl ct \<Longrightarrow> later - now \<le> ms_ns (ct_ttl ct)"
  shows "fst (select_neighbor later key (update_neighbor now a f ct)) \<noteq> None"
proof -
  let ?g = "fold bloom_add ks (bloom_new bits hashes)"
  have good: "bloom_good (bloom_new bits hashes)"
    using assms(2-4) by (simp add: bloom_good_def bloom_wf_new)
  then have "bloom_wf ?g"
    using bloom_set.good_adds [of "bloom_new bits hashes" ks] by (simp add: bloom_good_def)
  then have "f = ?g"
    using from_hex_to_hex [of ?g] assms(6) by simp
  then have "maybe_contains f key"
    using bloom_set.adds_contain [OF good assms(5)] by simp
  moreover have "live (update_neighbor now a f ct) later \<lparr>ne_filter = f, ne_updated = now, ne_addr = a\<rparr>"
    using assms(1,7) by (simp add: update_neighbor_live)
  ultimately show ?thesis
    unfolding select_neighbor_None by force
qed

theorem stored_summary_is_found_witness:
  "fst (select_neighbor 2000000 ''alpha'' (update_neighbor 1000000 zero_addr
      (fold bloom_add [''alpha'', ''beta''] (bloom_new 64 2)) (content_table_new 64 2 3000))) \<noteq> None"
proof (rule stored_summary_is_found [where bits = 64 and hashes = 2 and ks = "[''alpha'', ''beta'']"])
  have "bloom_wf (fold bloom_add [''alpha'', ''beta''] (bloom_new 64 2))"
    by (simp add: bloom_wf_new)
  then show "from_hex 64 2 (to_hex (fold bloom_add [''alpha'', ''beta''] (bloom_new 64 2)))
      = Some (fold bloom_add [''alpha'', ''beta''] (bloom_new 64 2))"
    using from_hex_to_hex [of "fold bloom_add [''alpha'', ''beta''] (bloom_new 64 2)"] by simp
qed (simp_all add: content_table_new_def ms_ns_def ct_wf_def)

end
