(* ===== verification/Content_Bf_Fallback.thy ===== *)
theory Content_Bf_Fallback
  imports Wire_Message
begin

text \<open>
  \<^verbatim>\<open>tables/content_bf_fallback.cpp\<close>: the requests that were sent to one selected neighbour and are to be
  broadcast when no DATA comes back within the window. The specification is a map from
  origin and key to a deadline; the table, whose key is the text \<^verbatim>\<open>origin|key\<close>, refines it on
  every sequence of calls whose origins hold no bar (every origin that was read from the wire).
\<close>

subsection \<open>State and operations\<close>

record fallback_entry =
  fe_key :: string
  fe_origin :: string
  fe_deadline :: time_ns

record fallback =
  fb_window :: int
  fb_entries :: "fallback_entry table"

definition fallback_new :: "int \<Rightarrow> fallback" where
  "fallback_new window = \<lparr>fb_window = window, fb_entries = []\<rparr>"

definition make_key :: "string \<Rightarrow> string \<Rightarrow> string" where
  "make_key origin key = origin @ ''|'' @ key"

definition schedule :: "time_ns \<Rightarrow> string \<Rightarrow> string \<Rightarrow> fallback \<Rightarrow> bool \<times> fallback" where
  "schedule now key origin f =
     (if fb_window f \<le> 0 then (False, f)
      else let entry = \<lparr>fe_key = key, fe_origin = origin, fe_deadline = now + ms_ns (fb_window f)\<rparr>
           in (True, f\<lparr>fb_entries := AList.update (make_key origin key) entry (fb_entries f)\<rparr>))"

text \<open>\<^verbatim>\<open>erase\<close> returns the number of entries removed.\<close>

definition cancel :: "string \<Rightarrow> string \<Rightarrow> fallback \<Rightarrow> bool \<times> fallback" where
  "cancel key origin f =
     (map_of (fb_entries f) (make_key origin key) \<noteq> None,
      f\<lparr>fb_entries := AList.delete (make_key origin key) (fb_entries f)\<rparr>)"

definition is_due :: "time_ns \<Rightarrow> fallback_entry \<Rightarrow> bool" where
  "is_due now e \<longleftrightarrow> now \<ge> fe_deadline e"

fun take_loop :: "time_ns \<Rightarrow> fallback_entry table \<Rightarrow> (string \<times> string) list \<times> fallback_entry table" where
  "take_loop now [] = ([], [])"
| "take_loop now ((k, e) # rest) =
     (let (due, kept) = take_loop now rest
      in if is_due now e then ((fe_key e, fe_origin e) # due, kept) else (due, (k, e) # kept))"

definition take_due :: "time_ns \<Rightarrow> fallback \<Rightarrow> (string \<times> string) list \<times> fallback" where
  "take_due now f =
     (if fb_window f \<le> 0 then ([], f)
      else let (due, kept) = take_loop now (fb_entries f) in (due, f\<lparr>fb_entries := kept\<rparr>))"

definition pending_count :: "fallback \<Rightarrow> nat" where
  "pending_count f = length (fb_entries f)"

interpretation fallback_expiry: expiry is_due
  by unfold_locales (simp add: is_due_def)

subsection \<open>Invariant\<close>

text \<open>Every entry is stored under the text of its own origin and key, and the origin holds no bar.\<close>

definition fb_entry_ok :: "string \<times> fallback_entry \<Rightarrow> bool" where
  "fb_entry_ok ke \<longleftrightarrow> fst ke = make_key (fe_origin (snd ke)) (fe_key (snd ke)) \<and> bar_free (fe_origin (snd ke))"

definition fb_wf :: "fallback \<Rightarrow> bool" where
  "fb_wf f \<longleftrightarrow> wf_tbl (fb_entries f) \<and> list_all fb_entry_ok (fb_entries f)"

lemma fb_wf_new [simp]: "fb_wf (fallback_new w)"
  by (simp add: fb_wf_def fallback_new_def)

lemma fb_window_new [simp]: "fb_window (fallback_new w) = w"
  by (simp add: fallback_new_def)

lemma make_key_inj:
  "bar_free o1 \<Longrightarrow> bar_free o2 \<Longrightarrow> make_key o1 k1 = make_key o2 k2 \<longleftrightarrow> o1 = o2 \<and> k1 = k2"
  by (simp add: make_key_def bar_free_def sep_prefix_inj)

lemma take_loop_kept: "snd (take_loop now t) = prune (is_due now) t"
  by (induction now t rule: take_loop.induct) (auto simp: prune_def split: prod.splits)

lemma take_loop_due:
  "fst (take_loop now t) = map (\<lambda>e. (fe_key e, fe_origin e)) (filter (is_due now) (map snd t))"
  by (induction now t rule: take_loop.induct) (auto split: prod.splits)

lemma fb_wf_schedule [simp]: "fb_wf f \<Longrightarrow> bar_free origin \<Longrightarrow> fb_wf (snd (schedule now key origin f))"
  by (auto simp: fb_wf_def schedule_def Let_def fb_entry_ok_def list_all_iff dest!: update_Nil_mem)

lemma fb_wf_cancel [simp]: "fb_wf f \<Longrightarrow> fb_wf (snd (cancel key origin f))"
  by (auto simp: fb_wf_def cancel_def list_all_iff dest!: set_delete_mem)

lemma fb_wf_take_due [simp]: "fb_wf f \<Longrightarrow> fb_wf (snd (take_due now f))"
  using take_loop_kept [of now "fb_entries f"]
  by (auto simp: fb_wf_def take_due_def list_all_iff prune_def split: prod.splits)

lemma window_kept [simp]:
  "fb_window (snd (schedule now key origin f)) = fb_window f"
  "fb_window (snd (cancel key origin f)) = fb_window f"
  "fb_window (snd (take_due now f)) = fb_window f"
  by (auto simp: schedule_def cancel_def take_due_def Let_def split: prod.splits)

subsection \<open>The specification: a map of deadlines\<close>

type_synonym deadlines = "string \<times> string \<Rightarrow> time_ns option"

datatype fb_call = Schedule time_ns string string | Cancel string string | TakeDue time_ns

datatype fb_reply = Answer bool | Due "(string \<times> string) list"

fun fb_step :: "fb_call \<Rightarrow> fallback \<Rightarrow> fb_reply \<times> fallback" where
  "fb_step (Schedule now key origin) f = (let (b, f') = schedule now key origin f in (Answer b, f'))"
| "fb_step (Cancel key origin) f = (let (b, f') = cancel key origin f in (Answer b, f'))"
| "fb_step (TakeDue now) f = (let (due, f') = take_due now f in (Due due, f'))"

fun deadline_step :: "int \<Rightarrow> fb_call \<Rightarrow> deadlines \<Rightarrow> deadlines" where
  "deadline_step w (Schedule now key origin) d =
     (if 0 < w then d((origin, key) \<mapsto> now + ms_ns w) else d)"
| "deadline_step w (Cancel key origin) d = d((origin, key) := None)"
| "deadline_step w (TakeDue now) d =
     (\<lambda>ok. case d ok of None \<Rightarrow> None | Some t \<Rightarrow> if 0 < w \<and> t \<le> now then None else Some t)"

fun reply_ok :: "int \<Rightarrow> fb_call \<Rightarrow> deadlines \<Rightarrow> fb_reply \<Rightarrow> bool" where
  "reply_ok w (Schedule now key origin) d r \<longleftrightarrow> r = Answer (0 < w)"
| "reply_ok w (Cancel key origin) d r \<longleftrightarrow> r = Answer (d (origin, key) \<noteq> None)"
| "reply_ok w (TakeDue now) d r \<longleftrightarrow>
     (case r of Answer b \<Rightarrow> False
      | Due due \<Rightarrow> distinct due \<and>
          (\<forall>key origin. (key, origin) \<in> set due \<longleftrightarrow>
             0 < w \<and> (case d (origin, key) of None \<Rightarrow> False | Some t \<Rightarrow> t \<le> now)))"

fun fb_run :: "fallback \<Rightarrow> fb_call list \<Rightarrow> fb_reply list" where
  "fb_run f [] = []"
| "fb_run f (c # cs) = (let (r, f') = fb_step c f in r # fb_run f' cs)"

fun fb_spec :: "int \<Rightarrow> deadlines \<Rightarrow> fb_call list \<Rightarrow> fb_reply list \<Rightarrow> bool" where
  "fb_spec w d [] rs \<longleftrightarrow> rs = []"
| "fb_spec w d (c # cs) rs \<longleftrightarrow>
     (case rs of [] \<Rightarrow> False | r # rs' \<Rightarrow> reply_ok w c d r \<and> fb_spec w (deadline_step w c d) cs rs')"

fun call_ok :: "fb_call \<Rightarrow> bool" where
  "call_ok (Schedule _ _ origin) = bar_free origin"
| "call_ok (Cancel _ origin) = bar_free origin"
| "call_ok (TakeDue _) = True"

definition deadlines_of :: "fallback \<Rightarrow> deadlines" where
  "deadlines_of f = (\<lambda>(origin, key).
     if bar_free origin then map_option fe_deadline (map_of (fb_entries f) (make_key origin key)) else None)"

lemma fb_wf_step: "fb_wf f \<Longrightarrow> call_ok c \<Longrightarrow> fb_wf (snd (fb_step c f))"
  by (cases c) (auto simp: split_beta Let_def)

lemma fb_step_window: "fb_window (snd (fb_step c f)) = fb_window f"
  by (cases c) (auto simp: split_beta Let_def)

lemma fb_wf_steps:
  "fb_wf f \<Longrightarrow> list_all call_ok cs \<Longrightarrow>
   fb_wf (fold (\<lambda>c f. snd (fb_step c f)) cs f) \<and> fb_window (fold (\<lambda>c f. snd (fb_step c f)) cs f) = fb_window f"
  by (induction cs arbitrary: f) (auto simp: fb_wf_step fb_step_window)

lemma entries_distinct:
  assumes "fb_wf f" shows "distinct (map (\<lambda>e. (fe_key e, fe_origin e)) (map snd (fb_entries f)))"
proof -
  have d: "distinct (fb_entries f)" and i: "inj_on fst (set (fb_entries f))"
    and ok: "\<And>x. x \<in> set (fb_entries f) \<Longrightarrow> fst x = make_key (fe_origin (snd x)) (fe_key (snd x))"
    using assms by (auto simp: fb_wf_def wf_tbl_def distinct_map list_all_iff fb_entry_ok_def)
  have "inj_on (\<lambda>ke. (fe_key (snd ke), fe_origin (snd ke))) (set (fb_entries f))"
    by (rule inj_onI) (metis Pair_inject ok i inj_onD)
  with d show ?thesis
    by (simp add: distinct_map comp_def)
qed

lemma entry_of:
  assumes "fb_wf f" "bar_free origin"
  shows "(\<exists>e \<in> snd ` set (fb_entries f). fe_key e = key \<and> fe_origin e = origin \<and> p e) \<longleftrightarrow>
    (case map_of (fb_entries f) (make_key origin key) of None \<Rightarrow> False | Some e \<Rightarrow> p e)"
proof -
  have wf: "wf_tbl (fb_entries f)" and ok: "\<And>k e. (k, e) \<in> set (fb_entries f) \<Longrightarrow>
      k = make_key (fe_origin e) (fe_key e) \<and> bar_free (fe_origin e)"
    using assms(1) by (auto simp: fb_wf_def list_all_iff fb_entry_ok_def)
  show ?thesis
  proof (cases "map_of (fb_entries f) (make_key origin key)")
    case None
    have "False" if m: "e \<in> snd ` set (fb_entries f)" and "fe_key e = key" "fe_origin e = origin" for e
    proof -
      obtain k where "(k, e) \<in> set (fb_entries f)" using m by auto
      then show False
        using ok [of k e] that(2,3) None wf_tbl_mem [OF wf, of k e] by simp
    qed
    with None show ?thesis by auto
  next
    case (Some e)
    then have mem: "(make_key origin key, e) \<in> set (fb_entries f)"
      by (rule map_of_SomeD)
    then have own: "fe_origin e = origin" "fe_key e = key"
      using ok [OF mem] make_key_inj [OF assms(2), of "fe_origin e" key "fe_key e"] by simp_all
    have only: "e' = e" if m: "e' \<in> snd ` set (fb_entries f)" and "fe_key e' = key" "fe_origin e' = origin" for e'
    proof -
      obtain k where "(k, e') \<in> set (fb_entries f)" using m by auto
      then show ?thesis
        using ok [of k e'] that(2,3) Some wf_tbl_mem [OF wf] by auto
    qed
    have "e \<in> snd ` set (fb_entries f)"
      using mem by force
    then have "(\<exists>e' \<in> snd ` set (fb_entries f). fe_key e' = key \<and> fe_origin e' = origin \<and> p e') \<longleftrightarrow> p e"
      using own only by metis
    with Some show ?thesis by (simp only: option.case)
  qed
qed

lemma deadlines_of_prune:
  "fb_wf f \<Longrightarrow> deadlines_of (f\<lparr>fb_entries := prune (is_due now) (fb_entries f)\<rparr>) =
     (\<lambda>ok. case deadlines_of f ok of None \<Rightarrow> None | Some t \<Rightarrow> if t \<le> now then None else Some t)"
  by (rule ext) (auto simp: deadlines_of_def fb_wf_def map_of_prune is_due_def split: option.splits if_splits)

lemma deadlines_of_step:
  assumes "fb_wf f" "call_ok c"
  shows "deadlines_of (snd (fb_step c f)) = deadline_step (fb_window f) c (deadlines_of f)"
proof (cases c)
  case (Schedule now key origin)
  with assms show ?thesis
    by (auto simp: deadlines_of_def schedule_def Let_def tbl_simps make_key_inj fun_eq_iff)
next
  case (Cancel key origin)
  with assms show ?thesis
    by (auto simp: deadlines_of_def cancel_def tbl_simps make_key_inj fun_eq_iff)
next
  case (TakeDue now)
  have "snd (take_due now f) =
      (if fb_window f \<le> 0 then f else f\<lparr>fb_entries := prune (is_due now) (fb_entries f)\<rparr>)"
    by (simp add: take_due_def take_loop_kept split_beta)
  with TakeDue show ?thesis
    using deadlines_of_prune [OF assms(1)]
    by (auto simp: split_beta fun_eq_iff split: option.splits)
qed

lemma due_members:
  assumes "fb_wf f"
  shows "(key, origin) \<in> set (fst (take_due now f)) \<longleftrightarrow>
     0 < fb_window f \<and> (case deadlines_of f (origin, key) of None \<Rightarrow> False | Some t \<Rightarrow> t \<le> now)"
proof (cases "fb_window f \<le> 0")
  case False
  then have "(key, origin) \<in> set (fst (take_due now f)) \<longleftrightarrow>
      (\<exists>e \<in> snd ` set (fb_entries f). fe_key e = key \<and> fe_origin e = origin \<and> is_due now e)"
    by (auto simp: take_due_def split_beta take_loop_due)
  moreover have "bar_free (fe_origin e)" if "e \<in> snd ` set (fb_entries f)" for e
    using assms that by (auto simp: fb_wf_def list_all_iff fb_entry_ok_def)
  ultimately show ?thesis
    using False entry_of [OF assms, of origin key "is_due now"]
    by (cases "bar_free origin") (auto simp: deadlines_of_def is_due_def split: option.splits)
qed (simp add: take_due_def)

lemma due_distinct: "fb_wf f \<Longrightarrow> distinct (fst (take_due now f))"
  using entries_distinct [of f]
  by (auto simp: take_due_def split_beta take_loop_due intro: distinct_map_filter)

lemma fb_step_reply:
  assumes "fb_wf f" "call_ok c"
  shows "reply_ok (fb_window f) c (deadlines_of f) (fst (fb_step c f))"
  using assms due_members [OF assms(1)] due_distinct [OF assms(1)]
  by (cases c) (auto simp: schedule_def cancel_def Let_def split_beta deadlines_of_def split: fb_reply.split)

lemma fb_run_spec:
  "fb_wf f \<Longrightarrow> list_all call_ok cs \<Longrightarrow> fb_spec (fb_window f) (deadlines_of f) cs (fb_run f cs)"
proof (induction cs arbitrary: f)
  case (Cons c cs)
  then have "fb_spec (fb_window f) (deadline_step (fb_window f) c (deadlines_of f)) cs (fb_run (snd (fb_step c f)) cs)"
    using Cons.IH [of "snd (fb_step c f)"] by (simp add: fb_wf_step fb_step_window deadlines_of_step)
  with Cons.prems show ?case
    by (simp add: split_beta Let_def fb_step_reply)
qed simp

text \<open>Calls that neither schedule nor cancel a given request.\<close>

fun quiet :: "string \<Rightarrow> string \<Rightarrow> fb_call \<Rightarrow> bool" where
  "quiet key origin (Schedule _ k orig) = ((k, orig) \<noteq> (key, origin))"
| "quiet key origin (Cancel k orig) = ((k, orig) \<noteq> (key, origin))"
| "quiet key origin (TakeDue _) = True"

fun fires :: "time_ns \<Rightarrow> fb_call \<Rightarrow> bool" where
  "fires t (TakeDue now) = (t \<le> now)"
| "fires t _ = False"

fun handed_out :: "fb_reply list \<Rightarrow> (string \<times> string) list" where
  "handed_out [] = []"
| "handed_out (Answer b # rs) = handed_out rs"
| "handed_out (Due due # rs) = due @ handed_out rs"

lemma count_list_distinct: "distinct xs \<Longrightarrow> count_list xs x = (if x \<in> set xs then 1 else 0)"
  by (induction xs) auto

lemma quiet_counts:
  assumes "fb_wf f" "0 < fb_window f" "list_all call_ok cs" "list_all (quiet key origin) cs"
  shows "count_list (handed_out (fb_run f cs)) (key, origin) =
     (case deadlines_of f (origin, key) of
        None \<Rightarrow> 0 | Some t \<Rightarrow> if list_ex (fires t) cs then 1 else 0)"
  using assms
proof (induction cs arbitrary: f)
  case (Cons c cs)
  let ?f = "snd (fb_step c f)"
  have IH: "count_list (handed_out (fb_run ?f cs)) (key, origin) =
     (case deadline_step (fb_window f) c (deadlines_of f) (origin, key) of
        None \<Rightarrow> 0 | Some t \<Rightarrow> if list_ex (fires t) cs then 1 else 0)"
    using Cons.IH [of ?f] Cons.prems by (simp add: fb_wf_step fb_step_window deadlines_of_step)
  show ?case
  proof (cases c)
    case (TakeDue now)
    have "count_list (fst (take_due now f)) (key, origin) =
        (case deadlines_of f (origin, key) of None \<Rightarrow> 0 | Some t \<Rightarrow> if t \<le> now then 1 else 0)"
      using Cons.prems(1,2)
      by (auto simp: count_list_distinct due_distinct due_members split: option.splits)
    with IH TakeDue Cons.prems(2) show ?thesis
      by (auto simp: split_beta Let_def split: option.splits)
  qed (use IH Cons.prems in \<open>auto simp: split_beta Let_def split: option.splits\<close>)
qed (auto split: option.splits)

subsection \<open>Properties\<close>

text \<open>C24. The fallback table is a map of deadlines. On every sequence of calls with bar-free origins every
  reply is the one the map of deadlines prescribes: scheduling is refused exactly when the window
  is not positive and otherwise (re)sets the deadline to one window after now, cancelling reports
  whether the request was pending, and \<^verbatim>\<open>take_due\<close> hands out exactly the requests whose deadline has
  passed, each once, and forgets them.\<close>

theorem fallback_refines_deadlines:
  assumes "list_all call_ok cs"
  shows "fb_spec window (\<lambda>_. None) cs (fb_run (fallback_new window) cs)"
proof -
  have "deadlines_of (fallback_new window) = (\<lambda>_. None)"
    by (auto simp: deadlines_of_def fallback_new_def fun_eq_iff)
  with fb_run_spec [OF fb_wf_new assms, of window] show ?thesis
    by simp
qed

theorem fallback_refines_deadlines_witness:
  "fb_spec 1 (\<lambda>_. None) [Schedule 5 ''k'' ''n1'', TakeDue 6, TakeDue 1000005, Cancel ''k'' ''n1'']
     [Answer True, Due [], Due [(''k'', ''n1'')], Answer False]"
proof -
  have ok: "list_all call_ok [Schedule 5 ''k'' ''n1'', TakeDue 6, TakeDue 1000005, Cancel ''k'' ''n1'']"
    by (simp add: bar_free_def)
  have "fb_run (fallback_new 1) [Schedule 5 ''k'' ''n1'', TakeDue 6, TakeDue 1000005, Cancel ''k'' ''n1'']
      = [Answer True, Due [], Due [(''k'', ''n1'')], Answer False]"
    by code_simp
  with fallback_refines_deadlines [OF ok, of 1] show ?thesis by simp
qed

text \<open>C29. A scheduled fallback fires once. After a request is scheduled, and as long as it is neither
  scheduled again nor cancelled, the replies that follow hand it out exactly once if \<^verbatim>\<open>take_due\<close> is
  called at or after its deadline, and not at all before; other origins and keys do not disturb it.\<close>

theorem fallback_fires_once:
  assumes "list_all call_ok (before @ after)" "bar_free origin" "0 < window"
    and "list_all (quiet key origin) after"
  shows "count_list (handed_out (fb_run (snd (schedule now key origin
            (fold (\<lambda>c f. snd (fb_step c f)) before (fallback_new window)))) after)) (key, origin) =
         (if list_ex (fires (now + ms_ns window)) after then 1 else 0)"
proof -
  let ?f = "fold (\<lambda>c f. snd (fb_step c f)) before (fallback_new window)"
  have wf: "fb_wf ?f" and w: "fb_window ?f = window"
    using assms(1) fb_wf_steps [of "fallback_new window" before] by simp_all
  have "deadlines_of (snd (schedule now key origin ?f)) (origin, key) = Some (now + ms_ns window)"
    using deadlines_of_step [OF wf, of "Schedule now key origin"] assms(2,3) w
    by (simp add: split_beta)
  moreover have "count_list (handed_out (fb_run (snd (schedule now key origin ?f)) after)) (key, origin) =
      (case deadlines_of (snd (schedule now key origin ?f)) (origin, key) of
        None \<Rightarrow> 0 | Some t \<Rightarrow> if list_ex (fires t) after then 1 else 0)"
    using assms wf w by (intro quiet_counts) auto
  ultimately show ?thesis by simp
qed

theorem fallback_fires_once_witness:
  "count_list (handed_out (fb_run (snd (schedule 5 ''k'' ''n1'' (fallback_new 1)))
      [TakeDue 6, Cancel ''k'' ''n2'', TakeDue 1000005, TakeDue 2000005])) (''k'', ''n1'') = 1"
  using fallback_fires_once [of "[]" "[TakeDue 6, Cancel ''k'' ''n2'', TakeDue 1000005, TakeDue 2000005]"
      "''n1''" 1 "''k''" 5]
  by (simp add: bar_free_def ms_ns_def)

end
