(* ===== verification/Query_Bf_Aggregator.thy ===== *)
theory Query_Bf_Aggregator
  imports Bloom_Filter
begin

text \<open>
  \<^verbatim>\<open>tables/query_bf_aggregator.cpp\<close>: the requested keys of each origin are collected in a Bloom filter
  that is sent as one Query-BF when the aggregation window has passed, when it holds enough keys, or
  when it is full enough. The specification follows the lists of keys behind the filters: as long as the
  flush is called often enough for the TTL, every key is in exactly one batch, pending batch or
  buffer, in the order in which the keys were added.

  \<^verbatim>\<open>steady_clock::now\<close> is an argument; each \<^verbatim>\<open>now_millis\<close> (the wall clock) is a reading of its own.
\<close>

subsection \<open>State and operations\<close>

record qbf_batch =
  qb_origin :: string
  qb_filter :: bloom
  qb_created_ms :: u64
  qb_batch_id :: string
  qb_key_count :: nat

record qbf_add_result =
  ar_accepted :: bool
  ar_split :: bool
  ar_split_reason :: string
  ar_origin :: string
  ar_batch_id :: string
  ar_created_ms :: u64
  ar_key_count :: nat
  ar_fill_ratio :: double

record qbf_buffer =
  bu_filter :: bloom
  bu_created_at :: time_ns
  bu_created_ms :: u64
  bu_has_data :: bool
  bu_key_count :: nat

record aggregator =
  ag_bits :: u64
  ag_hashes :: u64
  ag_window :: int
  ag_ttl :: int
  ag_max_fill :: double
  ag_max_keys :: nat
  ag_buffers :: "qbf_buffer table"
  ag_pending :: "qbf_batch list"

definition aggregator_new :: "u64 \<Rightarrow> u64 \<Rightarrow> int \<Rightarrow> int \<Rightarrow> double \<Rightarrow> u64 \<Rightarrow> aggregator" where
  "aggregator_new bits hashes window ttl max_fill max_keys =
     \<lparr>ag_bits = bits, ag_hashes = hashes, ag_window = window, ag_ttl = ttl, ag_max_fill = max_fill,
      ag_max_keys = unat max_keys, ag_buffers = [], ag_pending = []\<rparr>"

definition make_batch_id :: "string \<Rightarrow> u64 \<Rightarrow> string" where
  "make_batch_id origin created_ms = ''qbf-'' @ origin @ ''-'' @ show_nat (unat created_ms)"

definition empty_buffer :: qbf_buffer where
  "empty_buffer = \<lparr>bu_filter = bloom_new 0 0, bu_created_at = 0, bu_created_ms = 0,
     bu_has_data = False, bu_key_count = 0\<rparr>"

definition reset_buffer :: "aggregator \<Rightarrow> time_ns \<Rightarrow> u64 \<Rightarrow> qbf_buffer" where
  "reset_buffer ag now ms =
     \<lparr>bu_filter = bloom_new (ag_bits ag) (ag_hashes ag), bu_created_at = now, bu_created_ms = ms,
      bu_has_data = False, bu_key_count = 0\<rparr>"

definition batch_of :: "string \<Rightarrow> qbf_buffer \<Rightarrow> qbf_batch" where
  "batch_of origin b =
     \<lparr>qb_origin = origin, qb_filter = bu_filter b, qb_created_ms = bu_created_ms b,
      qb_batch_id = make_batch_id origin (bu_created_ms b), qb_key_count = bu_key_count b\<rparr>"

text \<open>The buffer of \<^verbatim>\<open>add_key\<close> just before the key is added to it (the two resets at its head), and
  just after. \<open>ms i\<close> is the reading of the \<open>i\<close>-th reset of the call.\<close>

definition open_buffer :: "time_ns \<Rightarrow> (nat \<Rightarrow> u64) \<Rightarrow> string \<Rightarrow> aggregator \<Rightarrow> qbf_buffer" where
  "open_buffer now ms origin ag =
     (let b0 = (case map_of (ag_buffers ag) origin of None \<Rightarrow> empty_buffer | Some b \<Rightarrow> b);
          b1 = (if bu_created_ms b0 = 0 then reset_buffer ag now (ms 0) else b0)
      in if ag_ttl ag > 0 \<and> now - bu_created_at b1 > ms_ns (ag_ttl ag)
         then reset_buffer ag now (ms 1) else b1)"

definition buffer_add :: "string \<Rightarrow> qbf_buffer \<Rightarrow> qbf_buffer" where
  "buffer_add key b =
     b\<lparr>bu_filter := bloom_add key (bu_filter b), bu_has_data := True, bu_key_count := bu_key_count b + 1\<rparr>"

text \<open>The reason of a split, the fill ratio overriding the number of keys; empty when there is none.\<close>

definition split_reason :: "aggregator \<Rightarrow> qbf_buffer \<Rightarrow> string" where
  "split_reason ag b =
     (let r = (if ag_max_keys ag > 0 \<and> bu_key_count b \<ge> ag_max_keys ag then ''max_keys'' else [])
      in if dlt (DFin 0) (ag_max_fill ag) \<and> dle (ag_max_fill ag) (fill_ratio (bu_filter b))
         then ''fill_ratio'' else r)"

definition add_key :: "time_ns \<Rightarrow> (nat \<Rightarrow> u64) \<Rightarrow> string \<Rightarrow> string \<Rightarrow> aggregator \<Rightarrow> qbf_add_result \<times> aggregator" where
  "add_key now ms origin key ag =
     (let b = buffer_add key (open_buffer now ms origin ag);
          reason = split_reason ag b;
          split = reason \<noteq> [];
          result = \<lparr>ar_accepted = True, ar_split = split, ar_split_reason = reason, ar_origin = origin,
                    ar_batch_id = make_batch_id origin (bu_created_ms b), ar_created_ms = bu_created_ms b,
                    ar_key_count = bu_key_count b, ar_fill_ratio = fill_ratio (bu_filter b)\<rparr>
      in (result,
          if split then
            ag\<lparr>ag_buffers := AList.update origin (reset_buffer ag now (ms 2)) (ag_buffers ag),
               ag_pending := ag_pending ag @ [batch_of origin b]\<rparr>
          else ag\<lparr>ag_buffers := AList.update origin b (ag_buffers ag)\<rparr>))"

text \<open>The loop of \<^verbatim>\<open>flush_due\<close> over the buffers; \<open>ms origin\<close> is the reading of the reset of that
  origin's buffer.\<close>

definition flushes :: "int \<Rightarrow> time_ns \<Rightarrow> qbf_buffer \<Rightarrow> bool" where
  "flushes window now b \<longleftrightarrow> bu_has_data b \<and> \<not> (window > 0 \<and> now - bu_created_at b < ms_ns window)"

fun flush_loop ::
  "time_ns \<Rightarrow> (string \<Rightarrow> u64) \<Rightarrow> aggregator \<Rightarrow> qbf_buffer table \<Rightarrow> qbf_batch list \<times> qbf_buffer table" where
  "flush_loop now ms ag [] = ([], [])"
| "flush_loop now ms ag ((origin, b) # rest) =
     (let (bs, kept) = flush_loop now ms ag rest
      in if flushes (ag_window ag) now b
         then (batch_of origin b # bs, (origin, reset_buffer ag now (ms origin)) # kept)
         else (bs, (origin, b) # kept))"

definition flush_due :: "time_ns \<Rightarrow> (string \<Rightarrow> u64) \<Rightarrow> aggregator \<Rightarrow> qbf_batch list \<times> aggregator" where
  "flush_due now ms ag =
     (let (bs, buffers) = flush_loop now ms ag (ag_buffers ag)
      in (ag_pending ag @ bs, ag\<lparr>ag_buffers := buffers, ag_pending := []\<rparr>))"

definition pending_origins :: "aggregator \<Rightarrow> nat" where
  "pending_origins ag = length (ag_buffers ag)"

subsection \<open>The loop of the flush\<close>

lemma flush_loop_keys: "map fst (snd (flush_loop now ms ag t)) = map fst t"
  by (induction now ms ag t rule: flush_loop.induct) (auto simp: split_beta Let_def)

lemma flush_loop_get:
  "map_of (snd (flush_loop now ms ag t)) origin =
     (case map_of t origin of None \<Rightarrow> None
      | Some b \<Rightarrow> Some (if flushes (ag_window ag) now b then reset_buffer ag now (ms origin) else b))"
  by (induction now ms ag t rule: flush_loop.induct) (auto simp: split_beta Let_def)

lemma flush_loop_batches:
  "wf_tbl t \<Longrightarrow> filter (\<lambda>q. qb_origin q = origin) (fst (flush_loop now ms ag t)) =
     (case map_of t origin of None \<Rightarrow> []
      | Some b \<Rightarrow> if flushes (ag_window ag) now b then [batch_of origin b] else [])"
proof (induction now ms ag t rule: flush_loop.induct)
  case (2 now ms ag orig b rest)
  then show ?case
    by (auto simp: split_beta Let_def batch_of_def dest: wf_tbl_ConsD split: option.splits)
qed simp

subsection \<open>The specification: lists of keys\<close>

datatype agg_call =
    AddKey time_ns "nat \<Rightarrow> u64" string string
  | FlushDue time_ns "string \<Rightarrow> u64"

fun agg_step :: "agg_call \<Rightarrow> aggregator \<Rightarrow> qbf_batch list \<times> aggregator" where
  "agg_step (AddKey now ms origin key) ag = ([], snd (add_key now ms origin key ag))"
| "agg_step (FlushDue now ms) ag = flush_due now ms ag"

fun agg_run :: "agg_call list \<Rightarrow> aggregator \<Rightarrow> qbf_batch list \<times> aggregator" where
  "agg_run [] ag = ([], ag)"
| "agg_run (c # cs) ag =
     (let (bs, ag1) = agg_step c ag; (bs', ag2) = agg_run cs ag1 in (bs @ bs', ag2))"

fun added_by :: "string \<Rightarrow> agg_call list \<Rightarrow> string list" where
  "added_by origin [] = []"
| "added_by origin (AddKey now ms orig key # cs) = (if orig = origin then [key] else []) @ added_by origin cs"
| "added_by origin (FlushDue now ms # cs) = added_by origin cs"

text \<open>The calls find no buffer with data older than the TTL, and the wall clock never reads zero when a
  buffer is opened.\<close>

fun keeps_data :: "agg_call list \<Rightarrow> aggregator \<Rightarrow> bool" where
  "keeps_data [] ag = True"
| "keeps_data (AddKey now ms origin key # cs) ag =
     (ms 0 \<noteq> 0 \<and> ms 1 \<noteq> 0
      \<and> (case map_of (ag_buffers ag) origin of None \<Rightarrow> True
         | Some b \<Rightarrow> \<not> (bu_has_data b \<and> ag_ttl ag > 0 \<and> now - bu_created_at b > ms_ns (ag_ttl ag)))
      \<and> keeps_data cs (snd (add_key now ms origin key ag)))"
| "keeps_data (FlushDue now ms # cs) ag = keeps_data cs (snd (flush_due now ms ag))"

definition summary :: "aggregator \<Rightarrow> string list \<Rightarrow> bloom" where
  "summary ag ks = fold bloom_add ks (bloom_new (ag_bits ag) (ag_hashes ag))"

definition carries :: "aggregator \<Rightarrow> string list \<Rightarrow> qbf_batch \<Rightarrow> bool" where
  "carries ag ks q \<longleftrightarrow> ks \<noteq> [] \<and> qb_filter q = summary ag ks \<and> qb_key_count q = length ks"

definition buffer_holds :: "aggregator \<Rightarrow> string list \<Rightarrow> qbf_buffer option \<Rightarrow> bool" where
  "buffer_holds ag ks b \<longleftrightarrow>
     (case b of None \<Rightarrow> ks = []
      | Some b \<Rightarrow> bu_has_data b = (ks \<noteq> []) \<and>
          (ks \<noteq> [] \<longrightarrow> bu_created_ms b \<noteq> 0 \<and> bu_filter b = summary ag ks \<and> bu_key_count b = length ks) \<and>
          (ks = [] \<longrightarrow> bu_created_ms b \<noteq> 0 \<longrightarrow> bu_filter b = summary ag [] \<and> bu_key_count b = 0))"

definition conserved :: "aggregator \<Rightarrow> qbf_batch list \<Rightarrow> string list \<Rightarrow> string \<Rightarrow> bool" where
  "conserved ag out ks origin \<longleftrightarrow>
     (\<exists>sent pend rest. ks = concat sent @ concat pend @ rest
        \<and> list_all2 (carries ag) sent (filter (\<lambda>q. qb_origin q = origin) out)
        \<and> list_all2 (carries ag) pend (filter (\<lambda>q. qb_origin q = origin) (ag_pending ag))
        \<and> buffer_holds ag rest (map_of (ag_buffers ag) origin))"

definition same_params :: "aggregator \<Rightarrow> aggregator \<Rightarrow> bool" where
  "same_params a b \<longleftrightarrow> ag_bits a = ag_bits b \<and> ag_hashes a = ag_hashes b \<and> ag_window a = ag_window b
     \<and> ag_ttl a = ag_ttl b \<and> ag_max_keys a = ag_max_keys b \<and> ag_max_fill a = ag_max_fill b"

lemma same_params_step: "same_params (snd (agg_step c ag)) ag"
  by (cases c) (auto simp: same_params_def add_key_def flush_due_def Let_def split_beta)

lemma same_params_cong:
  assumes "same_params a b"
  shows "carries a = carries b" "buffer_holds a = buffer_holds b" "summary a = summary b"
    "ag_ttl a = ag_ttl b" "ag_window a = ag_window b" "ag_max_keys a = ag_max_keys b"
proof -
  show s: "summary a = summary b"
    using assms by (auto simp: same_params_def summary_def fun_eq_iff)
  show "carries a = carries b" "buffer_holds a = buffer_holds b"
    unfolding carries_def [abs_def] buffer_holds_def [abs_def] s by (rule refl)+
qed (use assms in \<open>simp_all add: same_params_def\<close>)

lemma open_buffer_holds:
  assumes "buffer_holds ag ks (map_of (ag_buffers ag) origin)" "keeps_data (AddKey now ms origin key # cs) ag"
  shows "buffer_holds ag ks (Some (open_buffer now ms origin ag)) \<and> bu_created_ms (open_buffer now ms origin ag) \<noteq> 0"
proof (cases "map_of (ag_buffers ag) origin")
  case None
  with assms show ?thesis
    by (simp add: buffer_holds_def open_buffer_def empty_buffer_def reset_buffer_def summary_def Let_def)
next
  case (Some b)
  with assms show ?thesis
    by (cases "ks = []") (auto simp: buffer_holds_def open_buffer_def reset_buffer_def summary_def Let_def)
qed

lemma buffer_add_holds:
  assumes "buffer_holds ag ks (Some b)" "bu_created_ms b \<noteq> 0"
  shows "buffer_holds ag (ks @ [key]) (Some (buffer_add key b))" "carries ag (ks @ [key]) (batch_of origin (buffer_add key b))"
  using assms by (auto simp: buffer_holds_def carries_def buffer_add_def batch_of_def summary_def)

lemma conserved_add:
  assumes "conserved ag out ks origin" "keeps_data (AddKey now ms orig key # cs) ag"
  shows "conserved (snd (add_key now ms orig key ag)) out (ks @ added_by origin [AddKey now ms orig key]) origin"
proof -
  obtain sent pend rest where c: "ks = concat sent @ concat pend @ rest"
      "list_all2 (carries ag) sent (filter (\<lambda>q. qb_origin q = origin) out)"
      "list_all2 (carries ag) pend (filter (\<lambda>q. qb_origin q = origin) (ag_pending ag))"
      "buffer_holds ag rest (map_of (ag_buffers ag) origin)"
    using assms(1) by (auto simp: conserved_def)
  let ?ag = "snd (add_key now ms orig key ag)" and ?b = "buffer_add key (open_buffer now ms orig ag)"
  have "same_params ?ag ag"
    using same_params_step [of "AddKey now ms orig key" ag] by simp
  note cong = same_params_cong [OF this]
  show ?thesis
  proof (cases "orig = origin")
    case True
    then have b: "buffer_holds ag (rest @ [key]) (Some ?b)" "carries ag (rest @ [key]) (batch_of orig ?b)"
      using open_buffer_holds [OF _ assms(2)] c(4) buffer_add_holds by blast+
    have r: "buffer_holds ag [] (Some (reset_buffer ag now m))" for m
      by (simp add: buffer_holds_def reset_buffer_def summary_def)
    show ?thesis
    proof (cases "split_reason ag ?b = []")
      case False
      then have "list_all2 (carries ag) (pend @ [rest @ [key]]) (filter (\<lambda>q. qb_origin q = origin) (ag_pending ?ag))
          \<and> map_of (ag_buffers ?ag) origin = Some (reset_buffer ag now (ms 2))"
        using True b(2) c(3) by (simp add: add_key_def Let_def batch_of_def tbl_simps list_all2_appendI)
      then show ?thesis
        unfolding conserved_def cong using True c(1,2) r
        by (intro exI [of _ sent] exI [of _ "pend @ [rest @ [key]]"] exI [of _ "[]"]) simp
    next
      case split: True
      then have "map_of (ag_buffers ?ag) origin = Some ?b \<and> ag_pending ?ag = ag_pending ag"
        using True by (simp add: add_key_def Let_def tbl_simps)
      then show ?thesis
        unfolding conserved_def cong using True c(1-3) b(1)
        by (intro exI [of _ sent] exI [of _ pend] exI [of _ "rest @ [key]"]) simp
    qed
  next
    case False
    then have "map_of (ag_buffers ?ag) origin = map_of (ag_buffers ag) origin
        \<and> filter (\<lambda>q. qb_origin q = origin) (ag_pending ?ag) = filter (\<lambda>q. qb_origin q = origin) (ag_pending ag)"
      by (simp add: add_key_def Let_def tbl_simps batch_of_def)
    then show ?thesis
      unfolding conserved_def cong using False c
      by (intro exI [of _ sent] exI [of _ pend] exI [of _ rest]) simp
  qed
qed

lemma conserved_flush:
  assumes "conserved ag out ks origin" "wf_tbl (ag_buffers ag)"
  shows "conserved (snd (flush_due now ms ag)) (out @ fst (flush_due now ms ag)) ks origin"
proof -
  obtain sent pend rest where c: "ks = concat sent @ concat pend @ rest"
      "list_all2 (carries ag) sent (filter (\<lambda>q. qb_origin q = origin) out)"
      "list_all2 (carries ag) pend (filter (\<lambda>q. qb_origin q = origin) (ag_pending ag))"
      "buffer_holds ag rest (map_of (ag_buffers ag) origin)"
    using assms(1) by (auto simp: conserved_def)
  let ?ag = "snd (flush_due now ms ag)" and ?t = "ag_buffers ag"
  have "same_params ?ag ag"
    using same_params_step [of "FlushDue now ms" ag] by simp
  note cong = same_params_cong [OF this]
  have out: "filter (\<lambda>q. qb_origin q = origin) (fst (flush_due now ms ag)) =
      filter (\<lambda>q. qb_origin q = origin) (ag_pending ag) @
      (case map_of ?t origin of None \<Rightarrow> [] | Some b \<Rightarrow> if flushes (ag_window ag) now b then [batch_of origin b] else [])"
    by (simp add: flush_due_def split_beta flush_loop_batches [OF assms(2)])
  have buf: "map_of (ag_buffers ?ag) origin = (case map_of ?t origin of None \<Rightarrow> None
      | Some b \<Rightarrow> Some (if flushes (ag_window ag) now b then reset_buffer ag now (ms origin) else b))"
    by (simp add: flush_due_def split_beta flush_loop_get)
  have pend: "ag_pending ?ag = []"
    by (simp add: flush_due_def split_beta)
  show ?thesis
  proof (cases "\<exists>b. map_of ?t origin = Some b \<and> flushes (ag_window ag) now b")
    case True
    then obtain b where b: "map_of ?t origin = Some b" "flushes (ag_window ag) now b" by blast
    then have "carries ag rest (batch_of origin b)"
      using c(4) by (simp add: buffer_holds_def flushes_def carries_def batch_of_def)
    moreover have "buffer_holds ag [] (Some (reset_buffer ag now (ms origin)))"
      by (simp add: buffer_holds_def reset_buffer_def summary_def)
    ultimately show ?thesis
      unfolding conserved_def cong using c b out buf pend
      by (intro exI [of _ "sent @ pend @ [rest]"] exI [of _ "[]"] exI [of _ "[]"]) (simp add: list_all2_appendI)
  next
    case False
    then have "map_of (ag_buffers ?ag) origin = map_of ?t origin"
      "filter (\<lambda>q. qb_origin q = origin) (fst (flush_due now ms ag)) = filter (\<lambda>q. qb_origin q = origin) (ag_pending ag)"
      using out buf by (auto split: option.splits)
    then show ?thesis
      unfolding conserved_def cong using c pend
      by (intro exI [of _ "sent @ pend"] exI [of _ "[]"] exI [of _ rest]) (simp add: list_all2_appendI)
  qed
qed

lemma wf_step: "wf_tbl (ag_buffers ag) \<Longrightarrow> wf_tbl (ag_buffers (snd (agg_step c ag)))"
  by (cases c) (simp_all add: add_key_def flush_due_def Let_def split_beta wf_tbl_def flush_loop_keys distinct_update)

lemma conserved_run:
  "conserved ag out ks origin \<Longrightarrow> wf_tbl (ag_buffers ag) \<Longrightarrow> keeps_data cs ag \<Longrightarrow>
   conserved (snd (agg_run cs ag)) (out @ fst (agg_run cs ag)) (ks @ added_by origin cs) origin"
proof (induction cs arbitrary: ag out ks)
  case (Cons c cs)
  show ?case
  proof (cases c)
    case (AddKey now ms orig key)
    then show ?thesis
      using Cons.IH [OF conserved_add [of ag out ks origin now ms orig key cs]] Cons.prems wf_step [of ag c]
      by (simp add: split_beta Let_def)
  next
    case (FlushDue now ms)
    then show ?thesis
      using Cons.IH [OF conserved_flush [of ag out ks origin now ms]] Cons.prems wf_step [of ag c]
      by (simp add: split_beta Let_def)
  qed
qed simp

lemma conserved_new: "conserved (aggregator_new bits hashes window ttl fill mk) [] [] origin"
  by (simp add: conserved_def aggregator_new_def buffer_holds_def)

lemma agg_run_append:
  "agg_run (cs @ ds) ag =
     (let (b1, ag1) = agg_run cs ag; (b2, ag2) = agg_run ds ag1 in (b1 @ b2, ag2))"
  by (induction cs arbitrary: ag) (simp_all add: split_beta Let_def)

lemma same_params_run: "same_params (snd (agg_run cs ag)) ag"
proof (induction cs arbitrary: ag)
  case (Cons c cs)
  then show ?case
    using same_params_step [of c ag] by (auto simp: split_beta Let_def same_params_def)
qed (simp add: same_params_def)

lemma wf_run: "wf_tbl (ag_buffers ag) \<Longrightarrow> wf_tbl (ag_buffers (snd (agg_run cs ag)))"
  by (induction cs arbitrary: ag) (simp_all add: split_beta Let_def wf_step)

lemma keeps_data_append: "keeps_data (cs @ ds) ag \<longleftrightarrow> keeps_data cs ag \<and> keeps_data ds (snd (agg_run cs ag))"
  by (induction cs ag rule: keeps_data.induct) (auto simp: split_beta Let_def)

subsection \<open>Bounds on the batches\<close>

definition batch_bounded :: "aggregator \<Rightarrow> qbf_batch \<Rightarrow> bool" where
  "batch_bounded ag q \<longleftrightarrow> 1 \<le> qb_key_count q \<and> (ag_max_keys ag = 0 \<or> qb_key_count q \<le> ag_max_keys ag)
     \<and> qb_batch_id q = make_batch_id (qb_origin q) (qb_created_ms q)"

definition buffer_bounded :: "aggregator \<Rightarrow> qbf_buffer \<Rightarrow> bool" where
  "buffer_bounded ag b \<longleftrightarrow> (bu_has_data b \<longrightarrow> 1 \<le> bu_key_count b)
     \<and> (ag_max_keys ag = 0 \<or> bu_key_count b < ag_max_keys ag)"

definition agg_bounded :: "aggregator \<Rightarrow> bool" where
  "agg_bounded ag \<longleftrightarrow> all_vals (buffer_bounded ag) (ag_buffers ag) \<and> list_all (batch_bounded ag) (ag_pending ag)"

lemma bounded_cong: "same_params a b \<Longrightarrow> batch_bounded a = batch_bounded b \<and> buffer_bounded a = buffer_bounded b"
  by (auto simp: same_params_def batch_bounded_def buffer_bounded_def fun_eq_iff)

lemma reset_bounded [simp]: "buffer_bounded ag (reset_buffer ag now m)"
  by (auto simp: buffer_bounded_def reset_buffer_def)

lemma open_bounded: "agg_bounded ag \<Longrightarrow> buffer_bounded ag (open_buffer now ms origin ag)"
proof -
  assume "agg_bounded ag"
  then have "map_of (ag_buffers ag) origin = Some b \<Longrightarrow> buffer_bounded ag b" for b
    by (auto simp: agg_bounded_def dest: all_vals_map_of)
  then show ?thesis
    by (auto simp: open_buffer_def Let_def buffer_bounded_def empty_buffer_def reset_buffer_def split: option.splits)
qed

lemma bounded_add: "agg_bounded ag \<Longrightarrow> agg_bounded (snd (add_key now ms origin key ag))"
proof -
  assume ag: "agg_bounded ag"
  let ?b = "buffer_add key (open_buffer now ms origin ag)" and ?ag = "snd (add_key now ms origin key ag)"
  have cong: "batch_bounded ?ag = batch_bounded ag" "buffer_bounded ?ag = buffer_bounded ag"
    using bounded_cong [OF same_params_step [of "AddKey now ms origin key" ag]] by simp_all
  have b: "1 \<le> bu_key_count ?b" "ag_max_keys ag = 0 \<or> bu_key_count ?b \<le> ag_max_keys ag"
    using open_bounded [OF ag, of now ms origin] by (auto simp: buffer_bounded_def buffer_add_def)
  moreover have "split_reason ag ?b = [] \<Longrightarrow> ag_max_keys ag = 0 \<or> bu_key_count ?b < ag_max_keys ag"
    by (auto simp: split_reason_def Let_def split: if_splits)
  ultimately have "split_reason ag ?b = [] \<Longrightarrow> buffer_bounded ag ?b" "batch_bounded ag (batch_of origin ?b)"
    by (auto simp: buffer_bounded_def batch_bounded_def batch_of_def)
  then show ?thesis
    using ag unfolding agg_bounded_def cong
    by (simp add: add_key_def Let_def)
qed

lemma flush_loop_bounded:
  "all_vals (buffer_bounded ag) t \<Longrightarrow> list_all (batch_bounded ag) (fst (flush_loop now ms ag t))
     \<and> all_vals (buffer_bounded ag) (snd (flush_loop now ms ag t))"
proof (induction now ms ag t rule: flush_loop.induct)
  case (2 now ms ag origin b rest)
  have "flushes (ag_window ag) now b \<Longrightarrow> buffer_bounded ag b \<Longrightarrow> batch_bounded ag (batch_of origin b)"
    by (auto simp: flushes_def buffer_bounded_def batch_bounded_def batch_of_def)
  with 2 show ?case
    by (simp add: split_beta Let_def all_vals_def)
qed simp

lemma bounded_flush:
  assumes "agg_bounded ag"
  shows "agg_bounded (snd (flush_due now ms ag)) \<and> list_all (batch_bounded ag) (fst (flush_due now ms ag))"
proof -
  have "batch_bounded (snd (flush_due now ms ag)) = batch_bounded ag"
    "buffer_bounded (snd (flush_due now ms ag)) = buffer_bounded ag"
    using bounded_cong [OF same_params_step [of "FlushDue now ms" ag]] by simp_all
  then show ?thesis
    using assms flush_loop_bounded [of ag "ag_buffers ag" now ms]
    unfolding agg_bounded_def by (simp add: flush_due_def split_beta)
qed

text \<open>The filters of the buffers and batches have the shape that the aggregator was made with.\<close>

definition shaped :: "aggregator \<Rightarrow> bloom \<Rightarrow> bool" where
  "shaped ag f \<longleftrightarrow> bloom_good f \<and> bf_bits f = ag_bits ag \<and> bf_hashes f = ag_hashes ag"

definition agg_shaped :: "aggregator \<Rightarrow> bool" where
  "agg_shaped ag \<longleftrightarrow> shaped ag (bloom_new (ag_bits ag) (ag_hashes ag))
     \<and> all_vals (\<lambda>b. shaped ag (bu_filter b)) (ag_buffers ag) \<and> list_all (\<lambda>q. shaped ag (qb_filter q)) (ag_pending ag)"

lemma shaped_cong: "same_params a b \<Longrightarrow> shaped a = shaped b"
  by (auto simp: same_params_def shaped_def fun_eq_iff)

lemma shaped_add [simp]: "shaped ag f \<Longrightarrow> shaped ag (bloom_add key f)"
  by (simp add: shaped_def bloom_set.good_add)

lemma open_shaped: "agg_shaped ag \<Longrightarrow> shaped ag (bu_filter (open_buffer now ms origin ag))"
  by (auto simp: agg_shaped_def open_buffer_def empty_buffer_def reset_buffer_def Let_def dest: all_vals_map_of split: option.splits)

lemma added_shaped: "agg_shaped ag \<Longrightarrow> agg_shaped (snd (add_key now ms origin key ag))"
proof -
  assume ag: "agg_shaped ag"
  let ?ag = "snd (add_key now ms origin key ag)"
  have params: "same_params ?ag ag"
    using same_params_step [of "AddKey now ms origin key" ag] by simp
  have new: "bloom_new (ag_bits ?ag) (ag_hashes ?ag) = bloom_new (ag_bits ag) (ag_hashes ag)"
    using params by (simp add: same_params_def)
  show ?thesis
    using ag open_shaped [OF ag, of now ms origin] unfolding agg_shaped_def new shaped_cong [OF params]
    by (simp add: add_key_def buffer_add_def batch_of_def reset_buffer_def Let_def)
qed

lemma flushed_shaped:
  assumes "agg_shaped ag"
  shows "agg_shaped (snd (flush_due now ms ag)) \<and> list_all (\<lambda>q. shaped ag (qb_filter q)) (fst (flush_due now ms ag))"
proof -
  let ?ag = "snd (flush_due now ms ag)"
  have params: "same_params ?ag ag"
    using same_params_step [of "FlushDue now ms" ag] by simp
  have new: "bloom_new (ag_bits ?ag) (ag_hashes ?ag) = bloom_new (ag_bits ag) (ag_hashes ag)"
    using params by (simp add: same_params_def)
  have "all_vals (\<lambda>b. shaped ag (bu_filter b)) t \<Longrightarrow> list_all (\<lambda>q. shaped ag (qb_filter q)) (fst (flush_loop now ms ag t))
      \<and> all_vals (\<lambda>b. shaped ag (bu_filter b)) (snd (flush_loop now ms ag t))" for t
    using assms by (induction now ms ag t rule: flush_loop.induct)
      (simp_all add: split_beta Let_def all_vals_def batch_of_def reset_buffer_def agg_shaped_def)
  then show ?thesis
    using assms unfolding agg_shaped_def new shaped_cong [OF params]
    by (simp add: flush_due_def split_beta)
qed

text \<open>A key that was added is in the batches of the first flush after the window of its buffer.\<close>

lemma added_key_flushed:
  assumes "agg_shaped ag" "agg_bounded ag" "wf_tbl (ag_buffers ag)" "ag1 = snd (add_key now ms origin key ag)"
    and "\<And>b. map_of (ag_buffers ag1) origin = Some b \<Longrightarrow> ag_window ag1 \<le> 0 \<or> ms_ns (ag_window ag1) \<le> later - bu_created_at b"
  obtains q where "q \<in> set (fst (flush_due later ms1 ag1))" "qb_origin q = origin" "shaped ag (qb_filter q)"
    "maybe_contains (qb_filter q) key" "qb_batch_id q = make_batch_id origin (qb_created_ms q)"
proof -
  let ?b = "buffer_add key (open_buffer now ms origin ag)" and ?q = "batch_of origin (buffer_add key (open_buffer now ms origin ag))"
  have shape: "shaped ag (bu_filter (open_buffer now ms origin ag))"
    by (rule open_shaped [OF assms(1)])
  then have q: "qb_origin ?q = origin" "shaped ag (qb_filter ?q)" "maybe_contains (qb_filter ?q) key"
      "qb_batch_id ?q = make_batch_id origin (qb_created_ms ?q)"
    by (simp_all add: batch_of_def buffer_add_def) (simp add: shaped_def bloom_set.contains_add)
  have "?q \<in> set (fst (flush_due later ms1 ag1))"
  proof (cases "split_reason ag ?b = []")
    case True
    have b: "map_of (ag_buffers ag1) origin = Some ?b"
      using True by (simp add: assms(4) add_key_def Let_def update_conv')
    moreover have "wf_tbl (ag_buffers ag1)"
      using wf_step [of ag "AddKey now ms origin key"] assms(3,4) by simp
    moreover have "flushes (ag_window ag1) later ?b"
      using assms(5) [OF b] by (auto simp: flushes_def buffer_add_def)
    ultimately have "filter (\<lambda>q. qb_origin q = origin) (fst (flush_loop later ms1 ag1 (ag_buffers ag1))) = [?q]"
      using flush_loop_batches [of "ag_buffers ag1" origin later ms1 ag1] by simp
    then have "?q \<in> set (filter (\<lambda>q. qb_origin q = origin) (fst (flush_loop later ms1 ag1 (ag_buffers ag1))))"
      by simp
    then show ?thesis
      by (simp add: flush_due_def split_beta)
  next
    case False
    then show ?thesis
      by (simp add: assms(4) add_key_def Let_def flush_due_def split_beta)
  qed
  with q show thesis
    by (rule that [rotated])
qed

lemma bounded_run: "agg_bounded ag \<Longrightarrow> list_all (batch_bounded ag) (fst (agg_run cs ag))"
proof (induction cs arbitrary: ag)
  case (Cons c cs)
  have "agg_bounded (snd (agg_step c ag)) \<and> list_all (batch_bounded ag) (fst (agg_step c ag))"
    using Cons.prems by (cases c) (simp_all add: bounded_add bounded_flush)
  then show ?case
    using Cons.IH [of "snd (agg_step c ag)"] bounded_cong [OF same_params_step [of c ag]]
    by (simp add: split_beta Let_def)
qed simp

lemma bounded_new: "agg_bounded (aggregator_new bits hashes window ttl fill mk)"
  by (simp add: agg_bounded_def aggregator_new_def)

subsection \<open>Properties\<close>

text \<open>C21. No key is lost or duplicated, on a condition: no \<^verbatim>\<open>add_key\<close> finds a buffer with data older than the TTL (it would
  drop the keys in it, as \<open>aggregator_ttl_drops_key\<close> shows), and the wall clock does not read zero. Then the keys
  added for an origin are, in the order of the calls, exactly the keys of the batches sent for it,
  then of its pending batches, then of its buffer; each batch's filter is the Bloom filter of its
  keys and its count is their number. Keys of other origins never enter these filters.\<close>

theorem aggregator_conserves_keys:
  assumes "keeps_data calls (aggregator_new bits hashes window ttl max_fill max_keys)"
  shows "conserved (snd (agg_run calls (aggregator_new bits hashes window ttl max_fill max_keys)))
     (fst (agg_run calls (aggregator_new bits hashes window ttl max_fill max_keys))) (added_by origin calls) origin"
  using conserved_run [OF conserved_new _ assms, of origin]
  by (simp add: aggregator_new_def)

definition agg_example :: "agg_call list" where
  "agg_example = [AddKey 1 (\<lambda>_. 7) ''n1'' ''a'', AddKey 2 (\<lambda>_. 8) ''n2'' ''b'',
     AddKey 3 (\<lambda>_. 9) ''n1'' ''c'', FlushDue 4 (\<lambda>_. 10), AddKey 5 (\<lambda>_. 11) ''n1'' ''d'',
     FlushDue 2000000 (\<lambda>_. 12)]"

theorem aggregator_conserves_keys_witness:
  "conserved (snd (agg_run agg_example (aggregator_new 64 2 1 100 (DFin 0) 2)))
     (fst (agg_run agg_example (aggregator_new 64 2 1 100 (DFin 0) 2))) [''a'', ''c'', ''d''] ''n1''"
proof -
  have "keeps_data agg_example (aggregator_new 64 2 1 100 (DFin 0) 2)"
    by (simp add: agg_example_def aggregator_new_def add_key_def flush_due_def open_buffer_def empty_buffer_def
        reset_buffer_def buffer_add_def split_reason_def batch_of_def flushes_def Let_def ms_ns_def)
  moreover have "added_by ''n1'' agg_example = [''a'', ''c'', ''d'']"
    by (simp add: agg_example_def)
  ultimately show ?thesis
    using aggregator_conserves_keys [of agg_example 64 2 1 100 "DFin 0" 2 "''n1''"] by simp
qed

text \<open>A flush leaves nothing behind that is due. If every buffer with data is at least one window old, the
  flush sends all keys added before it, and no key of the origin is held back.\<close>

theorem aggregator_flush_complete:
  assumes "ag0 = aggregator_new bits hashes window ttl max_fill max_keys"
    and "keeps_data calls ag0" "ag = snd (agg_run calls ag0)"
    and "all_vals (\<lambda>b. bu_has_data b \<longrightarrow> bu_created_at b + ms_ns window \<le> now) (ag_buffers ag)"
  shows "\<exists>sent. added_by origin calls = concat sent \<and>
     list_all2 (carries ag) sent
       (filter (\<lambda>q. qb_origin q = origin) (fst (agg_run (calls @ [FlushDue now ms]) ag0)))"
proof -
  let ?c2 = "calls @ [FlushDue now ms]" and ?t = "ag_buffers ag"
  have keeps: "keeps_data ?c2 ag0"
    using assms(2) by (simp add: keeps_data_append)
  have wf0: "wf_tbl (ag_buffers ag0)" and w0: "ag_window ag0 = window"
    by (simp_all add: assms(1) aggregator_new_def)
  have ag': "snd (agg_run ?c2 ag0) = snd (flush_due now ms ag)"
    by (simp add: agg_run_append split_beta Let_def assms(3))
  have "conserved (snd (agg_run ?c2 ag0)) (fst (agg_run ?c2 ag0)) (added_by origin ?c2) origin"
    using conserved_run [OF conserved_new wf0 [unfolded assms(1)] keeps [unfolded assms(1)], of origin] assms(1) by simp
  moreover have "added_by origin ?c2 = added_by origin calls"
    by (induction calls rule: added_by.induct [of _ origin]) simp_all
  ultimately obtain sent pend rest where c: "added_by origin calls = concat sent @ concat pend @ rest"
      "list_all2 (carries (snd (flush_due now ms ag))) sent (filter (\<lambda>q. qb_origin q = origin) (fst (agg_run ?c2 ag0)))"
      "list_all2 (carries (snd (flush_due now ms ag))) pend
         (filter (\<lambda>q. qb_origin q = origin) (ag_pending (snd (flush_due now ms ag))))"
      "buffer_holds (snd (flush_due now ms ag)) rest (map_of (ag_buffers (snd (flush_due now ms ag))) origin)"
    unfolding conserved_def ag' by auto
  have win: "ag_window ag = window"
    using same_params_run [of calls ag0] w0 by (simp add: assms(3) same_params_def)
  have "flushes window now b" if "map_of ?t origin = Some b" "bu_has_data b" for b
    using all_vals_map_of [OF assms(4) that(1)] that(2) by (auto simp: flushes_def)
  then have "rest = []"
    using c(4) by (auto simp: flush_due_def split_beta flush_loop_get win buffer_holds_def reset_buffer_def split: option.splits if_splits)
  moreover have "pend = []"
    using c(3) by (simp add: flush_due_def split_beta)
  moreover have "carries (snd (flush_due now ms ag)) = carries ag"
    using same_params_cong(1) [OF same_params_step [of "FlushDue now ms" ag]] by simp
  ultimately show ?thesis
    using c(1,2) by auto
qed

theorem aggregator_flush_complete_witness:
  "\<exists>sent. [''a'', ''b''] = concat sent \<and>
     list_all2 (carries (snd (agg_run [AddKey 1 (\<lambda>_. 7) ''n'' ''a'', AddKey 2 (\<lambda>_. 8) ''n'' ''b'']
         (aggregator_new 64 2 1 100 (DFin 0) 0)))) sent
       (filter (\<lambda>q. qb_origin q = ''n'') (fst (agg_run ([AddKey 1 (\<lambda>_. 7) ''n'' ''a'', AddKey 2 (\<lambda>_. 8) ''n'' ''b'']
           @ [FlushDue 1000001 (\<lambda>_. 9)]) (aggregator_new 64 2 1 100 (DFin 0) 0))))"
  using aggregator_flush_complete [of "aggregator_new 64 2 1 100 (DFin 0) 0" 64 2 1 100 "DFin 0" 0
      "[AddKey 1 (\<lambda>_. 7) ''n'' ''a'', AddKey 2 (\<lambda>_. 8) ''n'' ''b'']" _ 1000001 "''n''" "\<lambda>_. 9"]
  by (simp add: aggregator_new_def add_key_def open_buffer_def empty_buffer_def all_vals_def
        reset_buffer_def buffer_add_def split_reason_def Let_def ms_ns_def)

text \<open>Every batch is well formed. On every sequence of calls each batch sent holds at least one key and,
  when a maximum is set, at most that many, and its id is made of its origin and its creation time.\<close>

theorem aggregator_batches_bounded:
  "list_all (batch_bounded (aggregator_new bits hashes window ttl max_fill max_keys))
     (fst (agg_run calls (aggregator_new bits hashes window ttl max_fill max_keys)))"
  by (rule bounded_run [OF bounded_new])

text \<open>Evaluation of single calls on an aggregator without split limits.\<close>

lemma add_key_unlimited:
  "ag_max_keys ag = 0 \<Longrightarrow> ag_max_fill ag = DFin 0 \<Longrightarrow>
   snd (add_key now ms origin key ag) =
     ag\<lparr>ag_buffers := AList.update origin (buffer_add key (open_buffer now ms origin ag)) (ag_buffers ag)\<rparr>"
  by (simp add: add_key_def split_reason_def Let_def)

lemma open_buffer_first:
  "map_of (ag_buffers ag) origin = None \<Longrightarrow> open_buffer now ms origin ag =
     (if 0 < ag_ttl ag \<and> ms_ns (ag_ttl ag) < 0 then reset_buffer ag now (ms 1) else reset_buffer ag now (ms 0))"
  by (simp add: open_buffer_def empty_buffer_def reset_buffer_def)

lemma open_buffer_again:
  "map_of (ag_buffers ag) origin = Some b \<Longrightarrow> bu_created_ms b \<noteq> 0 \<Longrightarrow> open_buffer now ms origin ag =
     (if ag_ttl ag > 0 \<and> now - bu_created_at b > ms_ns (ag_ttl ag) then reset_buffer ag now (ms 1) else b)"
  by (simp add: open_buffer_def)

lemmas agg_eval = aggregator_new_def add_key_unlimited open_buffer_first open_buffer_again reset_buffer_def
  buffer_add_def flush_due_def flushes_def batch_of_def ms_ns_def

text \<open>The TTL check of \<^verbatim>\<open>add_key\<close> drops keys that wait for the next flush, however often the flush
  runs: the age of a buffer counts from the last flush of the origin and not from its first key. Here
  the window is 100 ms, the TTL 3000 ms; a key added 2.95 s after the origin's last
  flush is gone when the next one comes 51 ms later, and no batch carries it.\<close>

theorem aggregator_ttl_drops_key:
  "map (\<lambda>q. (qb_filter q, qb_key_count q)) (fst (agg_run
      [AddKey 0 (\<lambda>_. 1) ''n'' ''a'', FlushDue (ms_ns 200) (\<lambda>_. 201), FlushDue (ms_ns 3100) (\<lambda>_. 3101),
       AddKey (ms_ns 3150) (\<lambda>_. 3151) ''n'' ''lost'', AddKey (ms_ns 3201) (\<lambda>_. 3202) ''n'' ''c'',
       FlushDue (ms_ns 3310) (\<lambda>_. 3311)] (aggregator_new 64 2 100 3000 (DFin 0) 0))) =
   [(bloom_add ''a'' (bloom_new 64 2), 1), (bloom_add ''c'' (bloom_new 64 2), 1)]"
  by (simp add: agg_eval)

text \<open>C39. The aggregation window counts from the last flush of the origin, not from its first key. A key that is added
  a window or more after that flush (and before the TTL has passed) does not wait for others: a flush at the
  very same time sends it, alone, in a batch that says it was created at the flush before.\<close>

theorem aggregator_window_skipped:
  assumes "wf_tbl (ag_buffers ag)" "map_of (ag_buffers ag) origin = Some b" "flushes (ag_window ag) flushed b"
    and "ms origin \<noteq> 0" "ms_ns (ag_window ag) \<le> now - flushed" "now - flushed \<le> ms_ns (ag_ttl ag)"
    and "ag1 = snd (flush_due flushed ms ag)" "ag2 = snd (add_key now ms1 origin key ag1)"
  shows "\<exists>q \<in> set (fst (flush_due now ms2 ag2)). qb_origin q = origin \<and> qb_key_count q = 1 \<and> qb_created_ms q = ms origin
    \<and> qb_filter q = bloom_add key (bloom_new (ag_bits ag) (ag_hashes ag))"
proof -
  let ?b = "buffer_add key (reset_buffer ag flushed (ms origin))"
  have ag1: "map_of (ag_buffers ag1) origin = Some (reset_buffer ag flushed (ms origin))" "wf_tbl (ag_buffers ag1)"
      "ag_ttl ag1 = ag_ttl ag" "ag_window ag1 = ag_window ag"
    using assms(1-3) flush_loop_keys [of flushed ms ag "ag_buffers ag"]
    by (simp_all add: assms(7) flush_due_def split_beta flush_loop_get wf_tbl_def)
  have opened: "open_buffer now ms1 origin ag1 = reset_buffer ag flushed (ms origin)"
    using assms(4,6) by (simp add: open_buffer_again [OF ag1(1)] ag1(3) reset_buffer_def)
  have batch: "qb_origin (batch_of origin ?b) = origin \<and> qb_key_count (batch_of origin ?b) = 1 \<and> qb_created_ms (batch_of origin ?b) = ms origin
      \<and> qb_filter (batch_of origin ?b) = bloom_add key (bloom_new (ag_bits ag) (ag_hashes ag))"
    by (simp add: batch_of_def buffer_add_def reset_buffer_def)
  have "batch_of origin ?b \<in> set (fst (flush_due now ms2 ag2))"
  proof (cases "split_reason ag1 ?b = []")
    case True
    then have ag2: "ag_buffers ag2 = AList.update origin ?b (ag_buffers ag1)" "ag_window ag2 = ag_window ag"
      by (simp_all add: assms(8) add_key_def opened Let_def ag1(4))
    have "flushes (ag_window ag) now ?b"
      using assms(5) by (simp add: flushes_def buffer_add_def reset_buffer_def)
    moreover have "wf_tbl (ag_buffers ag2)" "map_of (ag_buffers ag2) origin = Some ?b"
      using ag1(2) by (simp_all add: ag2(1) tbl_simps)
    ultimately have "filter (\<lambda>q. qb_origin q = origin) (fst (flush_loop now ms2 ag2 (ag_buffers ag2))) = [batch_of origin ?b]"
      by (simp add: flush_loop_batches ag2(2))
    then have "batch_of origin ?b \<in> set (fst (flush_loop now ms2 ag2 (ag_buffers ag2)))"
      using filter_is_subset [of "\<lambda>q. qb_origin q = origin" "fst (flush_loop now ms2 ag2 (ag_buffers ag2))"] by simp
    then show ?thesis
      by (simp add: flush_due_def split_beta)
  next
    case False
    then show ?thesis
      by (simp add: assms(8) add_key_def opened Let_def flush_due_def split_beta)
  qed
  with batch show ?thesis
    by blast
qed

definition waiting_example :: aggregator where
  "waiting_example = (let ag = aggregator_new 64 2 100 3000 (DFin 0) 0
     in ag\<lparr>ag_buffers := [(''n'', buffer_add ''a'' (reset_buffer ag 0 3))]\<rparr>)"

theorem aggregator_window_skipped_witness:
  "let ag1 = snd (flush_due (ms_ns 100) (\<lambda>_. 103) waiting_example); ag2 = snd (add_key (ms_ns 200) (\<lambda>_. 203) ''n'' ''b'' ag1)
   in \<exists>q \<in> set (fst (flush_due (ms_ns 200) (\<lambda>_. 203) ag2)). qb_key_count q = 1 \<and> qb_created_ms q = 103"
proof -
  have "wf_tbl (ag_buffers waiting_example)" "flushes (ag_window waiting_example) (ms_ns 100) (snd (hd (ag_buffers waiting_example)))"
    "map_of (ag_buffers waiting_example) ''n'' = Some (snd (hd (ag_buffers waiting_example)))"
    "ag_window waiting_example = 100" "ag_ttl waiting_example = 3000"
    by (simp_all add: waiting_example_def Let_def wf_tbl_def aggregator_new_def flushes_def buffer_add_def reset_buffer_def ms_ns_def)
  from aggregator_window_skipped [OF this(1,3,2) _ _ _ refl refl, of "\<lambda>_. 103" "ms_ns 200" "\<lambda>_. 203" "\<lambda>_. 203" "''b''"] this(4,5)
  show ?thesis
    by (auto simp: Let_def ms_ns_def)
qed

end
