(* ===== verification/Config_Validation.thy ===== *)
theory Config_Validation
  imports Config
begin

text \<open>
  \<^verbatim>\<open>core/config_validation.cpp\<close>: the checks a configuration passes before the node starts, in the
  order of the code (the first failing check gives the error), and the one-line summary for the log. The
  lemmas give the exact set of accepted configurations and show that the summary's list of
  neighbours is read back by the loader.
\<close>

subsection \<open>Operations\<close>

definition neighbor_text :: "neighbor_config \<Rightarrow> string" where
  "neighbor_text n = nc_host n @ '':'' @ show_int (nc_port n)"

definition neighbor_list :: "neighbor_config list \<Rightarrow> string" where
  "neighbor_list ns = (if ns = [] then ''none'' else join (CHR '','') (map neighbor_text ns))"

text \<open>The first condition that holds decides; \<^const>\<open>None\<close> is acceptance.\<close>

fun first_failure :: "(bool \<times> string) list \<Rightarrow> string option" where
  "first_failure [] = None"
| "first_failure ((bad, message) # rest) = (if bad then Some message else first_failure rest)"

definition neighbor_checks :: "neighbor_config \<Rightarrow> (bool \<times> string) list" where
  "neighbor_checks n =
     [(nc_host n = [], ''neighbor host is empty''),
      (nc_port n \<le> 0 \<or> nc_port n > 65535, ''neighbor port must be between 1 and 65535'')]"

definition config_checks :: "config \<Rightarrow> (bool \<times> string) list" where
  "config_checks c =
     [(node_id c = [], ''node_id is empty''),
      (bind_port c \<le> 0 \<or> bind_port c > 65535, ''bind_port must be between 1 and 65535''),
      (request_ttl c \<le> 0, ''request_ttl must be positive''),
      (request_delay_ms c < 0, ''request_delay_ms must be non-negative''),
      (query_ttl_ms c \<le> 0, ''query_ttl_ms must be positive''),
      (sync_table_capacity c \<le> 0, ''sync_table_capacity must be positive''),
      (content_bf_bits c \<le> 0, ''content_bf_bits must be positive''),
      (content_bf_hashes c \<le> 0, ''content_bf_hashes must be positive''),
      (content_bf_exchange_ms c \<le> 0, ''content_bf_exchange_ms must be positive''),
      (content_bf_ttl_ms c \<le> 0, ''content_bf_ttl_ms must be positive''),
      (content_bf_fallback_ms c \<le> 0, ''content_bf_fallback_ms must be positive''),
      (query_bf_bits c \<le> 0, ''query_bf_bits must be positive''),
      (query_bf_hashes c \<le> 0, ''query_bf_hashes must be positive''),
      (query_bf_aggregation_ms c \<le> 0, ''query_bf_aggregation_ms must be positive''),
      (query_bf_ttl_ms c \<le> 0, ''query_bf_ttl_ms must be positive''),
      (dlt (query_bf_max_fill_ratio c) (DFin 0) \<or> dlt (DFin 1) (query_bf_max_fill_ratio c),
       ''query_bf_max_fill_ratio must be between 0 and 1''),
      (query_bf_max_keys c < 0, ''query_bf_max_keys must be non-negative''),
      (broadcast_attempt_limit c \<le> 0, ''broadcast_attempt_limit must be positive''),
      (broadcast_window_ms c \<le> 0, ''broadcast_window_ms must be positive''),
      (topology_reload_ms c < 0, ''topology_reload_ms must be non-negative''),
      (forward_workers c \<le> 0, ''forward_workers must be positive''),
      (forward_queue_max c \<le> 0, ''forward_queue_max must be positive''),
      (forward_drop_policy c \<noteq> ''drop_newest'', ''forward_drop_policy must be drop_newest'')]
     @ concat (map neighbor_checks (neighbors c))"

definition validate_config :: "config \<Rightarrow> string option" where
  "validate_config c = first_failure (config_checks c)"

definition config_summary :: "config \<Rightarrow> string" where
  "config_summary c =
     ''node_id='' @ node_id c
     @ (if config_source c \<noteq> [] then '' source='' @ config_source c else [])
     @ '' bind='' @ bind_ip c @ '':'' @ show_int (bind_port c)
     @ '' neighbors='' @ neighbor_list (neighbors c)
     @ '' topology_reload_ms='' @ show_int (topology_reload_ms c)
     @ '' seed_keys='' @ show_nat (length (seed_keys c))
     @ '' request_keys='' @ show_nat (length (request_keys c))
     @ '' request_delay_ms='' @ show_int (request_delay_ms c)
     @ '' request_ttl='' @ show_int (request_ttl c)
     @ '' query_ttl_ms='' @ show_int (query_ttl_ms c)
     @ '' sync_table_capacity='' @ show_int (sync_table_capacity c)
     @ '' content_bf_bits='' @ show_int (content_bf_bits c)
     @ '' content_bf_hashes='' @ show_int (content_bf_hashes c)
     @ '' content_bf_exchange_ms='' @ show_int (content_bf_exchange_ms c)
     @ '' content_bf_ttl_ms='' @ show_int (content_bf_ttl_ms c)
     @ '' content_bf_fallback_ms='' @ show_int (content_bf_fallback_ms c)
     @ '' query_bf_bits='' @ show_int (query_bf_bits c)
     @ '' query_bf_hashes='' @ show_int (query_bf_hashes c)
     @ '' query_bf_aggregation_ms='' @ show_int (query_bf_aggregation_ms c)
     @ '' query_bf_ttl_ms='' @ show_int (query_bf_ttl_ms c)
     @ '' query_bf_max_fill_ratio='' @ show_g (query_bf_max_fill_ratio c)
     @ '' query_bf_max_keys='' @ show_int (query_bf_max_keys c)
     @ '' broadcast_attempt_limit='' @ show_int (broadcast_attempt_limit c)
     @ '' broadcast_window_ms='' @ show_int (broadcast_window_ms c)
     @ '' async_forward_enable='' @ (if async_forward_enable c then ''true'' else ''false'')
     @ '' forward_workers='' @ show_int (forward_workers c)
     @ '' forward_queue_max='' @ show_int (forward_queue_max c)
     @ '' forward_drop_policy='' @ forward_drop_policy c
     @ (if log_level c \<noteq> [] then '' log_level='' @ log_level c else [])"

subsection \<open>What is accepted\<close>

definition neighbor_valid :: "neighbor_config \<Rightarrow> bool" where
  "neighbor_valid n \<longleftrightarrow> nc_host n \<noteq> [] \<and> 0 < nc_port n \<and> nc_port n \<le> 65535"

definition config_valid :: "config \<Rightarrow> bool" where
  "config_valid c \<longleftrightarrow> node_id c \<noteq> [] \<and> 0 < bind_port c \<and> bind_port c \<le> 65535 \<and> 0 < request_ttl c
     \<and> 0 \<le> request_delay_ms c \<and> 0 < query_ttl_ms c \<and> 0 < sync_table_capacity c
     \<and> 0 < content_bf_bits c \<and> 0 < content_bf_hashes c \<and> 0 < content_bf_exchange_ms c
     \<and> 0 < content_bf_ttl_ms c \<and> 0 < content_bf_fallback_ms c \<and> 0 < query_bf_bits c
     \<and> 0 < query_bf_hashes c \<and> 0 < query_bf_aggregation_ms c \<and> 0 < query_bf_ttl_ms c
     \<and> (case query_bf_max_fill_ratio c of DFin r \<Rightarrow> 0 \<le> r \<and> r \<le> 1 | DInf _ \<Rightarrow> False | DNan \<Rightarrow> True)
     \<and> 0 \<le> query_bf_max_keys c \<and> 0 < broadcast_attempt_limit c \<and> 0 < broadcast_window_ms c
     \<and> 0 \<le> topology_reload_ms c \<and> 0 < forward_workers c \<and> 0 < forward_queue_max c
     \<and> forward_drop_policy c = ''drop_newest'' \<and> list_all neighbor_valid (neighbors c)"

lemma first_failure_None: "first_failure cs = None \<longleftrightarrow> list_all (\<lambda>c. \<not> fst c) cs"
  by (induction cs rule: first_failure.induct) auto

lemma first_failure_find: "first_failure cs = map_option snd (find fst cs)"
  by (induction cs rule: first_failure.induct) auto

lemma first_failure_Some:
  "first_failure cs = Some e \<longleftrightarrow> (\<exists>i < length cs. cs ! i = (True, e) \<and> (\<forall>j < i. \<not> fst (cs ! j)))"
  by (force simp: first_failure_find find_Some_iff prod_eq_iff)

lemma take_all_clear: "i < length cs \<Longrightarrow> filter fst (take i cs) = [] \<longleftrightarrow> (\<forall>j < i. \<not> fst (cs ! j))"
proof (induction cs arbitrary: i)
  case (Cons c cs)
  then show ?case
    by (cases i) (auto simp: All_less_Suc2)
qed simp

lemma validate_config_None: "validate_config c = None \<longleftrightarrow> config_valid c"
proof -
  have ratio: "(case r of DFin r \<Rightarrow> 0 \<le> r \<and> r \<le> 1 | DInf _ \<Rightarrow> False | DNan \<Rightarrow> True) \<longleftrightarrow>
      \<not> (dlt r (DFin 0) \<or> dlt (DFin 1) r)" for r
    by (cases r) auto
  have ns: "list_all (\<lambda>c. \<not> fst c) (concat (map neighbor_checks (neighbors c))) \<longleftrightarrow> list_all neighbor_valid (neighbors c)"
    by (auto simp: list_all_iff neighbor_checks_def neighbor_valid_def not_le)
  show ?thesis
    unfolding validate_config_def first_failure_None config_checks_def list_all_append ns config_valid_def ratio
    by (auto simp: not_le not_less)
qed

subsection \<open>The list of neighbours is read back\<close>

definition plain_host :: "string \<Rightarrow> bool" where
  "plain_host h \<longleftrightarrow> h \<noteq> [] \<and> trim h = h \<and> CHR '','' \<notin> set h \<and> CHR '':'' \<notin> set h"

definition readable_neighbor :: "neighbor_config \<Rightarrow> bool" where
  "readable_neighbor n \<longleftrightarrow> plain_host (nc_host n) \<and> 0 < nc_port n \<and> in_int32 (nc_port n)"

lemma show_int_plain: "CHR '','' \<notin> set (show_int i)" "CHR '':'' \<notin> set (show_int i)"
  "0 < i \<Longrightarrow> c \<in> set (show_int i) \<Longrightarrow> \<not> is_space c"
  by (auto dest!: show_int_chars simp: is_digit_def is_space_def)

lemma parse_neighbor_text:
  assumes "readable_neighbor n"
  shows "parse_neighbor (neighbor_text n) = Some n"
proof -
  have h: "nc_host n \<noteq> []" "trim (nc_host n) = nc_host n" "CHR '':'' \<notin> set (nc_host n)"
    and p: "0 < nc_port n" "in_int32 (nc_port n)"
    using assms by (auto simp: readable_neighbor_def plain_host_def)
  have "split (neighbor_text n) (CHR '':'') True = [nc_host n, show_int (nc_port n)]"
    using h by (simp add: split_skip neighbor_text_def pieces_append pieces_plain show_int_plain)
  moreover have "strtol (show_int (nc_port n)) = (nc_port n, [])"
    using p by (intro strtol_show_int) (auto simp: in_int32_def)
  ultimately show ?thesis
    using h p by (simp add: parse_neighbor_def)
qed

lemma neighbor_text_plain: "readable_neighbor n \<Longrightarrow> CHR '','' \<notin> set (neighbor_text n) \<and> neighbor_text n \<noteq> []"
  by (simp add: neighbor_text_def readable_neighbor_def plain_host_def show_int_plain)

lemma map_filter_texts:
  "list_all readable_neighbor ns \<Longrightarrow> List.map_filter parse_neighbor (map neighbor_text ns) = ns"
  by (induction ns) (simp_all add: List.map_filter_def parse_neighbor_text)

lemma neighbor_text_ends:
  assumes "readable_neighbor n"
  shows "\<not> is_space (hd (neighbor_text n))" "\<not> is_space (last (neighbor_text n))"
proof -
  obtain c cs where h: "nc_host n = c # cs" "trim (c # cs) = c # cs"
    using assms by (cases "nc_host n") (auto simp: readable_neighbor_def plain_host_def)
  then show "\<not> is_space (hd (neighbor_text n))"
    using trim_no_lead [OF h(2)] by (simp add: neighbor_text_def)
  have "last (show_int (nc_port n)) \<in> set (show_int (nc_port n))" by simp
  then show "\<not> is_space (last (neighbor_text n))"
    using assms show_int_plain(3) [of "nc_port n" "last (show_int (nc_port n))"]
    by (simp add: neighbor_text_def readable_neighbor_def)
qed

lemma join_ends: "ps \<noteq> [] \<Longrightarrow> list_all (\<lambda>p. p \<noteq> []) ps \<Longrightarrow>
    join d ps \<noteq> [] \<and> hd (join d ps) = hd (hd ps) \<and> last (join d ps) = last (last ps)"
  by (induction d ps rule: join.induct) auto

lemma parse_neighbor_list:
  assumes "list_all readable_neighbor ns"
  shows "parse_neighbors (trim (neighbor_list ns)) = ns"
proof (cases "ns = []")
  case True
  then show ?thesis
    by (simp add: neighbor_list_def) code_simp
next
  case False
  let ?ps = "map neighbor_text ns"
  have plain: "list_all (\<lambda>p. CHR '','' \<notin> set p) ?ps" "list_all (\<lambda>p. p \<noteq> []) ?ps"
    using assms neighbor_text_plain by (auto simp: list_all_iff)
  have ends: "join (CHR '','') ?ps \<noteq> []" "hd (join (CHR '','') ?ps) = hd (neighbor_text (hd ns))"
      "last (join (CHR '','') ?ps) = last (neighbor_text (last ns))"
    using join_ends [of ?ps "CHR '',''"] False plain(2) by (simp_all add: hd_map last_map)
  have "readable_neighbor (hd ns)" "readable_neighbor (last ns)"
    using assms False by (simp_all add: list_all_iff)
  then have "trim (neighbor_list ns) = join (CHR '','') ?ps"
    using False ends neighbor_text_ends by (simp add: neighbor_list_def trim_id)
  moreover have "split (join (CHR '','') ?ps) (CHR '','') True = ?ps"
    using False plain by (simp add: split_skip pieces_join list_all_iff filter_id_conv)
  ultimately show ?thesis
    using ends(1) map_filter_texts [OF assms] by (simp add: parse_neighbors_def)
qed

subsection \<open>Properties\<close>

text \<open>C38. Validation accepts exactly the valid configurations, the only surprise being that a fill ratio that
  is not a number passes; and when it refuses one, the error is the message of the first check in the code's
  order that fails.\<close>

theorem validate_config_exact:
  "(validate_config c = None \<longleftrightarrow> config_valid c) \<and>
   (validate_config c = Some e \<longleftrightarrow> (\<exists>i. i < length (config_checks c)
      \<and> config_checks c ! i = (True, e) \<and> filter fst (take i (config_checks c)) = []))"
  using validate_config_None first_failure_Some by (auto simp: validate_config_def take_all_clear)

text \<open>The neighbours printed in the summary are the neighbours the loader reads from that text: hosts
  without separators or outer blanks and positive ports survive the round trip, in order.\<close>

theorem neighbor_list_round_trip:
  assumes "list_all readable_neighbor ns"
  shows "parse_neighbors (trim (neighbor_list ns)) = ns"
  by (rule parse_neighbor_list [OF assms])

theorem neighbor_list_round_trip_witness:
  "parse_neighbors (trim ''r1:9000,10.0.0.2:9001'') =
     [\<lparr>nc_host = ''r1'', nc_port = 9000\<rparr>, \<lparr>nc_host = ''10.0.0.2'', nc_port = 9001\<rparr>]"
proof -
  let ?ns = "[\<lparr>nc_host = ''r1'', nc_port = 9000\<rparr>, \<lparr>nc_host = ''10.0.0.2'', nc_port = 9001\<rparr>]"
  have "list_all readable_neighbor ?ns"
    by (simp add: readable_neighbor_def plain_host_def in_int32_def trim_id is_space_def)
  moreover have "neighbor_list ?ns = ''r1:9000,10.0.0.2:9001''"
    by (simp add: neighbor_list_def neighbor_text_def show_int_def show_nat.simps digit_char_def) code_simp
  ultimately show ?thesis
    using neighbor_list_round_trip [of ?ns] by simp
qed

end
