(* ===== verification/Node_State.thy ===== *)
theory Node_State
  imports Request_Pipeline Data_Pipeline Forward_Queue Sync_Table Query_Bf_Limiter Content_Bf_Table
    Content_Bf_Fallback Query_Bf_Aggregator Config_Validation
begin

text \<open>
  The state of \<^verbatim>\<open>class Node\<close> (\<^verbatim>\<open>node/node.h\<close>) and the helpers every handler uses: log fields, clock readings,
  request ids, the set of local keys, and the callbacks the handlers pass to the queue. A callback
  is a value that holds what the C++ closure captures; \<open>node_ok\<close> and \<open>node_err\<close> are their bodies.
\<close>

subsection \<open>The operating system of a node\<close>

record 'w host_os = "'w node_os" +
  os_redis_connect :: "'w \<Rightarrow> (string option \<times> string option) \<times> 'w"
  os_getenv :: "'w \<Rightarrow> environment"
  os_read_file :: "'w \<Rightarrow> string \<Rightarrow> string option"

subsection \<open>State\<close>

text \<open>What the success callbacks capture: \<open>ServeDone\<close> that of a served request (id, key, origin, sender,
  statistics), \<open>QbfServeDone\<close> that of a key served for a Query-BF (id, key, origin, Query-BF id, its
  age, sender). The failure callbacks likewise.\<close>

datatype closure =
    ServeDone string string string string string
  | QbfServeDone string string string string u64 string

datatype failure_closure =
    ServeFailed string string string string
  | QbfServeFailed string string string string string
  | DirectFailed string string string string

record 'w node_sys = "('w, closure, failure_closure) queue_sys" +
  nd_config :: config
  nd_redis :: redis_client
  nd_query :: query_table
  nd_sync :: sync_table
  nd_content :: content_table
  nd_fallback :: fallback
  nd_agg :: aggregator
  nd_limiter :: limiter
  nd_local_keys :: "string list"
  nd_counter :: u64

text \<open>The constructor. The local keys are a set whose traversal order is the order of the list.\<close>

definition node_new :: "config \<Rightarrow> log_level \<Rightarrow> 'w \<Rightarrow> 'w node_sys" where
  "node_new c level w =
     \<lparr>lg_level = level, lg_lines = [],
      net_transport = transport_new (bind_ip c) (bind_port c), net_topology = [], net_sent = [], net_world = w,
      fq_conf = \<lparr>fc_enabled = async_forward_enable c, fc_workers = forward_workers c,
                 fc_max_depth = unat (size_of (forward_queue_max c)), fc_policy = forward_drop_policy c\<rparr>,
      fq_attached = False, fq_started = False, fq_items = [], sys_running = False,
      nd_config = c, nd_redis = redis_client_new (redis_socket c),
      nd_query = query_table_new (query_ttl_ms c),
      nd_sync = sync_table_new (size_of (sync_table_capacity c)),
      nd_content = content_table_new (size_of (content_bf_bits c)) (size_of (content_bf_hashes c)) (content_bf_ttl_ms c),
      nd_fallback = fallback_new (content_bf_fallback_ms c),
      nd_agg = aggregator_new (size_of (query_bf_bits c)) (size_of (query_bf_hashes c)) (query_bf_aggregation_ms c)
        (query_bf_ttl_ms c) (query_bf_max_fill_ratio c) (size_of (query_bf_max_keys c)),
      nd_limiter = limiter_new (size_of (broadcast_attempt_limit c)) (broadcast_window_ms c),
      nd_local_keys = [], nd_counter = 0\<rparr>"

subsection \<open>Log fields\<close>

definition bool_label :: "bool \<Rightarrow> string" where
  "bool_label b = (if b then ''true'' else ''false'')"

definition show_u64 :: "u64 \<Rightarrow> string" where
  "show_u64 w = show_nat (unat w)"

definition query_stats_suffix :: "query_stats \<Rightarrow> string" where
  "query_stats_suffix st =
     '' query_table_size='' @ show_nat (qs_size st) @ '' query_table_attempts='' @ show_u64 (qs_attempts st)
     @ '' query_table_duplicates='' @ show_u64 (qs_duplicates st) @ '' query_table_pruned='' @ show_u64 (qs_pruned st)"

definition sync_update_line :: "string \<Rightarrow> string \<Rightarrow> sync_update \<Rightarrow> sync_stats \<Rightarrow> string" where
  "sync_update_line key origin u st =
     ''sync_table=update key='' @ key @ '' origin='' @ origin
     @ '' new_key='' @ bool_label (su_key_added u)
     @ '' new_destination='' @ bool_label (su_destination_added u)
     @ '' duplicate_destination='' @ bool_label (su_destination_duplicate u)
     @ '' destinations='' @ show_nat (su_destination_count u)
     @ '' size='' @ show_nat (su_key_count u)
     @ '' evicted='' @ show_nat (su_evicted u)
     @ '' sync_table_updates='' @ show_u64 (ss_updates st)
     @ '' sync_table_duplicate_hits='' @ show_u64 (ss_duplicate_destinations st)
     @ '' sync_table_destinations_total='' @ show_nat (ss_destination_total st)
     @ '' sync_table_evicted_total='' @ show_u64 (ss_evicted st)"

subsection \<open>Clocks, ids, local keys\<close>

definition read_steady :: "('w, 'y) node_os_scheme \<Rightarrow> 'w node_sys \<Rightarrow> time_ns \<times> 'w node_sys" where
  "read_steady os s = (let (t, w) = os_steady os (net_world s) in (t, s\<lparr>net_world := w\<rparr>))"

definition now_millis :: "('w, 'y) node_os_scheme \<Rightarrow> 'w node_sys \<Rightarrow> u64 \<times> 'w node_sys" where
  "now_millis os s = (let (t, w) = os_wall_ms os (net_world s) in (word_of_int t, s\<lparr>net_world := w\<rparr>))"

definition make_request_id :: "('w, 'y) node_os_scheme \<Rightarrow> 'w node_sys \<Rightarrow> string \<times> 'w node_sys" where
  "make_request_id os s =
     (let (millis, w) = os_wall_ms os (net_world s); counter = nd_counter s
      in (node_id (nd_config s) @ ''-'' @ show_int millis @ ''-'' @ show_u64 counter,
          s\<lparr>net_world := w, nd_counter := counter + 1\<rparr>))"

definition record_local_key :: "string \<Rightarrow> 'w node_sys \<Rightarrow> 'w node_sys" where
  "record_local_key key s =
     s\<lparr>nd_local_keys := List.insert key (nd_local_keys s), nd_content := add_local_key key (nd_content s)\<rparr>"

definition parse_uint64 :: "string \<Rightarrow> u64 option" where
  "parse_uint64 v =
     (if v = [] then None
      else let (parsed, stop) = strtoull (c_str v)
           in if stop = c_str v \<or> stop \<noteq> [] then None else Some parsed)"

text \<open>The readings of the wall clock during one call of the aggregator: the \<open>n\<close>-th one and the world
  after it. A call is given as many readings as it can use; an unused one is time that passes.\<close>

fun wall_nth :: "('w, 'y) node_os_scheme \<Rightarrow> nat \<Rightarrow> 'w \<Rightarrow> int \<times> 'w" where
  "wall_nth os 0 w = os_wall_ms os w"
| "wall_nth os (Suc n) w = wall_nth os n (snd (os_wall_ms os w))"

definition node_add_key :: "('w, 'y) node_os_scheme \<Rightarrow> string \<Rightarrow> string \<Rightarrow> 'w node_sys \<Rightarrow> qbf_add_result \<times> 'w node_sys" where
  "node_add_key os origin key s =
     (let (now, s1) = read_steady os s; w = net_world s1;
          (result, ag) = add_key now (\<lambda>i. word_of_int (fst (wall_nth os i w))) origin key (nd_agg s1)
      in (result, s1\<lparr>nd_agg := ag, net_world := snd (wall_nth os 2 w)\<rparr>))"

definition node_flush_due :: "('w, 'y) node_os_scheme \<Rightarrow> 'w node_sys \<Rightarrow> qbf_batch list \<times> 'w node_sys" where
  "node_flush_due os s =
     (let (now, s1) = read_steady os s; w = net_world s1; t = ag_buffers (nd_agg s1);
          position = (\<lambda>origin. length (takeWhile (\<lambda>kv. fst kv \<noteq> origin) t));
          (batches, ag) = flush_due now (\<lambda>origin. word_of_int (fst (wall_nth os (position origin) w))) (nd_agg s1)
      in (batches, s1\<lparr>nd_agg := ag, net_world := snd (wall_nth os (length t) w)\<rparr>))"

subsection \<open>Callbacks\<close>

text \<open>The body shared by both success callbacks: the destination is recorded and two lines are logged.\<close>

definition record_served :: "string \<Rightarrow> string \<Rightarrow> string \<Rightarrow> 'w node_sys \<Rightarrow> 'w node_sys" where
  "record_served key origin line s =
     (let (update, st) = record_destination key origin (nd_sync s)
      in log_info (sync_update_line key origin update (sync_stats_of st)) (log_info line (s\<lparr>nd_sync := st\<rparr>)))"

fun served_line :: "closure \<Rightarrow> string" where
  "served_line (ServeDone rid key origin from_label stats) =
     ''req_state=serve_local id='' @ rid @ '' key='' @ key @ '' dest='' @ from_label @ '' origin='' @ origin
     @ '' from='' @ from_label @ stats"
| "served_line (QbfServeDone rid key origin bf_id age from_label) =
     ''req_state=serve_local bf_type=query bf_id='' @ bf_id @ '' id='' @ rid @ '' key='' @ key
     @ '' dest='' @ from_label @ '' origin='' @ origin @ '' from='' @ from_label
     @ '' bf_age_ms='' @ show_u64 age"

fun node_ok :: "closure \<Rightarrow> 'w node_sys \<Rightarrow> 'w node_sys" where
  "node_ok (ServeDone rid key origin from_label stats) s =
     record_served key origin (served_line (ServeDone rid key origin from_label stats)) s"
| "node_ok (QbfServeDone rid key origin bf_id age from_label) s =
     record_served key origin (served_line (QbfServeDone rid key origin bf_id age from_label)) s"

fun node_err :: "failure_closure \<Rightarrow> string \<Rightarrow> 'w node_sys \<Rightarrow> 'w node_sys" where
  "node_err (ServeFailed rid key origin from_label) e s =
     log_warn (''req_state=serve_failed id='' @ rid @ '' key='' @ key @ '' origin='' @ origin
       @ '' dest='' @ from_label @ '' from='' @ from_label @ '' error='' @ e) s"
| "node_err (QbfServeFailed rid key origin bf_id from_label) e s =
     log_warn (''req_state=serve_failed bf_type=query bf_id='' @ bf_id @ '' id='' @ rid @ '' key='' @ key
       @ '' origin='' @ origin @ '' dest='' @ from_label @ '' from='' @ from_label @ '' error='' @ e) s"
| "node_err (DirectFailed rid key origin neighbor_label) e s =
     log_warn (''bf_state=content_direct_failed id='' @ rid @ '' key='' @ key @ '' origin='' @ origin
       @ '' dest='' @ neighbor_label @ '' error='' @ e) s"

subsection \<open>The helpers leave the network and the queue alone\<close>

named_theorems node_net

lemma node_sys_net [node_net]:
  "same_net s (s\<lparr>net_world := w\<rparr>)" "same_net s (s\<lparr>nd_query := qt\<rparr>)" "same_net s (s\<lparr>nd_sync := st\<rparr>)"
  "same_net s (s\<lparr>nd_content := ct\<rparr>)" "same_net s (s\<lparr>nd_fallback := fb\<rparr>)" "same_net s (s\<lparr>nd_agg := ag\<rparr>)"
  "same_net s (s\<lparr>nd_limiter := l\<rparr>)"
  for s :: "'w node_sys"
  by (simp_all add: same_net_def)

lemma record_served_net [node_net]: "same_net s (record_served key origin line s)"
  by (simp add: record_served_def same_net_def split_beta Let_def)

lemma node_ok_net [node_net]: "same_net s (node_ok c s)"
  by (cases c) (simp_all add: record_served_net)

lemma node_err_net [node_net]: "same_net s (node_err f e s)"
  by (cases f) simp_all

text \<open>The callbacks of the node meet the queue's contract.\<close>

interpretation nq: queue_client node_ok node_err
  by unfold_locales (simp_all add: node_net)

lemma read_steady_net [node_net]: "same_net s (snd (read_steady os s))"
  by (simp add: read_steady_def split_beta Let_def same_net_def)

lemma now_millis_net [node_net]: "same_net s (snd (now_millis os s))"
  by (simp add: now_millis_def split_beta Let_def same_net_def)

lemma make_request_id_net [node_net]: "same_net s (snd (make_request_id os s))"
  by (simp add: make_request_id_def split_beta Let_def same_net_def)

lemma record_local_key_net [node_net]: "same_net s (record_local_key key s)"
  by (simp add: record_local_key_def same_net_def)

lemma node_add_key_net [node_net]: "same_net s (snd (node_add_key os origin key s))"
  by (simp add: node_add_key_def read_steady_def split_beta Let_def same_net_def)

lemma node_flush_due_net [node_net]: "same_net s (snd (node_flush_due os s))"
  by (simp add: node_flush_due_def read_steady_def split_beta Let_def same_net_def)

subsection \<open>The tables of the node\<close>

text \<open>The components of the node other than the network, the queue, the log and the sync table, which a
  served request changes when its message is sent.\<close>

definition same_tables :: "'w node_sys \<Rightarrow> 'w node_sys \<Rightarrow> bool" where
  "same_tables s t \<longleftrightarrow> nd_config t = nd_config s \<and> nd_redis t = nd_redis s \<and> nd_query t = nd_query s
     \<and> nd_content t = nd_content s \<and> nd_fallback t = nd_fallback s \<and> nd_agg t = nd_agg s
     \<and> nd_limiter t = nd_limiter s \<and> nd_local_keys t = nd_local_keys s \<and> nd_counter t = nd_counter s"

lemma same_tables_refl [simp]: "same_tables s s"
  by (simp add: same_tables_def)

lemma same_tables_trans: "same_tables s t \<Longrightarrow> same_tables t u \<Longrightarrow> same_tables s u"
  by (simp add: same_tables_def)

lemma log_line_node [simp]:
  "nd_config (log_line l m s) = nd_config s" "nd_redis (log_line l m s) = nd_redis s"
  "nd_query (log_line l m s) = nd_query s" "nd_sync (log_line l m s) = nd_sync s"
  "nd_content (log_line l m s) = nd_content s" "nd_fallback (log_line l m s) = nd_fallback s"
  "nd_agg (log_line l m s) = nd_agg s" "nd_limiter (log_line l m s) = nd_limiter s"
  "nd_local_keys (log_line l m s) = nd_local_keys s" "nd_counter (log_line l m s) = nd_counter s"
  by (simp_all add: log_line_def)

lemma same_tables_log [simp]: "same_tables s (log_line l m t) \<longleftrightarrow> same_tables s t"
  by (simp add: same_tables_def)

lemma record_served_tables: "same_tables s (record_served key origin line s)"
  by (simp add: record_served_def same_tables_def split_beta Let_def)

lemma node_ok_tables: "same_tables s (node_ok c s)"
  by (cases c) (simp_all add: record_served_tables)

lemma node_err_tables: "same_tables s (node_err f e s)"
  by (cases f) simp_all

lemma more_tables:
  fixes s t :: "'w node_sys"
  shows "net_sys.more t = net_sys.more s \<Longrightarrow> same_tables s t \<and> nd_sync t = nd_sync s"
  by (cases s; cases t) (simp add: same_tables_def)

lemma send_to_tables: "same_tables s (snd (send_to os a p s))" for s :: "'w node_sys"
  using more_tables [OF send_to_frame(5) [of os a p s]] by simp

lemma send_broadcast_tables: "same_tables s (send_broadcast os m ex s)" for s :: "'w node_sys"
  using more_tables [OF send_broadcast_frame(3) [of os m ex s]] by simp

lemma run_success_tables: "same_tables s (run_success node_ok item s)"
  by (auto simp: run_success_def node_ok_tables split: option.splits)

lemma run_failure_tables: "same_tables s (run_failure node_err item e s)"
  by (auto simp: run_failure_def node_err_tables split: option.splits)

lemma run_direct_tables: "same_tables s (snd (run_direct os node_ok node_err item s))"
proof -
  let ?r = "send_to os (fi_addr item) (to_wire (fi_msg item)) s"
  have "same_tables (snd ?r) (snd (run_direct os node_ok node_err item s))"
    by (cases ?r; cases "fst ?r") (auto simp: run_direct_def send_direct_def run_failure_tables run_success_tables)
  then show ?thesis
    using send_to_tables same_tables_trans by blast
qed

lemma enqueue_tables: "same_tables s (snd (enqueue node_err item s))"
proof (cases "length (fq_items s) \<ge> fc_max_depth (fq_conf s)")
  case True
  have "same_tables s (run_failure node_err item ''forward_queue_full'' (log_state ''drop_queue'' (length (fq_items s)) s))"
    by (rule same_tables_trans [OF _ run_failure_tables]) (simp add: log_state_def)
  with True show ?thesis
    by (simp add: enqueue_def queue_push_def)
qed (simp add: enqueue_def queue_push_def log_state_def same_tables_def)

lemma fq_send_direct_tables: "same_tables s (snd (fq_send_direct os node_ok node_err addr msg a b s))"
  unfolding fq_send_direct_def Let_def split_beta
  by (simp add: enqueue_tables log_state_def run_direct_tables)

lemma fq_send_broadcast_tables: "same_tables s (snd (fq_send_broadcast os node_err msg ex s))"
  unfolding fq_send_broadcast_def Let_def
  by (simp add: enqueue_tables log_state_def send_broadcast_tables)

lemmas send_fields [simp] = fq_send_direct_tables [unfolded same_tables_def]
  fq_send_broadcast_tables [unfolded same_tables_def]

end
