(* ===== verification/Node_Handlers.thy ===== *)
theory Node_Handlers
  imports Node_State
begin

text \<open>
  The message handlers of \<^verbatim>\<open>node/node.cpp\<close>: requests, data, Content-BFs and Query-BFs, and the dispatch of a
  datagram. Each is one function on the state of the node, with its log lines. The lemmas give what each handler
  hands to the queue, for every message and every state.
\<close>

subsection \<open>Requests\<close>

definition request_fields :: "message \<Rightarrow> sockaddr_in \<Rightarrow> string" where
  "request_fields msg from =
     '' id='' @ m_request_id msg @ '' key='' @ m_key msg @ '' ttl='' @ show_int (m_ttl msg)
     @ '' origin='' @ m_origin msg @ '' from='' @ addr_to_string from"

definition request_drop_line :: "request_decision \<Rightarrow> message \<Rightarrow> sockaddr_in \<Rightarrow> string" where
  "request_drop_line d msg from =
     ''req_state='' @ request_state_label (rd_state d) @ '' reason='' @ rd_reason d @ request_fields msg from"

definition request_duplicate_line :: "message \<Rightarrow> sockaddr_in \<Rightarrow> query_stats \<Rightarrow> string" where
  "request_duplicate_line msg from st =
     ''req_state='' @ request_state_label DropDuplicate @ '' id='' @ m_request_id msg @ '' key='' @ m_key msg
     @ '' origin='' @ m_origin msg @ '' from='' @ addr_to_string from @ query_stats_suffix st"

definition request_forward_line :: "message \<Rightarrow> int \<Rightarrow> sockaddr_in \<Rightarrow> string" where
  "request_forward_line msg ttl from =
     ''req_state='' @ request_state_label Forward @ '' id='' @ m_request_id msg
     @ '' key='' @ m_key msg @ '' ttl_in='' @ show_int (m_ttl msg) @ '' ttl='' @ show_int ttl
     @ '' origin='' @ m_origin msg @ '' from='' @ addr_to_string from"

definition serve_request :: "('w, 'y) node_os_scheme \<Rightarrow> message \<Rightarrow> sockaddr_in \<Rightarrow> string option \<Rightarrow> 'w node_sys \<Rightarrow> 'w node_sys" where
  "serve_request os msg from val s0 =
     (let resp = empty_message\<lparr>m_type := Data, m_request_id := m_request_id msg, m_origin := m_origin msg,
                   m_ttl := request_ttl (nd_config s0), m_key := m_key msg,
                   m_value := (case val of None \<Rightarrow> [] | Some v \<Rightarrow> v)\<rparr>;
          s = record_local_key (m_key msg) s0;
          stats = query_stats_suffix (query_stats_of (nd_query s));
          from_label = addr_to_string from
      in snd (fq_send_direct os node_ok node_err from resp
            (Some (ServeDone (m_request_id resp) (m_key resp) (m_origin resp) from_label stats))
            (Some (ServeFailed (m_request_id resp) (m_key resp) (m_origin resp) from_label)) s))"

definition forward_request :: "('w, 'y) node_os_scheme \<Rightarrow> message \<Rightarrow> sockaddr_in \<Rightarrow> int \<Rightarrow> 'w node_sys \<Rightarrow> 'w node_sys" where
  "forward_request os msg from ttl s =
     (let forward = msg\<lparr>m_ttl := ttl\<rparr>
      in snd (fq_send_broadcast os node_err forward (Some from)
           (log_debug (request_forward_line msg (m_ttl forward) from) s)))"

definition run_request_pipeline :: "('w, 'y) node_os_scheme \<Rightarrow> message \<Rightarrow> 'w node_sys \<Rightarrow> request_decision \<times> 'w node_sys" where
  "run_request_pipeline os msg s =
     (let (d, err, qt, w) = request_run os (nd_redis s) msg (nd_query s) (net_world s);
          s1 = s\<lparr>nd_query := qt, net_world := w\<rparr>
      in (d, case err of None \<Rightarrow> s1 | Some e \<Rightarrow> log_warn (''redis get error: '' @ e) s1))"

definition handle_request :: "('w, 'y) node_os_scheme \<Rightarrow> message \<Rightarrow> sockaddr_in \<Rightarrow> 'w node_sys \<Rightarrow> 'w node_sys" where
  "handle_request os msg from s0 =
     (let (d, s) = run_request_pipeline os msg s0
      in case rd_state d of
           DropInvalid \<Rightarrow> log_warn (request_drop_line d msg from) s
         | DropTtl \<Rightarrow> log_info (request_drop_line d msg from) s
         | DropDuplicate \<Rightarrow> log_info (request_duplicate_line msg from (query_stats_of (nd_query s))) s
         | ServeLocal \<Rightarrow> serve_request os msg from (rd_value d) s
         | Forward \<Rightarrow> forward_request os msg from (rd_forward_ttl d) s)"

subsection \<open>Data\<close>

definition data_drop_line :: "data_decision \<Rightarrow> message \<Rightarrow> sockaddr_in \<Rightarrow> string" where
  "data_drop_line d msg from =
     ''data_state='' @ data_state_label (dd_state d) @ '' reason='' @ dd_reason d @ request_fields msg from"

definition data_fields :: "message \<Rightarrow> sockaddr_in \<Rightarrow> string" where
  "data_fields msg from =
     '' id='' @ m_request_id msg @ '' key='' @ m_key msg @ '' origin='' @ m_origin msg
     @ '' ttl='' @ show_int (m_ttl msg) @ '' from='' @ addr_to_string from"

definition data_failed_line :: "message \<Rightarrow> sockaddr_in \<Rightarrow> string \<Rightarrow> string" where
  "data_failed_line msg from e =
     ''data_state=store_failed id='' @ m_request_id msg @ '' key='' @ m_key msg
     @ '' origin='' @ m_origin msg @ '' from='' @ addr_to_string from @ '' error='' @ e"

definition handle_data :: "('w, 'y) node_os_scheme \<Rightarrow> message \<Rightarrow> sockaddr_in \<Rightarrow> 'w node_sys \<Rightarrow> 'w node_sys" where
  "handle_data os msg from s =
     (let d = data_run (nd_config s) msg; label = data_state_label (dd_state d)
      in case dd_state d of
           DataDropInvalid \<Rightarrow> log_warn (data_drop_line d msg from) s
         | DropNotOrigin \<Rightarrow>
             log_info (''data_state='' @ label @ data_fields msg from @ '' at='' @ node_id (nd_config s)) s
         | StoreLocal \<Rightarrow>
             (case cache_set os (nd_redis s) (m_key msg) (m_value msg) (net_world s) of
                (Some e, w) \<Rightarrow>
                  log_warn (data_failed_line msg from e) (s\<lparr>net_world := w\<rparr>)
              | (None, w) \<Rightarrow>
                  let s1 = s\<lparr>net_world := w, nd_fallback := snd (cancel (m_key msg) (m_origin msg) (nd_fallback s))\<rparr>
                  in log_info (''data_state='' @ label @ data_fields msg from) (record_local_key (m_key msg) s1)))"

subsection \<open>Content-BFs\<close>

definition content_update_line :: "config \<Rightarrow> message \<Rightarrow> sockaddr_in \<Rightarrow> bloom \<Rightarrow> nat \<Rightarrow> string" where
  "content_update_line c msg from f summaries =
     ''bf_state=content_update origin='' @ m_origin msg @ '' from='' @ addr_to_string from
     @ '' bf_bits='' @ show_int (content_bf_bits c) @ '' bf_hashes='' @ show_int (content_bf_hashes c)
     @ '' bf_bytes='' @ show_nat (length (bf_data f)) @ '' bf_fill='' @ show_double (fill_ratio f)
     @ '' neighbor_summaries='' @ show_nat summaries"

definition handle_content_bloom :: "('w, 'y) node_os_scheme \<Rightarrow> message \<Rightarrow> sockaddr_in \<Rightarrow> 'w node_sys \<Rightarrow> 'w node_sys" where
  "handle_content_bloom os msg from s =
     (let c = nd_config s; from_origin = '' from='' @ addr_to_string from @ '' origin='' @ m_origin msg
      in if m_origin msg = []
         then log_warn (''bf_state=content_drop reason=missing_origin from='' @ addr_to_string from) s
         else if m_key msg = [] then log_warn (''bf_state=content_drop reason=missing_bloom'' @ from_origin) s
         else case from_hex (size_of (content_bf_bits c)) (size_of (content_bf_hashes c)) (m_key msg) of
                None \<Rightarrow> log_warn (''bf_state=content_drop reason=bad_bloom'' @ from_origin) s
              | Some f \<Rightarrow>
                  let (now, s1) = read_steady os s;
                      s2 = s1\<lparr>nd_content := update_neighbor now from f (nd_content s1)\<rparr>
                  in log_info (content_update_line c msg from f (neighbor_count (nd_content s2))) s2)"

subsection \<open>Query-BFs\<close>

text \<open>The checks at the head of the handler: a refusal with the level and text of its log line, or the age
  of the Query-BF and its filter.\<close>

definition qbf_age :: "u64 \<Rightarrow> u64 \<Rightarrow> u64" where
  "qbf_age now_ms created_ms = (if now_ms \<ge> created_ms then now_ms - created_ms else 0)"

definition qbf_accept :: "('w, 'y) node_os_scheme \<Rightarrow> message \<Rightarrow> sockaddr_in \<Rightarrow> 'w node_sys
    \<Rightarrow> ((log_level \<times> string) + (u64 \<times> bloom)) \<times> 'w node_sys" where
  "qbf_accept os msg from s =
     (let c = nd_config s; id = m_request_id msg; org = '' origin='' @ m_origin msg;
          frm = '' from='' @ addr_to_string from
      in if m_origin msg = []
         then (Inl (Warn, ''req_state=drop_invalid reason=missing_origin bf_type=query id='' @ id @ frm), s)
         else if m_ttl msg \<le> 0
         then (Inl (Info, ''req_state=drop_ttl reason=ttl_expired bf_type=query id='' @ id @ org
                 @ '' ttl='' @ show_int (m_ttl msg) @ frm), s)
         else if m_key msg = []
         then (Inl (Warn, ''req_state=drop_invalid reason=missing_bloom bf_type=query id='' @ id @ org @ frm), s)
         else if m_value msg = []
         then (Inl (Warn, ''req_state=drop_invalid reason=missing_created_ms bf_type=query id='' @ id @ org @ frm), s)
         else case parse_uint64 (m_value msg) of
                None \<Rightarrow> (Inl (Warn, ''req_state=drop_invalid reason=bad_created_ms bf_type=query id='' @ id @ org @ frm), s)
              | Some created_ms \<Rightarrow>
                  let (now_ms, s1) = now_millis os s; age = qbf_age now_ms created_ms
                  in if age > size_of (query_bf_ttl_ms c)
                     then (Inl (Info, ''req_state=drop_suppressed reason=bf_expired bf_type=query id='' @ id @ org
                             @ '' bf_age_ms='' @ show_u64 age @ frm), s1)
                     else case from_hex (size_of (query_bf_bits c)) (size_of (query_bf_hashes c)) (m_key msg) of
                            None \<Rightarrow> (Inl (Warn, ''req_state=drop_invalid reason=bad_bloom bf_type=query id='' @ id @ org @ frm), s1)
                          | Some f \<Rightarrow> (Inr (age, f), s1))"

text \<open>The body of the loop over the local keys.\<close>

definition qbf_serve_key :: "('w, 'y) node_os_scheme \<Rightarrow> message \<Rightarrow> sockaddr_in \<Rightarrow> u64 \<Rightarrow> bloom \<Rightarrow> string \<Rightarrow> 'w node_sys \<Rightarrow> 'w node_sys" where
  "qbf_serve_key os msg from age f key s =
     (if \<not> maybe_contains f key then s
      else let ((val, err), w) = cache_get os (nd_redis s) key (net_world s);
               s1 = s\<lparr>net_world := w\<rparr>;
               s2 = (case err of None \<Rightarrow> s1 | Some e \<Rightarrow> log_warn (''redis get error: '' @ e) s1)
           in case val of
                None \<Rightarrow> s2
              | Some v \<Rightarrow>
                  let (rid, s3) = make_request_id os s2;
                      resp = empty_message\<lparr>m_type := Data, m_request_id := rid, m_origin := m_origin msg,
                               m_ttl := request_ttl (nd_config s3), m_key := key, m_value := v\<rparr>;
                      from_label = addr_to_string from
                  in snd (fq_send_direct os node_ok node_err from resp
                       (Some (QbfServeDone rid key (m_origin msg) (m_request_id msg) age from_label))
                       (Some (QbfServeFailed rid key (m_origin msg) (m_request_id msg) from_label)) s3))"

definition qbf_ttl_line :: "message \<Rightarrow> sockaddr_in \<Rightarrow> string" where
  "qbf_ttl_line msg from =
     ''req_state=drop_ttl reason=ttl_expired bf_type=query id='' @ m_request_id msg @ '' origin='' @ m_origin msg
     @ '' ttl_in='' @ show_int (m_ttl msg) @ '' from='' @ addr_to_string from"

definition qbf_limit_line :: "message \<Rightarrow> sockaddr_in \<Rightarrow> u64 \<Rightarrow> string" where
  "qbf_limit_line msg from age =
     ''req_state=drop_suppressed reason=attempt_limit bf_type=query id='' @ m_request_id msg @ '' origin='' @ m_origin msg
     @ '' bf_age_ms='' @ show_u64 age @ '' from='' @ addr_to_string from"

definition qbf_forward_line :: "message \<Rightarrow> int \<Rightarrow> sockaddr_in \<Rightarrow> u64 \<Rightarrow> bloom \<Rightarrow> string" where
  "qbf_forward_line msg ttl from age f =
     ''req_state=forward bf_type=query id='' @ m_request_id msg @ '' origin='' @ m_origin msg
     @ '' ttl_in='' @ show_int (m_ttl msg) @ '' ttl='' @ show_int ttl
     @ '' bf_age_ms='' @ show_u64 age @ '' bf_fill='' @ show_double (fill_ratio f) @ '' from='' @ addr_to_string from"

definition qbf_forward :: "('w, 'y) node_os_scheme \<Rightarrow> message \<Rightarrow> sockaddr_in \<Rightarrow> u64 \<Rightarrow> bloom \<Rightarrow> 'w node_sys \<Rightarrow> 'w node_sys" where
  "qbf_forward os msg from age f s =
     (let forward_ttl = m_ttl msg - 1
      in if forward_ttl \<le> 0
         then log_info (qbf_ttl_line msg from) s
         else let (now, s1) = read_steady os s;
                  (ok, l) = limiter_allow now (m_origin msg) (bloom_digest f) (nd_limiter s1);
                  s2 = s1\<lparr>nd_limiter := l\<rparr>
              in if \<not> ok
                 then log_info (qbf_limit_line msg from age) s2
                 else snd (fq_send_broadcast os node_err (msg\<lparr>m_ttl := forward_ttl\<rparr>) (Some from)
                        (log_info (qbf_forward_line msg forward_ttl from age f) s2)))"

definition handle_query_bloom :: "('w, 'y) node_os_scheme \<Rightarrow> message \<Rightarrow> sockaddr_in \<Rightarrow> 'w node_sys \<Rightarrow> 'w node_sys" where
  "handle_query_bloom os msg from s =
     (case qbf_accept os msg from s of
        (Inl (level, line), s1) \<Rightarrow> log_line level line s1
      | (Inr (age, f), s1) \<Rightarrow>
          qbf_forward os msg from age f (fold (qbf_serve_key os msg from age f) (nd_local_keys s1) s1))"

subsection \<open>Dispatch\<close>

definition handle_wire_message :: "('w, 'y) node_os_scheme \<Rightarrow> string \<Rightarrow> sockaddr_in \<Rightarrow> 'w node_sys \<Rightarrow> 'w node_sys" where
  "handle_wire_message os wire from s =
     (case from_wire wire of
        None \<Rightarrow> log_warn (''received malformed message from '' @ addr_to_string from) s
      | Some msg \<Rightarrow>
          (case m_type msg of
             Request \<Rightarrow> handle_request os msg from s
           | Data \<Rightarrow> handle_data os msg from s
           | ContentBloom \<Rightarrow> handle_content_bloom os msg from s
           | QueryBloom \<Rightarrow> handle_query_bloom os msg from s
           | Unknown \<Rightarrow> log_warn (''received unknown message type from '' @ addr_to_string from) s))"

subsection \<open>What the handlers leave alone\<close>

lemma run_request_pipeline_frame:
  "same_net s (snd (run_request_pipeline os msg s))"
  "nd_config (snd (run_request_pipeline os msg s)) = nd_config s"
  by (auto simp: run_request_pipeline_def split_beta Let_def same_net_def split: option.splits)

lemma serve_request_config: "nd_config (serve_request os msg from val s) = nd_config s"
  by (simp add: serve_request_def Let_def record_local_key_def)

lemma forward_request_config: "nd_config (forward_request os msg from ttl s) = nd_config s"
  by (simp add: forward_request_def Let_def)

subsection \<open>Every output is a reply or a relay\<close>

text \<open>A reply to a message: data for its origin, sent to the node it came from, with the configured TTL. A relay: the
  message itself with the TTL one less, to every neighbour but the one it came from. Both need a positive TTL.\<close>

fun reply_to :: "config \<Rightarrow> message \<Rightarrow> sockaddr_in \<Rightarrow> out_item \<Rightarrow> bool" where
  "reply_to c msg from (kind, r, addr, ex) \<longleftrightarrow> kind = Direct \<and> addr = from \<and> m_type r = Data
     \<and> m_origin r = m_origin msg \<and> m_ttl r = request_ttl c \<and> 0 < m_ttl msg"

fun relay_of :: "message \<Rightarrow> sockaddr_in \<Rightarrow> out_item \<Rightarrow> bool" where
  "relay_of msg from (kind, r, addr, ex) \<longleftrightarrow> kind = Broadcast \<and> r = msg\<lparr>m_ttl := m_ttl msg - 1\<rparr>
     \<and> ex = Some from \<and> 0 < m_ttl msg"

definition reaction :: "config \<Rightarrow> message \<Rightarrow> sockaddr_in \<Rightarrow> out_item \<Rightarrow> bool" where
  "reaction c msg from x \<longleftrightarrow> reply_to c msg from x \<or> relay_of msg from x"

lemma request_forward_ttl:
  "rd_state (fst (request_run os rc m qt w)) = Forward \<Longrightarrow>
   0 < m_ttl m \<and> rd_forward_ttl (fst (request_run os rc m qt w)) = m_ttl m - 1"
  by (auto simp: request_defs split_beta Let_def split: option.splits if_splits)

lemma request_serve_ttl: "rd_state (fst (request_run os rc m qt w)) = ServeLocal \<Longrightarrow> 0 < m_ttl m"
  by (auto simp: request_defs split_beta Let_def split: option.splits if_splits)

lemma serve_request_outputs:
  "0 < m_ttl msg \<Longrightarrow> outputs (reaction (nd_config s) msg from) s (serve_request os msg from val s)"
  unfolding serve_request_def Let_def
  by (rule outputs_trans [OF same_net_outputs [OF record_local_key_net] nq.fq_send_direct_outputs])
    (simp add: reaction_def record_local_key_def)

lemma forward_request_outputs:
  "0 < m_ttl msg \<Longrightarrow> outputs (reaction (nd_config s) msg from) s (forward_request os msg from (m_ttl msg - 1) s)"
  unfolding forward_request_def Let_def
  by (rule outputs_trans [OF _ nq.fq_send_broadcast_outputs]) (simp_all add: reaction_def)

lemma handle_request_outputs: "outputs (reaction (nd_config s) msg from) s (handle_request os msg from s)"
proof -
  let ?p = "run_request_pipeline os msg s"
  have d: "fst ?p = fst (request_run os (nd_redis s) msg (nd_query s) (net_world s))"
    by (simp add: run_request_pipeline_def split_beta Let_def)
  have "outputs (reaction (nd_config (snd ?p)) msg from) (snd ?p) (handle_request os msg from s)"
  proof (cases "rd_state (fst ?p)")
    case Forward
    then have "0 < m_ttl msg" "rd_forward_ttl (fst ?p) = m_ttl msg - 1"
      unfolding d using request_forward_ttl [of os "nd_redis s" msg "nd_query s" "net_world s"] by simp_all
    with Forward show ?thesis
      by (simp add: handle_request_def split_beta Let_def forward_request_outputs)
  next
    case ServeLocal
    then have "0 < m_ttl msg"
      unfolding d by (rule request_serve_ttl)
    with ServeLocal show ?thesis
      by (simp add: handle_request_def split_beta Let_def serve_request_outputs)
  qed (simp_all add: handle_request_def split_beta Let_def)
  then show ?thesis
    using outputs_trans [OF same_net_outputs [OF run_request_pipeline_frame(1)]]
    by (simp add: run_request_pipeline_frame)
qed

lemma handle_data_net: "same_net s (handle_data os msg from s)"
proof (cases "dd_state (data_run (nd_config s) msg)")
  case StoreLocal
  then show ?thesis
    by (cases "cache_set os (nd_redis s) (m_key msg) (m_value msg) (net_world s)";
        cases "fst (cache_set os (nd_redis s) (m_key msg) (m_value msg) (net_world s))")
      (simp_all add: handle_data_def Let_def same_net_def record_local_key_def)
qed (simp_all add: handle_data_def Let_def)

lemma handle_content_bloom_net: "same_net s (handle_content_bloom os msg from s)"
  by (auto simp: handle_content_bloom_def Let_def same_net_def read_steady_def split_beta split: option.splits)

lemma qbf_accept_frame:
  "same_net s (snd (qbf_accept os msg from s))" "same_tables s (snd (qbf_accept os msg from s))"
  by (auto simp: qbf_accept_def Let_def same_net_def same_tables_def now_millis_def split_beta
      simp del: append.simps split: option.splits)

lemma qbf_accept_ttl: "fst (qbf_accept os msg from s) = Inr x \<Longrightarrow> 0 < m_ttl msg"
  by (auto simp: qbf_accept_def Let_def split: if_splits)

lemma qbf_serve_key_config: "nd_config (qbf_serve_key os msg from age f key s) = nd_config s"
  by (simp add: qbf_serve_key_def Let_def split_beta make_request_id_def split: option.splits)

lemma qbf_serve_key_outputs:
  assumes ttl: "0 < m_ttl msg"
  shows "outputs (reaction (nd_config s) msg from) s (qbf_serve_key os msg from age f key s)"
proof (cases "maybe_contains f key")
  case True
  let ?g = "cache_get os (nd_redis s) key (net_world s)"
  let ?s1 = "s\<lparr>net_world := snd ?g\<rparr>"
  let ?s2 = "case snd (fst ?g) of None \<Rightarrow> ?s1 | Some e \<Rightarrow> log_warn (''redis get error: '' @ e) ?s1"
  have s2: "same_net s ?s2" "nd_config ?s2 = nd_config s"
    by (auto simp: node_net split: option.splits)
  show ?thesis
  proof (cases "fst (fst ?g)")
    case None
    with True s2 show ?thesis
      by (simp add: qbf_serve_key_def split_beta Let_def same_net_outputs)
  next
    case (Some v)
    let ?s3 = "snd (make_request_id os ?s2)"
    have s3: "nd_config ?s3 = nd_config s"
      by (simp add: make_request_id_def split_beta Let_def s2)
    have "outputs (reaction (nd_config s) msg from) s ?s3"
      using same_net_outputs [OF same_net_trans [OF s2(1) make_request_id_net]] .
    then show ?thesis
      using True Some
      by (simp add: qbf_serve_key_def split_beta Let_def)
        (erule outputs_trans, rule nq.fq_send_direct_outputs, simp add: reaction_def s3 ttl)
  qed
qed (simp add: qbf_serve_key_def)

lemma qbf_serve_all_outputs:
  assumes ttl: "0 < m_ttl msg"
  shows "outputs (reaction (nd_config s) msg from) s (fold (qbf_serve_key os msg from age f) ks s)
   \<and> nd_config (fold (qbf_serve_key os msg from age f) ks s) = nd_config s"
proof (induction ks arbitrary: s)
  case (Cons k ks)
  from Cons.IH [of "qbf_serve_key os msg from age f k s"] show ?case
    using outputs_trans [OF qbf_serve_key_outputs [OF ttl, of s "from" os age f k]] by (simp add: qbf_serve_key_config)
qed simp

lemma qbf_forward_outputs:
  assumes "0 < m_ttl msg"
  shows "outputs (reaction c msg from) s (qbf_forward os msg from age f s)"
proof (cases "m_ttl msg - 1 \<le> 0")
  case False
  let ?s1 = "snd (read_steady os s)"
  let ?a = "limiter_allow (fst (read_steady os s)) (m_origin msg) (bloom_digest f) (nd_limiter ?s1)"
  have s2: "outputs (reaction c msg from) s (?s1\<lparr>nd_limiter := snd ?a\<rparr>)"
    using read_steady_net [of s os] by (intro same_net_outputs) (simp add: same_net_def)
  show ?thesis
  proof (cases "fst ?a")
    case True
    with False s2 show ?thesis
      by (simp add: qbf_forward_def Let_def split_beta)
        (rule outputs_trans [OF _ nq.fq_send_broadcast_outputs], use assms in \<open>simp_all add: reaction_def\<close>)
  qed (use False s2 in \<open>simp add: qbf_forward_def Let_def split_beta\<close>)
qed (simp add: qbf_forward_def)

lemma handle_query_bloom_outputs:
  "outputs (reaction (nd_config s) msg from) s (handle_query_bloom os msg from s)"
proof (cases "fst (qbf_accept os msg from s)")
  case (Inl l)
  then show ?thesis
    using same_net_outputs [OF qbf_accept_frame(1) [of s os msg "from"]]
    by (cases "qbf_accept os msg from s"; cases l) (simp add: handle_query_bloom_def)
next
  case (Inr x)
  obtain age f where x: "x = (age, f)" by fastforce
  let ?s1 = "snd (qbf_accept os msg from s)"
  let ?s2 = "fold (qbf_serve_key os msg from age f) (nd_local_keys ?s1) ?s1"
  have c: "nd_config ?s1 = nd_config s"
    using qbf_accept_frame(2) [of s os msg "from"] by (simp add: same_tables_def)
  have "outputs (reaction (nd_config s) msg from) s ?s1"
    by (rule same_net_outputs [OF qbf_accept_frame(1)])
  moreover have "outputs (reaction (nd_config s) msg from) ?s1 ?s2"
    using qbf_serve_all_outputs [OF qbf_accept_ttl [OF Inr], of ?s1 "from" os age f "nd_local_keys ?s1"] by (simp add: c)
  moreover have "outputs (reaction (nd_config s) msg from) ?s2 (qbf_forward os msg from age f ?s2)"
    by (rule qbf_forward_outputs [OF qbf_accept_ttl [OF Inr]])
  ultimately have "outputs (reaction (nd_config s) msg from) s (qbf_forward os msg from age f ?s2)"
    using outputs_trans by blast
  then show ?thesis
    using Inr x by (simp add: handle_query_bloom_def split_beta)
qed

text \<open>What a datagram can cause, by the type of its message.\<close>

definition caused_by :: "config \<Rightarrow> string \<Rightarrow> sockaddr_in \<Rightarrow> out_item \<Rightarrow> bool" where
  "caused_by c wire from x \<longleftrightarrow>
     (case from_wire wire of None \<Rightarrow> False
      | Some msg \<Rightarrow> m_type msg \<in> {Request, QueryBloom} \<and> reaction c msg from x)"

lemma handle_wire_outputs: "outputs (caused_by (nd_config s) wire from) s (handle_wire_message os wire from s)"
proof (cases "from_wire wire")
  case (Some msg)
  have r: "caused_by (nd_config s) wire from = (\<lambda>x. m_type msg \<in> {Request, QueryBloom} \<and> reaction (nd_config s) msg from x)"
    using Some by (simp add: caused_by_def fun_eq_iff)
  show ?thesis
  proof (cases "m_type msg")
    case Request
    with Some show ?thesis
      unfolding r using handle_request_outputs by (simp add: handle_wire_message_def)
  next
    case QueryBloom
    with Some show ?thesis
      unfolding r using handle_query_bloom_outputs by (simp add: handle_wire_message_def)
  qed (use Some same_net_outputs [OF handle_data_net] same_net_outputs [OF handle_content_bloom_net]
      in \<open>simp_all add: handle_wire_message_def\<close>)
qed (simp add: handle_wire_message_def)

end
