(* ===== verification/Node_Tasks.thy ===== *)
theory Node_Tasks
  imports Node_Handlers
begin

text \<open>
  The rest of \<^verbatim>\<open>node/node.cpp\<close> and \<^verbatim>\<open>main.cpp\<close>: start-up, the seeding of the cache, the node's own
  requests, and one round of each background thread (Content-BF exchange, fallbacks, Query-BF flush,
  topology reload). The threads, the receive loop and the queue's workers run in any order: a
  node run is a sequence of such rounds.
\<close>

subsection \<open>Start\<close>

definition node_init :: "'w host_os \<Rightarrow> 'w node_sys \<Rightarrow> string option \<times> 'w node_sys" where
  "node_init os s =
     (case validate_config (nd_config s) of
        Some e \<Rightarrow> (Some e, s)
      | None \<Rightarrow>
          let ((socket_error, connect_error), w) = os_redis_connect os (net_world s);
              (err, rc) = redis_connect socket_error connect_error (nd_redis s);
              s1 = s\<lparr>net_world := w, nd_redis := rc\<rparr>
          in case err of
               Some e \<Rightarrow> (Some e, s1)
             | None \<Rightarrow> (None, set_topology (build_topology (nd_config s1)) s1))"

definition seed_key :: "('w, 'y) node_os_scheme \<Rightarrow> key_value \<Rightarrow> 'w node_sys \<Rightarrow> 'w node_sys" where
  "seed_key os kv s =
     (case cache_set os (nd_redis s) (kv_key kv) (kv_value kv) (net_world s) of
        (Some e, w) \<Rightarrow> log_warn (''seed failed for key '' @ kv_key kv @ '': '' @ e) (s\<lparr>net_world := w\<rparr>)
      | (None, w) \<Rightarrow> log_info (''seeded key '' @ kv_key kv) (record_local_key (kv_key kv) (s\<lparr>net_world := w\<rparr>)))"

definition seed_cache :: "('w, 'y) node_os_scheme \<Rightarrow> 'w node_sys \<Rightarrow> 'w node_sys" where
  "seed_cache os s = fold (seed_key os) (seed_keys (nd_config s)) s"

text \<open>\<^verbatim>\<open>run\<close> up to the start of the threads. A failed start of the transport ends it.\<close>

definition node_run :: "'w host_os \<Rightarrow> 'w node_sys \<Rightarrow> bool \<times> 'w node_sys" where
  "node_run os s =
     (case transport_start os s of
        (Some e, s1) \<Rightarrow> (False, log_error (''udp transport start failed: '' @ e) s1)
      | (None, s1) \<Rightarrow>
          let c = nd_config s1;
              s2 = log_info (''node '' @ node_id c @ '' listening on '' @ bind_ip c @ '':'' @ show_int (bind_port c))
                     (log_info (''config '' @ config_summary c) s1)
          in (True, seed_cache os (snd (fq_start (s2\<lparr>sys_running := True\<rparr>)))))"

text \<open>\<^verbatim>\<open>main\<close>: load, set the log level, build the node, initialise, run. The state is that of the node after
  start-up; the flag tells whether it got there.\<close>

definition node_main :: "'w host_os \<Rightarrow> 'w \<Rightarrow> bool \<times> 'w node_sys" where
  "node_main os w =
     (let l = load_config_impl (os_getenv os w) (os_read_file os w) False;
          c = ld_config l;
          level = (if log_level c \<noteq> [] then parse_log_level (log_level c) else Info);
          s = (node_new c level w)\<lparr>lg_lines := map (Pair Warn) (ld_warnings l)\<rparr>
      in case node_init os s of
           (Some e, s1) \<Rightarrow> (False, log_error (''node init failed: '' @ e) s1)
         | (None, s1) \<Rightarrow> node_run os s1)"

subsection \<open>Content-BF exchange\<close>

definition content_send_line :: "config \<Rightarrow> bloom \<Rightarrow> string" where
  "content_send_line c snapshot =
     ''bf_state=content_send origin='' @ node_id c
     @ '' bf_bits='' @ show_int (content_bf_bits c) @ '' bf_hashes='' @ show_int (content_bf_hashes c)
     @ '' bf_bytes='' @ show_nat (length (bf_data snapshot)) @ '' bf_fill='' @ show_double (fill_ratio snapshot)"

definition content_exchange_round :: "('w, 'y) node_os_scheme \<Rightarrow> 'w node_sys \<Rightarrow> 'w node_sys" where
  "content_exchange_round os s =
     (let c = nd_config s; snapshot = local_snapshot (nd_content s);
          msg = empty_message\<lparr>m_type := ContentBloom, m_origin := node_id c, m_ttl := content_bf_ttl_ms c,
                  m_key := to_hex snapshot, m_value := []\<rparr>
      in snd (fq_send_broadcast os node_err msg None
           (log_debug (content_send_line c snapshot) s)))"

subsection \<open>Aggregation of a key\<close>

text \<open>Shared by the fallback thread and the node's own requests.\<close>

definition split_line :: "config \<Rightarrow> qbf_add_result \<Rightarrow> string" where
  "split_line c r =
     ''bf_state=query_split bf_type=query origin='' @ ar_origin r @ '' bf_id='' @ ar_batch_id r
     @ '' reason='' @ ar_split_reason r @ '' bf_fill='' @ show_double (ar_fill_ratio r)
     @ '' bf_fill_max='' @ show_double (query_bf_max_fill_ratio c)
     @ '' bf_keys='' @ show_nat (ar_key_count r) @ '' bf_keys_max='' @ show_int (query_bf_max_keys c)
     @ '' from=local''"

definition aggregate_key :: "('w, 'y) node_os_scheme \<Rightarrow> string \<Rightarrow> string \<Rightarrow> 'w node_sys \<Rightarrow> 'w node_sys" where
  "aggregate_key os origin key s =
     (let (r, s1) = node_add_key os origin key s; c = nd_config s1
      in if ar_split r
         then log_info (split_line c r) s1
         else s1)"

subsection \<open>Fallbacks\<close>

definition fallback_line :: "string \<Rightarrow> string \<Rightarrow> string" where
  "fallback_line key origin =
     ''req_state=drop_suppressed reason=content_fallback bf_type=query key='' @ key
     @ '' origin='' @ origin @ '' from=local''"

definition fallback_key :: "('w, 'y) node_os_scheme \<Rightarrow> string \<times> string \<Rightarrow> 'w node_sys \<Rightarrow> 'w node_sys" where
  "fallback_key os entry s =
     (case entry of (key, origin) \<Rightarrow>
        log_info (fallback_line key origin) (aggregate_key os origin key s))"

definition fallback_round :: "('w, 'y) node_os_scheme \<Rightarrow> 'w node_sys \<Rightarrow> 'w node_sys" where
  "fallback_round os s =
     (let (now, s1) = read_steady os s; (due, fb) = take_due now (nd_fallback s1)
      in fold (fallback_key os) due (s1\<lparr>nd_fallback := fb\<rparr>))"

subsection \<open>Query-BF flush\<close>

definition batch_message :: "config \<Rightarrow> qbf_batch \<Rightarrow> message" where
  "batch_message c b =
     empty_message\<lparr>m_type := QueryBloom, m_request_id := qb_batch_id b, m_origin := qb_origin b,
       m_ttl := request_ttl c, m_key := to_hex (qb_filter b), m_value := show_u64 (qb_created_ms b)\<rparr>"

definition batch_line :: "config \<Rightarrow> u64 \<Rightarrow> qbf_batch \<Rightarrow> string" where
  "batch_line c now_ms b =
     (let msg = batch_message c b; age = qbf_age now_ms (qb_created_ms b)
      in ''req_state=forward bf_type=query id='' @ m_request_id msg @ '' origin='' @ m_origin msg
         @ '' ttl='' @ show_int (m_ttl msg) @ '' bf_age_ms='' @ show_u64 age
         @ '' bf_bits='' @ show_int (query_bf_bits c) @ '' bf_hashes='' @ show_int (query_bf_hashes c)
         @ '' bf_fill='' @ show_double (fill_ratio (qb_filter b)) @ '' bf_keys='' @ show_nat (qb_key_count b))"

definition send_batch :: "('w, 'y) node_os_scheme \<Rightarrow> u64 \<Rightarrow> qbf_batch \<Rightarrow> 'w node_sys \<Rightarrow> 'w node_sys" where
  "send_batch os now_ms b s =
     (let c = nd_config s; msg = batch_message c b
      in snd (fq_send_broadcast os node_err msg None (log_info (batch_line c now_ms b) s)))"

definition flush_round :: "('w, 'y) node_os_scheme \<Rightarrow> 'w node_sys \<Rightarrow> 'w node_sys" where
  "flush_round os s =
     (let (batches, s1) = node_flush_due os s; (now_ms, s2) = now_millis os s1
      in fold (send_batch os now_ms) batches s2)"

subsection \<open>Topology reload\<close>

definition reload_failed_line :: "loaded \<Rightarrow> string" where
  "reload_failed_line l = ''topology_state=reload source='' @ ld_source l @ '' error='' @ ld_error l"

definition reload_line :: "loaded \<Rightarrow> string" where
  "reload_line l =
     ''topology_state=reload neighbors_count='' @ show_nat (length (neighbors (ld_config l))) @ '' source='' @ ld_source l"

definition reload_round :: "'w host_os \<Rightarrow> 'w node_sys \<Rightarrow> 'w node_sys" where
  "reload_round os s =
     (if topology_reload_ms (nd_config s) \<le> 0 then s
      else let l = load_config_impl (os_getenv os (net_world s)) (os_read_file os (net_world s)) True;
               s1 = fold log_warn (ld_warnings l) s
           in if ld_error l \<noteq> []
              then log_warn (reload_failed_line l) s1
              else log_info (reload_line l) (set_topology (build_topology (ld_config l)) s1))"

subsection \<open>The node's own requests\<close>

definition own_local_line :: "config \<Rightarrow> string \<Rightarrow> string \<Rightarrow> query_stats \<Rightarrow> string" where
  "own_local_line c rid key stats =
     ''req_state=serve_local id='' @ rid @ '' key='' @ key @ '' origin='' @ node_id c
     @ '' from=local'' @ query_stats_suffix stats"

definition originated_line :: "message \<Rightarrow> query_stats \<Rightarrow> string" where
  "originated_line req stats =
     ''req_state=originated id='' @ m_request_id req @ '' key='' @ m_key req @ '' ttl='' @ show_int (m_ttl req)
     @ '' origin='' @ m_origin req @ '' from=local'' @ query_stats_suffix stats"

definition direct_line :: "message \<Rightarrow> string \<Rightarrow> string" where
  "direct_line req label =
     ''bf_state=content_direct id='' @ m_request_id req @ '' key='' @ m_key req @ '' origin='' @ m_origin req
     @ '' neighbor='' @ label"

definition aggregated_line :: "message \<Rightarrow> string" where
  "aggregated_line req =
     ''req_state=drop_suppressed reason=aggregate_window bf_type=query id='' @ m_request_id req
     @ '' key='' @ m_key req @ '' origin='' @ m_origin req @ '' from=local''"

text \<open>The request for a key that the cache does not hold: its message, recorded as seen, and the neighbour it
  is for, if any.\<close>

definition originate :: "('w, 'y) node_os_scheme \<Rightarrow> string \<Rightarrow> 'w node_sys \<Rightarrow> message \<times> sockaddr_in option \<times> 'w node_sys" where
  "originate os key s2 =
     (let (rid, s3) = make_request_id os s2; c = nd_config s3;
          req = empty_message\<lparr>m_type := Request, m_request_id := rid, m_origin := node_id c,
                  m_ttl := request_ttl c, m_key := key\<rparr>;
          (now, s4) = read_steady os s3; (stamp, s5) = read_steady os s4;
          s6 = s5\<lparr>nd_query := snd (record_if_new now stamp rid (nd_query s5))\<rparr>;
          s7 = log_info (originated_line req (query_stats_of (nd_query s6))) s6;
          (now', s8) = read_steady os s7;
          (neighbor, ct) = select_neighbor now' key (nd_content s8)
      in (req, neighbor, s8\<lparr>nd_content := ct\<rparr>))"

text \<open>To one neighbour, with a fallback.\<close>

definition request_direct :: "('w, 'y) node_os_scheme \<Rightarrow> message \<Rightarrow> sockaddr_in \<Rightarrow> 'w node_sys \<Rightarrow> 'w node_sys" where
  "request_direct os req a s9 =
     (let label = addr_to_string a; rid = m_request_id req; key = m_key req;
          s10 = log_info (direct_line req label) s9;
          s11 = snd (fq_send_direct os node_ok node_err a req None
                  (Some (DirectFailed rid key (m_origin req) label)) s10);
          (now, s12) = read_steady os s11
      in s12\<lparr>nd_fallback := snd (schedule now key (m_origin req) (nd_fallback s12))\<rparr>)"

text \<open>To the aggregator.\<close>

definition request_aggregated :: "('w, 'y) node_os_scheme \<Rightarrow> message \<Rightarrow> 'w node_sys \<Rightarrow> 'w node_sys" where
  "request_aggregated os req s9 =
     log_info (aggregated_line req) (aggregate_key os (m_origin req) (m_key req) s9)"

definition request_key :: "('w, 'y) node_os_scheme \<Rightarrow> string \<Rightarrow> 'w node_sys \<Rightarrow> 'w node_sys" where
  "request_key os key s0 =
     (let ((val, err), w) = cache_get os (nd_redis s0) key (net_world s0);
          s1 = s0\<lparr>net_world := w\<rparr>;
          s2 = (case err of None \<Rightarrow> s1 | Some e \<Rightarrow> log_warn (''redis get error: '' @ e) s1)
      in case val of
           Some _ \<Rightarrow>
             let s3 = record_local_key key s2; stats = query_stats_of (nd_query s3);
                 (rid, s4) = make_request_id os s3
             in log_info (own_local_line (nd_config s2) rid key stats) s4
         | None \<Rightarrow>
             let (req, neighbor, s9) = originate os key s2
             in case neighbor of
                  Some a \<Rightarrow> request_direct os req a s9
                | None \<Rightarrow> request_aggregated os req s9)"

definition schedule_requests :: "('w, 'y) node_os_scheme \<Rightarrow> 'w node_sys \<Rightarrow> 'w node_sys" where
  "schedule_requests os s = fold (request_key os) (request_keys (nd_config s)) s"

subsection \<open>Runs\<close>

text \<open>One round of one of the threads. The workers and the callbacks they run, the receive loop, the
  background rounds, the node's requests, and the flag that stops the node.\<close>

inductive node_step :: "'w host_os \<Rightarrow> 'w node_sys \<Rightarrow> 'w node_sys \<Rightarrow> bool" for os where
  receive: "node_step os s (receive_round (handle_wire_message os) received s)"
| work: "node_step os s (snd (worker_turn os node_ok node_err s))"
| exchange: "node_step os s (content_exchange_round os s)"
| fallbacks: "node_step os s (fallback_round os s)"
| flush: "node_step os s (flush_round os s)"
| reload: "node_step os s (reload_round os s)"
| request: "node_step os s (request_key os key s)"
| stop: "node_step os s (s\<lparr>sys_running := False\<rparr>)"

inductive_cases node_stepE: "node_step os s t"

end
