(* ===== verification/Node_Invariant.thy ===== *)
theory Node_Invariant
  imports Node_Tasks
begin

text \<open>
  The invariant of a node: what holds of its tables and its queue in every state it can reach, through
  start-up, datagrams, workers, background threads and its own requests in any order. Each operation of
  \<^verbatim>\<open>Node_State\<close>, \<^verbatim>\<open>Node_Handlers\<close> and \<^verbatim>\<open>Node_Tasks\<close> has its preservation lemma.
\<close>

subsection \<open>The invariant\<close>

text \<open>Every local key is in the filter that the node advertises, which has the configured shape.\<close>

definition advertised :: "config \<Rightarrow> string list \<Rightarrow> content_table \<Rightarrow> bool" where
  "advertised c keys ct \<longleftrightarrow> ct_wf ct \<and> bloom_good (ct_local ct) \<and> distinct keys
     \<and> list_all (maybe_contains (ct_local ct)) keys
     \<and> bf_bits (ct_local ct) = size_of (content_bf_bits c) \<and> bf_hashes (ct_local ct) = size_of (content_bf_hashes c)"

text \<open>Fallbacks and Query-BF buffers exist for the node's own requests only.\<close>

definition own_fallback :: "string \<Rightarrow> string \<times> fallback_entry \<Rightarrow> bool" where
  "own_fallback self ke \<longleftrightarrow> fe_origin (snd ke) = self \<and> fst ke = make_key self (fe_key (snd ke))"

definition own_fallbacks :: "string \<Rightarrow> fallback \<Rightarrow> bool" where
  "own_fallbacks self fb \<longleftrightarrow> wf_tbl (fb_entries fb) \<and> list_all (own_fallback self) (fb_entries fb)"

definition own_buffers :: "string \<Rightarrow> aggregator \<Rightarrow> bool" where
  "own_buffers self ag \<longleftrightarrow> agg_bounded ag \<and> agg_shaped ag \<and> wf_tbl (ag_buffers ag) \<and> list_all (\<lambda>kv. fst kv = self) (ag_buffers ag)
     \<and> list_all (\<lambda>q. qb_origin q = self) (ag_pending ag)"

definition node_inv :: "'w node_sys \<Rightarrow> bool" where
  "node_inv s \<longleftrightarrow> advertised (nd_config s) (nd_local_keys s) (nd_content s) \<and> qt_wf (nd_query s) \<and> st_inv (nd_sync s)
     \<and> own_fallbacks (node_id (nd_config s)) (nd_fallback s) \<and> own_buffers (node_id (nd_config s)) (nd_agg s)
     \<and> length (fq_items s) \<le> fc_max_depth (fq_conf s)"

lemma node_invD:
  assumes "node_inv s"
  shows "advertised (nd_config s) (nd_local_keys s) (nd_content s)" "qt_wf (nd_query s)" "st_inv (nd_sync s)"
    "own_fallbacks (node_id (nd_config s)) (nd_fallback s)" "own_buffers (node_id (nd_config s)) (nd_agg s)"
    "length (fq_items s) \<le> fc_max_depth (fq_conf s)"
  using assms by (simp_all add: node_inv_def)

subsection \<open>Updates of one part\<close>

lemma node_inv_same [simp]:
  fixes s :: "'w node_sys"
  shows "node_inv (s\<lparr>net_world := w\<rparr>) = node_inv s" "node_inv (s\<lparr>net_topology := tp\<rparr>) = node_inv s"
    "node_inv (s\<lparr>net_transport := tr\<rparr>) = node_inv s" "node_inv (s\<lparr>sys_running := b\<rparr>) = node_inv s"
    "node_inv (s\<lparr>fq_started := b\<rparr>) = node_inv s" "node_inv (s\<lparr>fq_attached := b\<rparr>) = node_inv s"
    "node_inv (s\<lparr>nd_redis := rc\<rparr>) = node_inv s" "node_inv (s\<lparr>nd_counter := n\<rparr>) = node_inv s"
    "node_inv (s\<lparr>nd_limiter := l\<rparr>) = node_inv s" "node_inv (s\<lparr>lg_lines := ls\<rparr>) = node_inv s"
    "node_inv (log_line lv m s) = node_inv s"
  by (simp_all add: node_inv_def)

lemma node_inv_part [simp]:
  fixes s :: "'w node_sys"
  assumes "node_inv s"
  shows "qt_wf q \<Longrightarrow> node_inv (s\<lparr>nd_query := q\<rparr>)" "st_inv st \<Longrightarrow> node_inv (s\<lparr>nd_sync := st\<rparr>)"
    "own_fallbacks (node_id (nd_config s)) fb \<Longrightarrow> node_inv (s\<lparr>nd_fallback := fb\<rparr>)"
    "own_buffers (node_id (nd_config s)) ag \<Longrightarrow> node_inv (s\<lparr>nd_agg := ag\<rparr>)"
    "advertised (nd_config s) (nd_local_keys s) ct \<Longrightarrow> node_inv (s\<lparr>nd_content := ct\<rparr>)"
    "length q' \<le> fc_max_depth (fq_conf s) \<Longrightarrow> node_inv (s\<lparr>fq_items := q'\<rparr>)"
  using assms by (simp_all add: node_inv_def)

subsection \<open>The parts under the operations\<close>

lemma advertised_update [simp]: "advertised c ks ct \<Longrightarrow> advertised c ks (update_neighbor now a f ct)"
  using ct_wf_update [of ct now a f] by (simp add: advertised_def update_neighbor_def)

lemma advertised_select [simp]: "advertised c ks ct \<Longrightarrow> advertised c ks (snd (select_neighbor now key ct))"
  using ct_wf_select [of ct now key] by (simp add: advertised_def select_neighbor_def content_prune_def Let_def)

lemma advertised_add [simp]: "advertised c ks ct \<Longrightarrow> advertised c (List.insert k ks) (add_local_key k ct)"
  using bloom_set.good_add [of "ct_local ct" k] bloom_set.contains_add [of "ct_local ct" k]
    bloom_set.contains_mono [of "ct_local ct" _ k]
  by (auto simp: advertised_def add_local_key_def ct_wf_def list_all_iff distinct_insert)

lemma own_fallbacks_step [simp]:
  assumes "own_fallbacks self fb"
  shows "own_fallbacks self (snd (schedule now key self fb))" "own_fallbacks self (snd (cancel key org fb))"
    "own_fallbacks self (snd (take_due now fb))"
proof -
  show "own_fallbacks self (snd (schedule now key self fb))"
    using assms by (auto simp: own_fallbacks_def schedule_def Let_def list_all_iff own_fallback_def dest!: update_Nil_mem)
  show "own_fallbacks self (snd (cancel key org fb))"
    using assms by (auto simp: own_fallbacks_def cancel_def list_all_iff dest!: set_delete_mem)
  show "own_fallbacks self (snd (take_due now fb))"
    using assms take_loop_kept [of now "fb_entries fb"]
    by (auto simp: own_fallbacks_def take_due_def split_beta prune_def list_all_iff)
qed

lemma own_fallbacks_due:
  "own_fallbacks self fb \<Longrightarrow> list_all (\<lambda>e. snd e = self) (fst (take_due now fb))"
  by (auto simp: own_fallbacks_def take_due_def split_beta take_loop_due list_all_iff own_fallback_def)

lemma own_buffers_add [simp]: "own_buffers self ag \<Longrightarrow> own_buffers self (snd (add_key now ms self key ag))"
  using wf_step [of ag "AddKey now ms self key"] bounded_add [of ag now ms self key] added_shaped [of ag now ms self key]
  by (auto simp: own_buffers_def add_key_def Let_def list_all_iff batch_of_def dest!: update_Nil_mem)

lemma list_all_fst: "list_all (\<lambda>kv. fst kv = a) t \<longleftrightarrow> set (map fst t) \<subseteq> {a}"
  by (auto simp: list_all_iff)

lemma own_buffers_flush:
  assumes "own_buffers self ag"
  shows "own_buffers self (snd (flush_due now ms ag))" "list_all (\<lambda>q. qb_origin q = self) (fst (flush_due now ms ag))"
proof -
  have keys: "map fst (snd (flush_loop now ms ag (ag_buffers ag))) = map fst (ag_buffers ag)"
    by (rule flush_loop_keys)
  have "list_all (\<lambda>kv. fst kv = self) t \<Longrightarrow> list_all (\<lambda>q. qb_origin q = self) (fst (flush_loop now ms ag t))" for t
    by (induction now ms ag t rule: flush_loop.induct) (simp_all add: split_beta Let_def batch_of_def)
  then show "list_all (\<lambda>q. qb_origin q = self) (fst (flush_due now ms ag))"
    using assms by (simp add: own_buffers_def flush_due_def split_beta)
  have "list_all (\<lambda>kv. fst kv = self) (snd (flush_loop now ms ag (ag_buffers ag)))"
    using assms keys list_all_fst [of self "ag_buffers ag"] list_all_fst [of self "snd (flush_loop now ms ag (ag_buffers ag))"]
    by (simp add: own_buffers_def)
  then show "own_buffers self (snd (flush_due now ms ag))"
    using assms wf_step [of ag "FlushDue now ms"] bounded_flush [of ag now ms] flushed_shaped [of ag now ms]
    by (simp add: own_buffers_def flush_due_def split_beta)
qed

subsection \<open>Callbacks, sending, workers\<close>

lemma node_inv_more:
  fixes s t :: "'w node_sys"
  shows "net_sys.more t = net_sys.more s \<Longrightarrow> node_inv t = node_inv s"
  by (cases s; cases t) (simp add: node_inv_def)

lemma record_served_inv: "node_inv s \<Longrightarrow> node_inv (record_served key org line s)"
  using record_destination_step(1) [OF node_invD(3) [of s]] by (simp add: record_served_def split_beta Let_def)

lemma node_ok_inv: "node_inv s \<Longrightarrow> node_inv (node_ok c s)"
  by (cases c) (simp_all add: record_served_inv)

lemma node_err_inv: "node_inv (node_err f e s) = node_inv s"
  by (cases f) simp_all

lemma run_success_inv: "node_inv s \<Longrightarrow> node_inv (run_success node_ok item s)"
  by (auto simp: run_success_def node_ok_inv split: option.splits)

lemma run_failure_inv: "node_inv (run_failure node_err item e s) = node_inv s"
  by (auto simp: run_failure_def node_err_inv split: option.splits)

lemma send_to_inv: "node_inv (snd (send_to os a p s)) = node_inv s" for s :: "'w node_sys"
  by (rule node_inv_more) (rule send_to_frame)

lemma send_broadcast_inv: "node_inv (send_broadcast os m ex s) = node_inv s" for s :: "'w node_sys"
  by (rule node_inv_more) (rule send_broadcast_frame)

lemma run_direct_inv:
  assumes "node_inv s"
  shows "node_inv (snd (run_direct os node_ok node_err item s))"
proof -
  let ?r = "send_to os (fi_addr item) (to_wire (fi_msg item)) s"
  have "node_inv (snd ?r)"
    using assms by (simp add: send_to_inv)
  then show ?thesis
    by (cases ?r; cases "fst ?r") (auto simp: run_direct_def send_direct_def run_failure_inv run_success_inv)
qed

lemma enqueue_inv: "node_inv s \<Longrightarrow> node_inv (snd (enqueue node_err item s))"
  by (simp add: enqueue_def queue_push_def run_failure_inv log_state_def)

lemma fq_send_inv [simp]:
  assumes "node_inv s"
  shows "node_inv (snd (fq_send_direct os node_ok node_err addr msg a b s))"
    and "node_inv (snd (fq_send_broadcast os node_err msg ex s))"
  using assms by (simp_all add: fq_send_direct_def fq_send_broadcast_def Let_def split_beta log_state_def
      enqueue_inv run_direct_inv send_broadcast_inv)

lemma process_item_inv: "node_inv s \<Longrightarrow> node_inv (process_item os node_ok node_err item s)"
  by (simp add: process_item_def run_direct_inv send_broadcast_inv split: item_kind.splits)

lemma worker_turn_inv: "node_inv s \<Longrightarrow> node_inv (snd (worker_turn os node_ok node_err s))"
proof (cases "fq_items s")
  case (Cons item rest)
  assume s: "node_inv s"
  have "node_inv (s\<lparr>fq_items := rest\<rparr>)"
    using s node_invD(6) [OF s] Cons by simp
  then show ?thesis
    using Cons by (simp add: worker_turn_def queue_pop_def log_state_def process_item_inv)
qed (simp add: worker_turn_def queue_pop_def)

subsection \<open>Helpers and handlers\<close>

lemma clock_inv [simp]:
  "node_inv (snd (read_steady os s)) = node_inv s" "node_inv (snd (now_millis os s)) = node_inv s"
  "node_inv (snd (make_request_id os s)) = node_inv s"
  by (simp_all add: read_steady_def now_millis_def make_request_id_def split_beta Let_def)

lemma record_local_key_inv [simp]:
  assumes "node_inv s"
  shows "node_inv (record_local_key key s)"
  using node_invD [OF assms] by (simp add: record_local_key_def node_inv_def)

lemma record_if_new_part [simp]: "node_inv s \<Longrightarrow> qt_wf (snd (record_if_new now stamp rid (nd_query s)))"
  by (simp add: record_if_new_wf node_invD)

lemma request_run_part: "qt_wf qt \<Longrightarrow> qt_wf (fst (snd (snd (request_run os rc m qt w))))"
  by (auto simp: request_defs split_beta Let_def record_if_new_wf split: option.splits)

lemma run_request_pipeline_inv: "node_inv s \<Longrightarrow> node_inv (snd (run_request_pipeline os msg s))"
  by (auto simp: run_request_pipeline_def split_beta Let_def request_run_part node_invD split: option.splits)

lemma handle_request_inv: "node_inv s \<Longrightarrow> node_inv (handle_request os msg src s)"
proof -
  assume "node_inv s"
  then have "node_inv (snd (run_request_pipeline os msg s))"
    by (rule run_request_pipeline_inv)
  then show ?thesis
    by (cases "rd_state (fst (run_request_pipeline os msg s))")
      (simp_all add: handle_request_def split_beta Let_def serve_request_def forward_request_def)
qed

lemma handle_data_inv: "node_inv s \<Longrightarrow> node_inv (handle_data os msg src s)"
  by (auto simp: handle_data_def Let_def node_invD split: data_state.splits prod.splits option.splits)

lemma handle_content_bloom_inv: "node_inv s \<Longrightarrow> node_inv (handle_content_bloom os msg src s)"
  by (simp add: handle_content_bloom_def Let_def read_steady_def split_beta node_invD split: option.splits)

lemma qbf_accept_inv: "node_inv (snd (qbf_accept os msg src s)) = node_inv s"
  by (simp add: qbf_accept_def Let_def split_beta split: option.splits)

lemma qbf_serve_key_inv: "node_inv s \<Longrightarrow> node_inv (qbf_serve_key os msg src age f key s)"
  by (simp add: qbf_serve_key_def Let_def split_beta split: option.splits)

lemma qbf_serve_all_inv: "node_inv s \<Longrightarrow> node_inv (fold (qbf_serve_key os msg src age f) ks s)"
  by (induction ks arbitrary: s) (simp_all add: qbf_serve_key_inv)

lemma qbf_forward_inv: "node_inv s \<Longrightarrow> node_inv (qbf_forward os msg src age f s)"
  by (simp add: qbf_forward_def Let_def split_beta)

lemma handle_query_bloom_inv: "node_inv s \<Longrightarrow> node_inv (handle_query_bloom os msg src s)"
proof -
  assume "node_inv s"
  then have "node_inv (snd (qbf_accept os msg src s))"
    by (simp add: qbf_accept_inv)
  then show ?thesis
    by (auto simp: handle_query_bloom_def split_beta qbf_serve_all_inv qbf_forward_inv split: sum.splits)
qed

lemma handle_wire_message_inv: "node_inv s \<Longrightarrow> node_inv (handle_wire_message os wire src s)"
  by (simp add: handle_wire_message_def handle_request_inv handle_data_inv handle_content_bloom_inv
      handle_query_bloom_inv split: option.splits message_type.splits)

subsection \<open>The background threads\<close>

lemma node_add_key_inv: "node_inv s \<Longrightarrow> node_inv (snd (node_add_key os (node_id (nd_config s)) key s))"
  by (simp add: node_add_key_def read_steady_def split_beta Let_def node_invD)

lemma node_add_key_config [simp]: "nd_config (snd (node_add_key os org key s)) = nd_config s"
  by (simp add: node_add_key_def read_steady_def split_beta Let_def)

lemma aggregate_key_inv: "node_inv s \<Longrightarrow> org = node_id (nd_config s) \<Longrightarrow> node_inv (aggregate_key os org key s)"
  by (simp add: aggregate_key_def split_beta Let_def node_add_key_inv)

lemma aggregate_key_config [simp]: "nd_config (aggregate_key os org key s) = nd_config s"
  by (simp add: aggregate_key_def split_beta Let_def)

lemma fallback_keys_inv:
  "node_inv s \<Longrightarrow> list_all (\<lambda>e. snd e = node_id (nd_config s)) due \<Longrightarrow> node_inv (fold (fallback_key os) due s)"
proof (induction due arbitrary: s)
  case (Cons e due)
  have "node_inv (fallback_key os e s) \<and> nd_config (fallback_key os e s) = nd_config s"
    using Cons.prems by (cases e) (simp add: fallback_key_def aggregate_key_inv)
  with Cons show ?case
    by simp
qed simp

lemma fallback_round_inv: "node_inv s \<Longrightarrow> node_inv (fallback_round os s)"
  unfolding fallback_round_def Let_def split_beta
  by (rule fallback_keys_inv) (simp_all add: read_steady_def split_beta node_invD own_fallbacks_due)

lemma content_exchange_round_inv: "node_inv s \<Longrightarrow> node_inv (content_exchange_round os s)"
  by (simp add: content_exchange_round_def Let_def)

lemma send_batches_inv: "node_inv s \<Longrightarrow> node_inv (fold (send_batch os now_ms) bs s)"
  by (induction bs arbitrary: s) (simp_all add: send_batch_def Let_def)

lemma node_flush_due_inv: "node_inv s \<Longrightarrow> node_inv (snd (node_flush_due os s))"
  by (simp add: node_flush_due_def read_steady_def split_beta Let_def node_invD own_buffers_flush)

lemma flush_round_inv: "node_inv s \<Longrightarrow> node_inv (flush_round os s)"
  by (simp add: flush_round_def split_beta send_batches_inv node_flush_due_inv)

lemma warnings_inv: "node_inv (fold log_warn ws s) = node_inv s"
  by (induction ws arbitrary: s) simp_all

lemma reload_round_inv: "node_inv s \<Longrightarrow> node_inv (reload_round os s)"
  by (simp add: reload_round_def Let_def set_topology_def warnings_inv)

lemma originate_inv:
  assumes "node_inv s" "originate os key s = (req, nb, t)"
  shows "node_inv t \<and> m_origin req = node_id (nd_config t)"
  using assms by (auto simp: originate_def split_beta Let_def read_steady_def make_request_id_def node_invD)

lemma request_direct_inv: "node_inv s \<Longrightarrow> m_origin req = node_id (nd_config s) \<Longrightarrow> node_inv (request_direct os req a s)"
  by (simp add: request_direct_def split_beta Let_def read_steady_def node_invD)

lemma request_aggregated_inv:
  "node_inv s \<Longrightarrow> m_origin req = node_id (nd_config s) \<Longrightarrow> node_inv (request_aggregated os req s)"
  by (simp add: request_aggregated_def aggregate_key_inv)

lemma request_key_inv:
  assumes "node_inv s"
  shows "node_inv (request_key os key s)"
proof -
  obtain val err w where g: "cache_get os (nd_redis s) key (net_world s) = ((val, err), w)"
    by (metis surj_pair)
  let ?s2 = "case err of None \<Rightarrow> s\<lparr>net_world := w\<rparr> | Some e \<Rightarrow> log_warn (''redis get error: '' @ e) (s\<lparr>net_world := w\<rparr>)"
  have s2: "node_inv ?s2"
    using assms by (simp split: option.splits)
  obtain req nb t where o: "originate os key ?s2 = (req, nb, t)"
    by (metis surj_pair)
  from originate_inv [OF s2 o] g s2 o show ?thesis
    by (cases val; cases nb) (simp_all add: request_key_def split_beta Let_def request_direct_inv request_aggregated_inv)
qed

lemma receive_round_inv: "node_inv s \<Longrightarrow> node_inv (receive_round (handle_wire_message os) r s)"
  by (auto simp: receive_round_def handle_wire_message_inv split: option.splits)

lemma node_step_inv: "node_inv s \<Longrightarrow> node_step os s t \<Longrightarrow> node_inv t"
  by (erule node_stepE) (simp_all add: receive_round_inv worker_turn_inv content_exchange_round_inv fallback_round_inv
      flush_round_inv reload_round_inv request_key_inv)

subsection \<open>Start-up\<close>

lemma size_of_good:
  assumes "in_int32 bits" "in_int32 hashes" "0 < bits" "0 < hashes"
  shows "bloom_good (bloom_new (size_of bits) (size_of hashes))"
proof -
  have u: "unat (size_of bits) = nat bits" "unat (size_of hashes) = nat hashes"
    using assms by (simp_all add: unat_size_of)
  have "size_of bits \<noteq> 0" "size_of hashes \<noteq> 0"
    using u assms(3,4) by (auto simp: unat_eq_0 [symmetric])
  moreover have "nat bits + 7 < 2 ^ 64"
    using assms(1) by (auto simp: in_int32_def nat_less_iff)
  ultimately show ?thesis
    using u by (simp add: bloom_good_def bloom_wf_new)
qed

lemma node_new_inv:
  assumes "list_all in_int32 (int_fields c)" "config_valid c"
  shows "node_inv ((node_new c level w)\<lparr>lg_lines := ls\<rparr>)"
proof -
  have "bloom_good (bloom_new (size_of (content_bf_bits c)) (size_of (content_bf_hashes c)))"
    using assms by (intro size_of_good) (simp_all add: int_fields_def config_valid_def)
  then have "advertised c [] (content_table_new (size_of (content_bf_bits c)) (size_of (content_bf_hashes c)) ttl)" for ttl
    using ct_wf_new by (simp add: advertised_def content_table_new_def)
  moreover have "bloom_good (bloom_new (size_of (query_bf_bits c)) (size_of (query_bf_hashes c)))"
    using assms by (intro size_of_good) (simp_all add: int_fields_def config_valid_def)
  then have "own_buffers i (aggregator_new (size_of (query_bf_bits c)) (size_of (query_bf_hashes c)) wd ttl mf mk)" for i wd ttl mf mk
    using bounded_new by (simp add: own_buffers_def aggregator_new_def agg_shaped_def shaped_def)
  ultimately show ?thesis
    by (simp add: node_inv_def node_new_def own_fallbacks_def fallback_new_def)
qed

lemma node_init_inv: "node_inv s \<Longrightarrow> node_inv (snd (node_init os s))"
  by (simp add: node_init_def Let_def split_beta set_topology_def split: option.splits)

lemma seed_cache_inv: "node_inv s \<Longrightarrow> node_inv (seed_cache os s)"
proof -
  have "node_inv s \<Longrightarrow> node_inv (fold (seed_key os) kvs s)" for kvs
    by (induction kvs arbitrary: s) (auto simp: seed_key_def split: prod.splits option.splits)
  then show "node_inv s \<Longrightarrow> node_inv (seed_cache os s)"
    by (simp add: seed_cache_def)
qed

lemma node_run_inv: "node_inv s \<Longrightarrow> node_inv (snd (node_run os s))"
proof -
  assume "node_inv s"
  moreover have "net_sys.more (snd (transport_start os s)) = net_sys.more s"
    by (auto simp: transport_start_def Let_def split: prod.splits option.splits)
  ultimately have "node_inv (snd (transport_start os s))"
    using node_inv_more by blast
  then show ?thesis
    by (auto simp: node_run_def Let_def fq_start_def seed_cache_inv split: prod.splits option.splits)
qed

lemma node_main_inv:
  assumes "node_main os w = (True, s)"
  shows "node_inv s"
proof -
  let ?l = "load_config_impl (os_getenv os w) (os_read_file os w) False"
  let ?s0 = "(node_new (ld_config ?l) (if log_level (ld_config ?l) \<noteq> [] then parse_log_level (log_level (ld_config ?l)) else Info) w)
      \<lparr>lg_lines := map (Pair Warn) (ld_warnings ?l)\<rparr>"
  obtain s1 where init: "node_init os ?s0 = (None, s1)" and run: "node_run os s1 = (True, s)"
    using assms by (auto simp: node_main_def Let_def split: prod.splits option.splits)
  have "nd_config ?s0 = ld_config ?l"
    by (simp add: node_new_def)
  then have "config_valid (ld_config ?l)"
    using init validate_config_None by (auto simp: node_init_def split: option.splits)
  from node_new_inv [OF loaded_ints this] have "node_inv ?s0" .
  from node_init_inv [OF this, of os] have "node_inv s1"
    using init by simp
  from node_run_inv [OF this, of os] show ?thesis
    using run by simp
qed

interpretation node_system: invariant_system "\<lambda>s. \<exists>w. node_main os w = (True, s)" "node_step os" node_inv for os
  by unfold_locales (auto intro: node_main_inv node_step_inv)

subsection \<open>Property\<close>

text \<open>C3. The invariant of a node. In every state that a node reaches from a successful start, by any sequence of
  datagrams, worker turns, background rounds, own requests and stops: every local key is in the filter
  it advertises, which has bits and hash functions; summaries of neighbours are stored under their own
  addresses; no request id is recorded twice; the table of destinations is linked correctly, counts its
  destinations and is within its capacity; fallbacks and Query-BF buffers, at most one each per key and
  per origin, exist for the node's own requests only and are within their bounds; and the queue holds
  no more than its maximum.\<close>

theorem node_invariant:
  assumes "node_main os w = (True, s0)" "(node_step os)\<^sup>*\<^sup>* s0 s"
  shows "node_inv s"
  using node_system.reachable_inv [OF _ assms(2)] assms(1) by blast

text \<open>An operating system on which a node starts with the default configuration.\<close>

definition quiet_host :: "unit host_os" where
  "quiet_host = \<lparr>os_sendto = \<lambda>_ _ w. (None, w), os_getaddrinfo = \<lambda>_ _ w. (Inr zero_addr, w),
     os_socket = \<lambda>w. (None, w), os_bind = \<lambda>_ w. (None, w), os_inet_pton = \<lambda>_. None,
     os_steady = \<lambda>w. (0, w), os_wall_ms = \<lambda>w. (0, w), os_redis_send = \<lambda>_ w. (SendFailed ''closed'', w),
     os_redis_recv = \<lambda>_ w. (NoBytes ''closed'', w),
     os_redis_connect = \<lambda>w. ((None, None), w), os_getenv = \<lambda>w k. None, os_read_file = \<lambda>w p. None\<rparr>"

lemma default_config_valid: "config_valid (config_of (\<lambda>_. None) [] src)"
proof -
  obtain r where "round_double (9 / 10) = DFin r" "0 \<le> r" "r \<le> 1"
    using round_double_unit [of "9 / 10"] by auto
  moreover have "trim [] = []" "trim ''drop_newest'' = ''drop_newest''"
    by (simp_all add: trim_id is_space_def)
  ultimately show ?thesis
    by (simp add: config_valid_def config_of_def Let_def get_setting_int_def get_setting_def get_setting_double_def
        parse_neighbors_def)
qed

lemma quiet_init:
  assumes "config_valid (nd_config s)" "nd_redis s = redis_client_new ''/var/run/redis/redis.sock''"
  shows "\<exists>s1. node_init quiet_host s = (None, s1) \<and> net_transport s1 = net_transport s"
proof -
  have "validate_config (nd_config s) = None"
    using assms(1) by (simp add: validate_config_None)
  moreover have "fst (redis_connect None None (nd_redis s)) = None"
    by (simp add: assms(2) redis_connect_def redis_client_new_def)
  moreover have "os_redis_connect quiet_host w = ((None, None), w)" for w
    by (simp add: quiet_host_def)
  ultimately show ?thesis
    by (simp add: node_init_def Let_def split_beta set_topology_def)
qed

lemma quiet_run:
  assumes "tp_bind_ip (net_transport s) = ''0.0.0.0''"
  shows "\<exists>s1. node_run quiet_host s = (True, s1)"
proof -
  have "fst (transport_start quiet_host s) = None"
    by (simp add: transport_start_def quiet_host_def assms)
  then show ?thesis
    by (cases "transport_start quiet_host s") (simp add: node_run_def Let_def)
qed

text \<open>The default configuration is loaded, and a node with it is initialised.\<close>

lemma quiet_load:
  "load_config_impl (os_getenv quiet_host ()) (os_read_file quiet_host ()) False =
    \<lparr>ld_config = config_of (\<lambda>_. None) [] ''env'', ld_error = [], ld_source = ''env'', ld_warnings = []\<rparr>"
proof -
  have "config_path (\<lambda>_. None) = ([], [])"
    by (simp add: config_path_def get_env_only_def trim_id)
  then show ?thesis
    by (simp add: load_config_impl_def quiet_host_def)
qed

lemma quiet_default_init:
  "\<exists>s. node_init quiet_host ((node_new (config_of (\<lambda>_. None) [] ''env'') level ())\<lparr>lg_lines := []\<rparr>) = (None, s)
    \<and> tp_bind_ip (net_transport s) = ''0.0.0.0''"
proof -
  let ?s = "(node_new (config_of (\<lambda>_. None) [] ''env'') level ())\<lparr>lg_lines := []\<rparr>"
  have "nd_redis ?s = redis_client_new ''/var/run/redis/redis.sock''" "nd_config ?s = config_of (\<lambda>_. None) [] ''env''"
    "tp_bind_ip (net_transport ?s) = ''0.0.0.0''"
    by (simp_all add: node_new_def transport_new_def config_of_def Let_def get_setting_def)
  then show ?thesis
    using quiet_init [of ?s] default_config_valid by auto
qed

theorem node_invariant_witness:
  "\<exists>s0. node_main quiet_host () = (True, s0) \<and> node_inv (s0\<lparr>sys_running := False\<rparr>)"
proof -
  let ?c = "config_of (\<lambda>_. None) [] ''env''"
  obtain s1 where s1: "node_init quiet_host ((node_new ?c (if log_level ?c \<noteq> [] then parse_log_level (log_level ?c) else Info) ())
        \<lparr>lg_lines := []\<rparr>) = (None, s1)" "tp_bind_ip (net_transport s1) = ''0.0.0.0''"
    using quiet_default_init by blast
  obtain s0 where "node_run quiet_host s1 = (True, s0)"
    using quiet_run [OF s1(2)] by blast
  then have s0: "node_main quiet_host () = (True, s0)"
    using s1(1) by (cases "log_level ?c = []") (simp_all add: node_main_def quiet_load Let_def)
  have "(node_step quiet_host)\<^sup>*\<^sup>* s0 (s0\<lparr>sys_running := False\<rparr>)"
    by (rule r_into_rtranclp, rule node_step.stop)
  from node_invariant [OF s0 this] s0 show ?thesis
    by blast
qed

end
