(* ===== verification/Node_Contract.thy ===== *)
theory Node_Contract
  imports Node_Tasks
begin

text \<open>
  What a node promises: the outcome of each kind of message, and the traffic a datagram
  can cause. The statements are about \<^verbatim>\<open>node/node.cpp\<close> as modelled in
  \<^verbatim>\<open>Node_Handlers\<close> and \<^verbatim>\<open>Node_Tasks\<close>.
\<close>

subsection \<open>A concrete node for examples\<close>

text \<open>The world is what was sent to Redis and what Redis has still to say. Clocks stand still.\<close>

definition demo_host :: "(string \<times> string) host_os" where
  "demo_host = \<lparr>os_sendto = \<lambda>_ _ w. (None, w), os_getaddrinfo = \<lambda>_ _ w. (Inr zero_addr, w),
     os_socket = \<lambda>w. (None, w), os_bind = \<lambda>_ w. (None, w), os_inet_pton = \<lambda>_. None,
     os_steady = \<lambda>w. (0, w), os_wall_ms = \<lambda>w. (0, w), os_redis_send = pipe_send, os_redis_recv = pipe_recv,
     os_redis_connect = \<lambda>w. ((None, None), w), os_getenv = \<lambda>w k. None, os_read_file = \<lambda>w p. None\<rparr>"

definition demo_config :: config where
  "demo_config = (config_of (\<lambda>_. None) [] [])\<lparr>async_forward_enable := False, content_bf_bits := 8, query_bf_bits := 8\<rparr>"

text \<open>A node that is up, with two neighbours, and what Redis will answer.\<close>

definition demo_node :: "string \<Rightarrow> (string \<times> string) node_sys" where
  "demo_node replies = (node_new demo_config Info ([], replies))
     \<lparr>net_transport := \<lparr>tp_bind_ip = ''0.0.0.0'', tp_bind_port = 9000, tp_open = True, tp_running = True\<rparr>,
      net_topology := [\<lparr>na_host = ''a'', na_port = 9000, na_addr = demo_addr 7\<rparr>,
                       \<lparr>na_host = ''b'', na_port = 9000, na_addr = demo_addr 8\<rparr>],
      nd_redis := \<lparr>rc_path = ''/r'', rc_connected = True\<rparr>\<rparr>"

lemma demo_net_ready: "net_ready demo_host (demo_node r)"
  by (simp add: net_ready_def sends_ok_def demo_host_def demo_node_def resolved_def demo_addr_def af_inet_def)

lemma demo_node_fields [simp]:
  "fq_started (demo_node r) = False" "fq_items (demo_node r) = []" "net_sent (demo_node r) = []"
  "net_topology (demo_node r) = [\<lparr>na_host = ''a'', na_port = 9000, na_addr = demo_addr 7\<rparr>,
                       \<lparr>na_host = ''b'', na_port = 9000, na_addr = demo_addr 8\<rparr>]"
  "nd_redis (demo_node r) = \<lparr>rc_path = ''/r'', rc_connected = True\<rparr>" "nd_config (demo_node r) = demo_config"
  "net_world (demo_node r) = ([], r)" "nd_query (demo_node r) = query_table_new (query_ttl_ms demo_config)"
  "nd_local_keys (demo_node r) = []"
  by (simp_all add: demo_node_def node_new_def)

subsection \<open>The cache as the node sees it\<close>

lemma cache_get_reply:
  assumes "stream_recv (os_redis_recv os) incoming" "Redis_Client.reply_ok r"
    and "send_command (os_redis_send os) rc [''GET'', key] w = (None, w1)" "incoming w1 = reply_bytes r @ rest"
  shows "fst (cache_get os rc key w) = get_outcome r"
  using read_resp_reply [OF assms(1,2,4)] assms(3)
  by (cases r) (auto simp: cache_get_def redis_get_def)

lemma demo_get:
  "Redis_Client.reply_ok r \<Longrightarrow>
   fst (cache_get demo_host \<lparr>rc_path = ''/r'', rc_connected = True\<rparr> ''k'' ([], reply_bytes r)) = get_outcome r"
  by (rule cache_get_reply [where incoming = snd and rest = "[]" and ?w1.0 = "(resp_command [''GET'', ''k''], reply_bytes r)"])
    (simp_all add: demo_host_def pipe_recv_stream pipe_get)

subsection \<open>Requests\<close>

text \<open>The data message that answers a request.\<close>

definition request_reply :: "config \<Rightarrow> message \<Rightarrow> string \<Rightarrow> message" where
  "request_reply c msg v = empty_message\<lparr>m_type := Data, m_request_id := m_request_id msg, m_origin := m_origin msg,
     m_ttl := request_ttl c, m_key := m_key msg, m_value := v\<rparr>"

lemma run_request_pipeline_keys [simp]:
  "nd_local_keys (snd (run_request_pipeline os msg s)) = nd_local_keys s"
  by (simp add: run_request_pipeline_def split_beta Let_def split: option.splits)

lemma run_request_pipeline_result:
  "fst (run_request_pipeline os msg s) = fst (request_run os (nd_redis s) msg (nd_query s) (net_world s))"
  "nd_query (snd (run_request_pipeline os msg s)) = fst (snd (snd (request_run os (nd_redis s) msg (nd_query s) (net_world s))))"
  by (simp_all add: run_request_pipeline_def split_beta Let_def split: option.splits)

lemma serve_request_outcome:
  assumes "net_ready os s"
  shows "handed_over (Direct, request_reply (nd_config s) msg v, from, None) s (serve_request os msg from (Some v) s)
    \<and> nd_local_keys (serve_request os msg from (Some v) s) = List.insert (m_key msg) (nd_local_keys s)
    \<and> nd_query (serve_request os msg from (Some v) s) = nd_query s"
proof -
  have "net_ready os (record_local_key (m_key msg) s)"
    by (rule net_ready_same [OF assms record_local_key_net])
  from handed_over_before [OF nq.fq_send_direct_handed_over [OF this] record_local_key_net] show ?thesis
    by (simp add: serve_request_def Let_def request_reply_def record_local_key_def)
qed

lemma forward_request_outcome:
  assumes "net_ready os s"
  shows "handed_over (Broadcast, msg\<lparr>m_ttl := ttl\<rparr>, zero_addr, Some from) s (forward_request os msg from ttl s)
    \<and> nd_local_keys (forward_request os msg from ttl s) = nd_local_keys s
    \<and> nd_query (forward_request os msg from ttl s) = nd_query s"
  unfolding forward_request_def Let_def
  by (intro conjI handed_over_before [OF nq.fq_send_broadcast_handed_over]) (simp_all add: assms)

lemma handle_request_outcome:
  assumes "net_ready os s"
    and "os_steady os (net_world s) = (now, w1)" "os_steady os w1 = (stamp, w2)"
  shows "let (fresh, seen) = record_if_new now stamp (m_request_id msg) (nd_query s);
             found = fst (fst (cache_get os (nd_redis s) (m_key msg) w2));
             t = handle_request os msg src s
     in (if \<not> request_ok msg then same_net s t \<and> nd_local_keys t = nd_local_keys s \<and> nd_query t = nd_query s
         else nd_query t = seen \<and>
           (if \<not> fresh then same_net s t \<and> nd_local_keys t = nd_local_keys s
            else case found of
                Some v \<Rightarrow> handed_over (Direct, request_reply (nd_config s) msg v, src, None) s t
                    \<and> nd_local_keys t = List.insert (m_key msg) (nd_local_keys s)
              | None \<Rightarrow> handed_over (Broadcast, msg\<lparr>m_ttl := m_ttl msg - 1\<rparr>, zero_addr, Some src) s t
                    \<and> nd_local_keys t = nd_local_keys s))"
proof -
  let ?p = "run_request_pipeline os msg s"
  have net: "same_net s (snd ?p)" "nd_config (snd ?p) = nd_config s" "net_ready os (snd ?p)"
    by (rule run_request_pipeline_frame, rule run_request_pipeline_frame,
        rule net_ready_same [OF assms(1) run_request_pipeline_frame(1)])
  obtain fresh seen where r: "record_if_new now stamp (m_request_id msg) (nd_query s) = (fresh, seen)"
    by fastforce
  obtain found err w3 where g: "cache_get os (nd_redis s) (m_key msg) w2 = ((found, err), w3)"
    by (metis surj_pair)
  show ?thesis
  proof (cases "request_ok msg \<and> fresh")
    case False
    then have "rd_state (fst ?p) \<in> {DropInvalid, DropTtl, DropDuplicate}
        \<and> nd_query (snd ?p) = (if request_ok msg then seen else nd_query s)"
      using r assms(2,3)
      by (auto simp: run_request_pipeline_result request_defs request_ok_def)
    with False net(1) show ?thesis
      unfolding r g by (auto simp: handle_request_def split_beta Let_def)
  next
    case True
    note run = request_run_fresh [OF _ assms(2,3) _ g]
    have p: "fst ?p = (case found of Some v \<Rightarrow> make_serve_decision v | None \<Rightarrow> make_forward_decision (m_ttl msg - 1))"
        "nd_query (snd ?p) = seen"
      using run r True by (simp_all add: run_request_pipeline_result)
    show ?thesis
    proof (cases found)
      case None
      then have "handle_request os msg src s = forward_request os msg src (m_ttl msg - 1) (snd ?p)"
        using p by (simp add: handle_request_def split_beta Let_def make_forward_decision_def)
      then show ?thesis
        using forward_request_outcome [OF net(3)] handed_over_before [OF _ net(1)] True None p(2) r g by simp
    next
      case (Some v)
      then have "handle_request os msg src s = serve_request os msg src (Some v) (snd ?p)"
        using p by (simp add: handle_request_def split_beta Let_def make_serve_decision_def)
      then show ?thesis
        using serve_request_outcome [OF net(3)] handed_over_before [OF _ net(1)] True Some p(2) net(2) r g by simp
    qed
  qed
qed

definition demo_request :: message where
  "demo_request = \<lparr>m_type = Request, m_request_id = ''r'', m_origin = ''o'', m_ttl = 3, m_key = ''k'', m_value = []\<rparr>"

text \<open>The clock of the concrete node stands still, and an empty table has seen nothing.\<close>

lemma demo_steady: "os_steady demo_host w = (0, w)"
  by (simp add: demo_host_def)

lemma demo_fresh: "fst (record_if_new 0 0 rid (query_table_new ttl))"
  by (simp add: record_if_new_def query_prune_def query_table_new_def Let_def)

lemma demo_request_ok: "request_ok demo_request"
  by (simp add: request_ok_def demo_request_def)

lemma demo_forwards:
  "net_sent (handle_request demo_host demo_request (demo_addr 7) (demo_node (reply_bytes NullBulk))) =
     [(demo_addr 8, to_wire (demo_request\<lparr>m_ttl := 2\<rparr>))]"
  using handle_request_outcome [OF demo_net_ready [of "reply_bytes NullBulk"] demo_steady demo_steady,
      where msg = demo_request and src = "demo_addr 7"] demo_request_ok demo_fresh demo_get [of NullBulk]
  by (simp add: split_beta Let_def demo_request_def handed_over_def excluded_def same_address_def demo_addr_def)

text \<open>C1. What a node does with a request. A request whose fields are missing, whose TTL is not positive, or whose
  id was seen before changes nothing but the log and the table of ids, and sends nothing. Any other is
  recorded as seen, and the cache decides: a key found is answered with a data message for the origin, handed
  over once, to the node the request came from, and the key becomes one of the local keys; a key not found is handed over once as
  a broadcast of the same request with the TTL one less, to all but the node it came from.\<close>

theorem request_outcome:
  assumes "net_ready os s"
    and "os_steady os (net_world s) = (now, w1)" "os_steady os w1 = (stamp, w2)"
  shows "let (fresh, seen) = record_if_new now stamp (m_request_id msg) (nd_query s);
             found = fst (fst (cache_get os (nd_redis s) (m_key msg) w2));
             t = handle_request os msg src s
     in (if \<not> request_ok msg then same_net s t \<and> nd_local_keys t = nd_local_keys s \<and> nd_query t = nd_query s
         else nd_query t = seen \<and>
           (if \<not> fresh then same_net s t \<and> nd_local_keys t = nd_local_keys s
            else case found of
                Some v \<Rightarrow> handed_over (Direct, request_reply (nd_config s) msg v, src, None) s t
                    \<and> nd_local_keys t = List.insert (m_key msg) (nd_local_keys s)
              | None \<Rightarrow> handed_over (Broadcast, msg\<lparr>m_ttl := m_ttl msg - 1\<rparr>, zero_addr, Some src) s t
                    \<and> nd_local_keys t = nd_local_keys s))"
  using assms by (rule handle_request_outcome)

theorem request_outcome_witness:
  "net_sent (handle_request demo_host demo_request (demo_addr 7) (demo_node (reply_bytes (Bulk ''v'')))) =
     [(demo_addr 7, to_wire (request_reply demo_config demo_request ''v''))]
   \<and> net_sent (handle_request demo_host demo_request (demo_addr 7) (demo_node (reply_bytes NullBulk))) =
     [(demo_addr 8, to_wire (demo_request\<lparr>m_ttl := 2\<rparr>))]"
proof -
  note hit = request_outcome [OF demo_net_ready [of "reply_bytes (Bulk ''v'')"] demo_steady demo_steady,
      where msg = demo_request and src = "demo_addr 7"]
  note miss = request_outcome [OF demo_net_ready [of "reply_bytes NullBulk"] demo_steady demo_steady,
      where msg = demo_request and src = "demo_addr 7"]
  show ?thesis
    using hit miss demo_request_ok demo_fresh
      demo_get [of "Bulk ''v''"] demo_get [of NullBulk]
    by (simp add: split_beta Let_def demo_request_def handed_over_def excluded_def same_address_def demo_addr_def)
qed

subsection \<open>Data\<close>

lemma handle_data_outcome:
  "let t = handle_data os msg src s;
       (failed, w) = cache_set os (nd_redis s) (m_key msg) (m_value msg) (net_world s)
   in same_net s t \<and> nd_query t = nd_query s \<and> nd_agg t = nd_agg s \<and> nd_sync t = nd_sync s \<and>
      (if data_ok msg \<and> m_origin msg = node_id (nd_config s) \<and> failed = None
       then net_world t = w \<and> nd_local_keys t = List.insert (m_key msg) (nd_local_keys s)
          \<and> local_snapshot (nd_content t) = bloom_add (m_key msg) (local_snapshot (nd_content s))
          \<and> map_of (fb_entries (nd_fallback t)) =
              (map_of (fb_entries (nd_fallback s)))(make_key (node_id (nd_config s)) (m_key msg) := None)
       else same_tables s t
          \<and> net_world t = (if data_ok msg \<and> m_origin msg = node_id (nd_config s) then w else net_world s))"
proof -
  obtain failed w where c: "cache_set os (nd_redis s) (m_key msg) (m_value msg) (net_world s) = (failed, w)"
    by fastforce
  note st = data_run_state [of "nd_config s" msg]
  show ?thesis
    using handle_data_net [of s os msg src] c st
    by (cases failed)
      (auto simp: handle_data_def Let_def same_tables_def record_local_key_def local_snapshot_def add_local_key_def
        cancel_def delete_conv fun_eq_iff split: if_splits)
qed

text \<open>C5. What a node does with data. Data is never passed on. It is stored exactly when its fields are there, its
  TTL is positive and this node is its origin; then, if the cache takes it, the key becomes a local key that
  is advertised to the neighbours, and the fallback that waits for it is cancelled and no other. In every
  other case all tables stay as they are, and data that is not stored does not touch the cache.\<close>

theorem data_outcome:
  "let t = handle_data os msg src s;
       (failed, w) = cache_set os (nd_redis s) (m_key msg) (m_value msg) (net_world s)
   in same_net s t \<and> nd_query t = nd_query s \<and> nd_agg t = nd_agg s \<and> nd_sync t = nd_sync s \<and>
      (if data_ok msg \<and> m_origin msg = node_id (nd_config s) \<and> failed = None
       then net_world t = w \<and> nd_local_keys t = List.insert (m_key msg) (nd_local_keys s)
          \<and> local_snapshot (nd_content t) = bloom_add (m_key msg) (local_snapshot (nd_content s))
          \<and> map_of (fb_entries (nd_fallback t)) =
              (map_of (fb_entries (nd_fallback s)))(make_key (node_id (nd_config s)) (m_key msg) := None)
       else same_tables s t
          \<and> net_world t = (if data_ok msg \<and> m_origin msg = node_id (nd_config s) then w else net_world s))"
  by (rule handle_data_outcome)

subsection \<open>Filters that do not fit a datagram\<close>

lemma piece_length: "p \<in> set (pieces d s) \<Longrightarrow> length p \<le> length s"
proof (induction s arbitrary: p)
  case (Cons c s)
  obtain q qs where q: "pieces d s = q # qs"
    using pieces_Cons by blast
  with Cons.IH have "length q \<le> length s" "\<forall>r \<in> set qs. length r \<le> length s"
    by simp_all
  with Cons.prems q show ?case
    by (auto split: if_splits)
qed simp

lemma from_wire_key_length: "from_wire wire = Some msg \<Longrightarrow> length (m_key msg) \<le> length wire"
proof -
  assume w: "from_wire wire = Some msg"
  then have "4 < length (split wire (CHR ''|'') False)" "m_key msg = split wire (CHR ''|'') False ! 4"
    by (auto simp: from_wire_def Let_def split: if_splits)
  then have "m_key msg \<in> set (pieces (CHR ''|'') wire)"
    using nth_mem [of 4 "split wire (CHR ''|'') False"] by (simp add: split_keep)
  then show ?thesis by (rule piece_length)
qed

text \<open>A filter of 8185 bits or more has 2048 or more hexadecimal digits.\<close>

lemma long_filter_refused:
  assumes "8185 \<le> bits" "in_int32 bits" "length hex \<le> recv_limit"
  shows "from_hex (size_of bits) hashes hex = None"
proof -
  have n: "unat (size_of bits) = nat bits" "bits \<le> 2147483647"
    using assms(1,2) unat_size_of [of bits] by (simp_all add: in_int32_def)
  moreover from n have "nat bits < 18446744073709551609"
    by linarith
  ultimately have "unat (size_of bits + 7) = nat bits + 7"
    using unat_add_lem [of "size_of bits" 7] by simp
  then have "unat (byte_size (size_of bits)) = (nat bits + 7) div 8"
    by (simp add: byte_size_def unat_div)
  moreover have "1024 \<le> (nat bits + 7) div 8"
    using assms(1) by linarith
  ultimately show ?thesis
    using assms(3) by (simp add: from_hex_def recv_limit_def)
qed

lemma content_bloom_refused:
  "from_hex (size_of (content_bf_bits (nd_config s))) (size_of (content_bf_hashes (nd_config s))) (m_key msg) = None \<Longrightarrow>
   same_net s (handle_content_bloom os msg src s) \<and> same_tables s (handle_content_bloom os msg src s)"
  by (simp add: handle_content_bloom_def Let_def)

lemma qbf_accept_Inr:
  "fst (qbf_accept os msg src s) = Inr (age, f) \<Longrightarrow>
   from_hex (size_of (query_bf_bits (nd_config s))) (size_of (query_bf_hashes (nd_config s))) (m_key msg) = Some f"
  by (auto simp: qbf_accept_def Let_def split_beta split: if_splits option.splits)

lemma query_bloom_refused:
  assumes "fst (qbf_accept os msg src s) = Inl e"
  shows "same_net s (handle_query_bloom os msg src s) \<and> same_tables s (handle_query_bloom os msg src s)"
  using assms qbf_accept_frame [of s os msg src]
  by (cases "qbf_accept os msg src s"; cases e) (simp add: handle_query_bloom_def)

text \<open>C33. Filters that do not fit a datagram are lost. The transport reads at most 2047 bytes of a datagram, so when the
  filters are configured with 8185 bits or more, which the validation of the configuration accepts, no
  Bloom filter that arrives is ever accepted: whatever datagram is received, a Content-BF or Query-BF in
  it sends nothing and changes no table.\<close>

theorem oversized_filters_refused:
  assumes "8185 \<le> query_bf_bits (nd_config s)" "8185 \<le> content_bf_bits (nd_config s)"
    and "in_int32 (query_bf_bits (nd_config s))" "in_int32 (content_bf_bits (nd_config s))"
    and "from_wire (take recv_limit datagram) = Some msg" "m_type msg \<in> {QueryBloom, ContentBloom}"
  shows "same_net s (receive_round (handle_wire_message os) (Some (datagram, src)) s)
    \<and> same_tables s (receive_round (handle_wire_message os) (Some (datagram, src)) s)"
proof -
  have key: "length (m_key msg) \<le> recv_limit"
    using from_wire_key_length [OF assms(5)] by simp
  have "fst (qbf_accept os msg src s) \<noteq> Inr (age, f)" for age f
    using qbf_accept_Inr [of os msg src s age f] long_filter_refused [OF assms(1,3) key] by auto
  then obtain e where "fst (qbf_accept os msg src s) = Inl e"
    by (metis surj_pair sum.exhaust)
  note q = query_bloom_refused [OF this]
  note c = content_bloom_refused [OF long_filter_refused [OF assms(2,4) key], of os src]
  have ne: "take recv_limit datagram \<noteq> []"
    using assms(5) by (intro notI) (simp add: from_wire_def split_keep)
  show ?thesis
    using assms(5,6) ne q c by (auto simp: receive_round_def handle_wire_message_def)
qed

definition big_config :: config where
  "big_config = demo_config\<lparr>query_bf_bits := 8192, content_bf_bits := 8192\<rparr>"

theorem oversized_filters_refused_witness:
  "let s = (demo_node [])\<lparr>nd_config := big_config\<rparr>;
       m = empty_message\<lparr>m_type := QueryBloom, m_request_id := ''q'', m_origin := ''o'', m_ttl := 3, m_key := ''00'', m_value := ''1''\<rparr>
   in net_sent (receive_round (handle_wire_message demo_host) (Some (to_wire m, demo_addr 7)) s) = []"
proof -
  let ?m = "empty_message\<lparr>m_type := QueryBloom, m_request_id := ''q'', m_origin := ''o'', m_ttl := 3, m_key := ''00'', m_value := ''1''\<rparr>"
  let ?s = "(demo_node [])\<lparr>nd_config := big_config\<rparr>"
  have w: "from_wire (to_wire ?m) = Some ?m"
    by (rule from_wire_to_wire_exact) (simp add: wire_ok_def header_ok_def bar_free_def empty_message_def in_int32_def)
  have "length (to_wire ?m) \<le> recv_limit"
    by (simp add: to_wire_def empty_message_def recv_limit_def show_int_def show_nat.simps)
  with w have t: "from_wire (take recv_limit (to_wire ?m)) = Some ?m"
    by simp
  show ?thesis
    using oversized_filters_refused [OF _ _ _ _ t, of ?s demo_host "demo_addr 7"]
    by (simp add: big_config_def in_int32_def same_net_def empty_message_def)
qed

subsection \<open>Several messages handed over\<close>

definition handed_all :: "out_item list \<Rightarrow> 'w node_sys \<Rightarrow> 'w node_sys \<Rightarrow> bool" where
  "handed_all xs s t \<longleftrightarrow>
     (if fc_enabled (fq_conf s) \<and> fq_started s
      then net_sent t = net_sent s \<and>
        (\<exists>q. fq_items t = fq_items s @ q \<and> map core q = take (fc_max_depth (fq_conf s) - length (fq_items s)) xs)
      else fq_items t = fq_items s \<and> net_sent t = net_sent s @ concat (map (puts (net_topology s)) xs))"

lemma handed_all_log [simp]: "handed_all xs s (log_line l m t) \<longleftrightarrow> handed_all xs s t"
  by (simp add: handed_all_def)

text \<open>The parts of the state that the handlers of a Query-BF leave alone.\<close>

definition same_frame :: "'w node_sys \<Rightarrow> 'w node_sys \<Rightarrow> bool" where
  "same_frame s t \<longleftrightarrow> net_topology t = net_topology s \<and> net_transport t = net_transport s \<and> fq_conf t = fq_conf s
     \<and> fq_started t = fq_started s \<and> nd_config t = nd_config s \<and> nd_redis t = nd_redis s
     \<and> nd_limiter t = nd_limiter s \<and> nd_local_keys t = nd_local_keys s"

lemma same_frame_trans: "same_frame s t \<Longrightarrow> same_frame t u \<Longrightarrow> same_frame s u"
  by (simp add: same_frame_def)

lemma same_frame_log [simp]: "same_frame s (log_line l m t) \<longleftrightarrow> same_frame s t"
  by (simp add: same_frame_def)

lemma same_net_handed_all: "same_net s t \<Longrightarrow> handed_all [] s t"
  by (simp add: handed_all_def same_net_def)

lemma handed_over_all: "handed_over x s t \<Longrightarrow> handed_all [x] s t"
  by (auto simp: handed_all_def handed_over_def split: if_splits)

lemma handed_all_append:
  assumes "handed_all xs s t" "handed_all ys t u" "same_frame s t"
  shows "handed_all (xs @ ys) s u"
proof (cases "fc_enabled (fq_conf s) \<and> fq_started s")
  case True
  let ?n = "fc_max_depth (fq_conf s)"
  obtain q where q: "fq_items t = fq_items s @ q" "map core q = take (?n - length (fq_items s)) xs" "net_sent t = net_sent s"
    using assms(1) True by (auto simp: handed_all_def)
  obtain r where r: "fq_items u = fq_items t @ r" "map core r = take (?n - length (fq_items t)) ys" "net_sent u = net_sent t"
    using assms(2,3) True by (auto simp: handed_all_def same_frame_def)
  have "length q = min (?n - length (fq_items s)) (length xs)"
    using arg_cong [OF q(2), of length] by simp
  then have "take (?n - length (fq_items t)) ys = take (?n - length (fq_items s) - length xs) ys"
    using q(1) by (cases "?n - length (fq_items s) \<le> length xs") (auto simp: min_def)
  then show ?thesis
    using True q r by (simp add: handed_all_def)
qed (use assms in \<open>auto simp: handed_all_def same_frame_def\<close>)

lemma fq_send_direct_same_frame:
  fixes s :: "'w node_sys"
  shows "same_frame s (snd (fq_send_direct os node_ok node_err addr msg a b s))"
proof -
  let ?t = "snd (fq_send_direct os node_ok node_err addr msg a b s)"
  have o: "outputs (\<lambda>_. True) s ?t"
    by (rule nq.fq_send_direct_outputs) simp
  have "net_topology ?t = net_topology s"
  proof (cases "fc_enabled (fq_conf s) \<and> fq_started s")
    case True
    let ?i = "\<lparr>fi_kind = Direct, fi_msg = msg, fi_addr = addr, fi_exclude = None, fi_success = a, fi_failure = b\<rparr>"
    have "net_topology (snd (enqueue node_err i s)) = net_topology s" for i
      using nq.run_failure_net [of "log_state ''drop_queue'' (length (fq_items s)) s" i "''forward_queue_full''"]
      by (simp add: enqueue_def queue_push_def log_state_def same_net_def)
    with True show ?thesis
      by (simp add: fq_send_direct_def Let_def)
  next
    case False
    have "net_topology (snd (run_direct os node_ok node_err i s)) = net_topology s" for i
    proof -
      let ?r = "send_to os (fi_addr i) (to_wire (fi_msg i)) s"
      have "same_net (snd ?r) (snd (run_direct os node_ok node_err i s))"
        by (cases ?r; cases "fst ?r") (auto simp: run_direct_def send_direct_def nq.run_failure_net nq.run_success_net)
      then show ?thesis
        by (simp add: same_net_def net_frame)
    qed
    with False show ?thesis
      by (simp add: fq_send_direct_def Let_def log_state_def split_beta)
  qed
  with o show ?thesis
    by (simp add: same_frame_def outputs_def)
qed

subsection \<open>Query-BFs\<close>

lemma show_u64_ne: "show_u64 w \<noteq> []"
  by (simp add: show_u64_def)

lemma parse_uint64_show: "parse_uint64 (show_u64 w) = Some w"
proof -
  have "CHR 0x00 \<notin> set (show_nat n)" for n
    using show_nat_digits [of n] by (auto simp: list_all_iff is_digit_def)
  then show ?thesis
    using show_u64_ne [of w] by (simp add: parse_uint64_def show_u64_def strtoull_show_nat not_sym [OF show_nat_ne])
qed

definition qbf_reply :: "config \<Rightarrow> message \<Rightarrow> string \<Rightarrow> string \<times> string \<Rightarrow> message" where
  "qbf_reply c msg rid kv = empty_message\<lparr>m_type := Data, m_request_id := rid, m_origin := m_origin msg,
     m_ttl := request_ttl c, m_key := fst kv, m_value := snd kv\<rparr>"

text \<open>An id that a node makes for an answer.\<close>

definition made_id :: "('w, 'y) node_os_scheme \<Rightarrow> config \<Rightarrow> string \<Rightarrow> bool" where
  "made_id os c rid \<longleftrightarrow> (\<exists>w n. rid = node_id c @ ''-'' @ show_int (fst (os_wall_ms os w)) @ ''-'' @ show_u64 n)"

lemma made_id_make: "made_id os (nd_config s) (fst (make_request_id os s))"
  by (auto simp: made_id_def make_request_id_def split_beta Let_def)

text \<open>The local keys that a filter may contain and that the cache holds, with their values.\<close>

fun qbf_hits :: "(string \<Rightarrow> string option) \<Rightarrow> bloom \<Rightarrow> string list \<Rightarrow> (string \<times> string) list" where
  "qbf_hits store f [] = []"
| "qbf_hits store f (k # ks) =
     (case store k of Some v \<Rightarrow> if maybe_contains f k then (k, v) # qbf_hits store f ks else qbf_hits store f ks
      | None \<Rightarrow> qbf_hits store f ks)"

text \<open>A cache that answers from a fixed store.\<close>

definition cache_is :: "('w, 'y) node_os_scheme \<Rightarrow> redis_client \<Rightarrow> (string \<Rightarrow> string option) \<Rightarrow> bool" where
  "cache_is os rc store \<longleftrightarrow> (\<forall>key w. fst (cache_get os rc key w) = (store key, None))"

lemma qbf_serve_key_miss:
  assumes "cache_is os (nd_redis s) store" "\<not> maybe_contains f key \<or> store key = None"
  shows "same_net s (qbf_serve_key os msg src age f key s) \<and> same_frame s (qbf_serve_key os msg src age f key s)"
proof (cases "maybe_contains f key")
  case True
  then have "store key = None"
    using assms(2) by simp
  then have "fst (cache_get os (nd_redis s) key (net_world s)) = (None, None)"
    using assms(1) by (simp add: cache_is_def)
  with True show ?thesis
    by (simp add: qbf_serve_key_def split_beta Let_def same_net_def same_frame_def)
qed (simp add: qbf_serve_key_def same_frame_def)

lemma make_request_id_frame: "same_frame s (snd (make_request_id os s))"
  by (simp add: make_request_id_def split_beta Let_def same_frame_def)

lemma qbf_serve_key_hit:
  assumes "cache_is os (nd_redis s) store" "maybe_contains f key" "store key = Some v" "net_ready os s"
  shows "\<exists>rid. made_id os (nd_config s) rid
    \<and> handed_over (Direct, qbf_reply (nd_config s) msg rid (key, v), src, None) s (qbf_serve_key os msg src age f key s)
    \<and> same_frame s (qbf_serve_key os msg src age f key s)"
proof -
  let ?s1 = "s\<lparr>net_world := snd (cache_get os (nd_redis s) key (net_world s))\<rparr>"
  let ?s3 = "snd (make_request_id os ?s1)" and ?rid = "fst (make_request_id os ?s1)"
  have get: "fst (cache_get os (nd_redis s) key (net_world s)) = (Some v, None)"
    using assms(1,3) by (simp add: cache_is_def)
  have frame: "same_frame s ?s3"
    by (rule same_frame_trans [OF _ make_request_id_frame]) (simp add: same_frame_def)
  have net: "same_net s ?s3"
    by (rule same_net_trans [OF _ make_request_id_net]) (simp add: same_net_def)
  have run: "qbf_serve_key os msg src age f key s = snd (fq_send_direct os node_ok node_err src
      (qbf_reply (nd_config s) msg ?rid (key, v))
      (Some (QbfServeDone ?rid key (m_origin msg) (m_request_id msg) age (addr_to_string src)))
      (Some (QbfServeFailed ?rid key (m_origin msg) (m_request_id msg) (addr_to_string src))) ?s3)"
    using assms(2) get frame by (simp add: qbf_serve_key_def split_beta Let_def qbf_reply_def same_frame_def)
  show ?thesis
    unfolding run
    using handed_over_before [OF nq.fq_send_direct_handed_over [OF net_ready_same [OF assms(4) net]] net]
      same_frame_trans [OF frame fq_send_direct_same_frame] made_id_make [of os ?s1] by fastforce
qed

lemma qbf_serve_all:
  assumes "cache_is os (nd_redis s) store" "net_ready os s"
  shows "\<exists>rids. length rids = length (qbf_hits store f ks) \<and> list_all (made_id os (nd_config s)) rids \<and>
      handed_all (map2 (\<lambda>rid kv. (Direct, qbf_reply (nd_config s) msg rid kv, src, None)) rids (qbf_hits store f ks)) s
        (fold (qbf_serve_key os msg src age f) ks s)
    \<and> same_frame s (fold (qbf_serve_key os msg src age f) ks s)"
  using assms
proof (induction ks arbitrary: s)
  case Nil
  then show ?case
    by (simp add: same_net_handed_all same_frame_def)
next
  case (Cons k ks)
  let ?s1 = "qbf_serve_key os msg src age f k s"
  have next_ready: "same_frame s ?s1 \<Longrightarrow> cache_is os (nd_redis ?s1) store \<and> net_ready os ?s1 \<and> nd_config ?s1 = nd_config s"
    using Cons.prems by (simp add: same_frame_def net_ready_def)
  show ?case
  proof (cases "maybe_contains f k \<and> store k \<noteq> None")
    case True
    then obtain v rid where id: "made_id os (nd_config s) rid" and v: "store k = Some v"
        "handed_over (Direct, qbf_reply (nd_config s) msg rid (k, v), src, None) s ?s1" "same_frame s ?s1"
      using qbf_serve_key_hit [OF Cons.prems(1) _ _ Cons.prems(2)] by blast
    obtain rids where ids: "list_all (made_id os (nd_config s)) rids" and r: "length rids = length (qbf_hits store f ks)"
        "handed_all (map2 (\<lambda>rid kv. (Direct, qbf_reply (nd_config s) msg rid kv, src, None)) rids (qbf_hits store f ks)) ?s1
          (fold (qbf_serve_key os msg src age f) ks ?s1)"
        "same_frame ?s1 (fold (qbf_serve_key os msg src age f) ks ?s1)"
      using Cons.IH [of ?s1] next_ready [OF v(3)] by auto
    show ?thesis
      using True id ids v r handed_all_append [OF handed_over_all [OF v(2)] r(2) v(3)] same_frame_trans [OF v(3) r(3)]
      by (intro exI [of _ "rid # rids"]) simp
  next
    case False
    then have m: "same_net s ?s1" "same_frame s ?s1"
      using qbf_serve_key_miss [OF Cons.prems(1)] by auto
    obtain rids where ids: "list_all (made_id os (nd_config s)) rids" and r: "length rids = length (qbf_hits store f ks)"
        "handed_all (map2 (\<lambda>rid kv. (Direct, qbf_reply (nd_config s) msg rid kv, src, None)) rids (qbf_hits store f ks)) ?s1
          (fold (qbf_serve_key os msg src age f) ks ?s1)"
        "same_frame ?s1 (fold (qbf_serve_key os msg src age f) ks ?s1)"
      using Cons.IH [of ?s1] next_ready [OF m(2)] by auto
    have "qbf_hits store f (k # ks) = qbf_hits store f ks"
      using False by (auto split: option.splits)
    then show ?thesis
      using ids r handed_all_append [OF same_net_handed_all [OF m(1)] r(2) m(2)] same_frame_trans [OF m(2) r(3)]
      by (intro exI [of _ rids]) simp
  qed
qed

text \<open>What the node passes on, given the time at which it asks the limiter.\<close>

definition qbf_relay :: "message \<Rightarrow> sockaddr_in \<Rightarrow> bool \<Rightarrow> out_item list" where
  "qbf_relay msg src allowed =
     (if 1 < m_ttl msg \<and> allowed then [(Broadcast, msg\<lparr>m_ttl := m_ttl msg - 1\<rparr>, zero_addr, Some src)] else [])"

lemma qbf_forward_outcome:
  assumes "net_ready os s"
  shows "\<exists>now. let (ok, l) = limiter_allow now (m_origin msg) (bloom_digest f) (nd_limiter s)
      in handed_all (qbf_relay msg src ok) s (qbf_forward os msg src age f s)
       \<and> nd_limiter (qbf_forward os msg src age f s) = (if 1 < m_ttl msg then l else nd_limiter s)
       \<and> nd_local_keys (qbf_forward os msg src age f s) = nd_local_keys s"
proof -
  obtain now w where now: "os_steady os (net_world s) = (now, w)" by fastforce
  obtain ok l where a: "limiter_allow now (m_origin msg) (bloom_digest f) (nd_limiter s) = (ok, l)" by fastforce
  let ?s2 = "s\<lparr>net_world := w, nd_limiter := l\<rparr>"
  let ?t = "qbf_forward os msg src age f s"
  have net: "same_net s ?s2"
    by (simp add: same_net_def)
  have "handed_all (qbf_relay msg src ok) s ?t \<and> nd_limiter ?t = (if 1 < m_ttl msg then l else nd_limiter s)
      \<and> nd_local_keys ?t = nd_local_keys s"
  proof (cases "1 < m_ttl msg \<and> ok")
    case True
    then have "handed_over (Broadcast, msg\<lparr>m_ttl := m_ttl msg - 1\<rparr>, zero_addr, Some src) s ?t"
      using handed_over_before [OF nq.fq_send_broadcast_handed_over net] net_ready_same [OF assms net] now a
      by (simp add: qbf_forward_def Let_def read_steady_def)
        (rule handed_over_before [OF nq.fq_send_broadcast_handed_over], simp_all add: same_net_def)
    then show ?thesis
      using True now a by (auto simp: qbf_relay_def qbf_forward_def Let_def read_steady_def intro!: handed_over_all)
  next
    case False
    then show ?thesis
      using now a same_net_handed_all [OF net]
      by (auto simp: qbf_relay_def qbf_forward_def Let_def read_steady_def same_net_handed_all)
  qed
  then show ?thesis
    using a by (intro exI [of _ now]) simp
qed

lemma qbf_accept_exact:
  "fst (qbf_accept os msg src s) = Inr (age, f) \<longleftrightarrow>
     m_origin msg \<noteq> [] \<and> 0 < m_ttl msg \<and> m_key msg \<noteq> [] \<and> m_value msg \<noteq> []
     \<and> (\<exists>created. parse_uint64 (m_value msg) = Some created
          \<and> age = qbf_age (word_of_int (fst (os_wall_ms os (net_world s)))) created)
     \<and> age \<le> size_of (query_bf_ttl_ms (nd_config s))
     \<and> from_hex (size_of (query_bf_bits (nd_config s))) (size_of (query_bf_hashes (nd_config s))) (m_key msg) = Some f"
  by (auto simp: qbf_accept_def Let_def split_beta now_millis_def split: if_splits option.splits)

lemma qbf_age_le: "qbf_age wall created \<le> limit \<longleftrightarrow> wall < created \<or> wall - created \<le> limit"
  by (auto simp: qbf_age_def)

lemma qbf_accepted_iff:
  "(\<exists>age f. fst (qbf_accept os msg src s) = Inr (age, f)) \<longleftrightarrow>
     m_origin msg \<noteq> [] \<and> 0 < m_ttl msg \<and> m_key msg \<noteq> [] \<and> m_value msg \<noteq> []
     \<and> from_hex (size_of (query_bf_bits (nd_config s))) (size_of (query_bf_hashes (nd_config s))) (m_key msg) \<noteq> None
     \<and> (\<exists>created. parse_uint64 (m_value msg) = Some created
          \<and> (word_of_int (fst (os_wall_ms os (net_world s))) < created
              \<or> word_of_int (fst (os_wall_ms os (net_world s))) - created \<le> size_of (query_bf_ttl_ms (nd_config s))))"
  by (auto simp: qbf_accept_exact qbf_age_le)

lemma handle_query_bloom_outcome:
  assumes "cache_is os (nd_redis s) store" "net_ready os s"
  shows "let t = handle_query_bloom os msg src s in
    case fst (qbf_accept os msg src s) of
      Inl e \<Rightarrow> same_net s t \<and> same_tables s t
    | Inr (age, f) \<Rightarrow>
        m_origin msg \<noteq> [] \<and> 0 < m_ttl msg \<and> age \<le> size_of (query_bf_ttl_ms (nd_config s))
        \<and> from_hex (size_of (query_bf_bits (nd_config s))) (size_of (query_bf_hashes (nd_config s))) (m_key msg) = Some f
        \<and> (\<exists>rids now. let (ok, l) = limiter_allow now (m_origin msg) (bloom_digest f) (nd_limiter s) in
             length rids = length (qbf_hits store f (nd_local_keys s)) \<and> list_all (made_id os (nd_config s)) rids
             \<and> handed_all (map2 (\<lambda>rid kv. (Direct, qbf_reply (nd_config s) msg rid kv, src, None)) rids
                   (qbf_hits store f (nd_local_keys s)) @ qbf_relay msg src ok) s t
             \<and> nd_limiter t = (if 1 < m_ttl msg then l else nd_limiter s)
             \<and> nd_local_keys t = nd_local_keys s)"
proof (cases "fst (qbf_accept os msg src s)")
  case (Inl e)
  then show ?thesis
    using query_bloom_refused [OF Inl] by simp
next
  case (Inr x)
  obtain age f where x: "x = (age, f)" by fastforce
  let ?s1 = "snd (qbf_accept os msg src s)"
  let ?s2 = "fold (qbf_serve_key os msg src age f) (nd_local_keys ?s1) ?s1"
  have frame1: "same_frame s ?s1" and net1: "same_net s ?s1"
    using qbf_accept_frame [of s os msg src] by (simp_all add: same_frame_def same_net_def same_tables_def)
  have "cache_is os (nd_redis ?s1) store" "net_ready os ?s1"
    using assms frame1 by (simp_all add: same_frame_def net_ready_def)
  from qbf_serve_all [OF this, of f "nd_local_keys ?s1" msg src age] frame1
  obtain rids where ids: "list_all (made_id os (nd_config s)) rids" and r: "length rids = length (qbf_hits store f (nd_local_keys s))"
      "handed_all (map2 (\<lambda>rid kv. (Direct, qbf_reply (nd_config s) msg rid kv, src, None)) rids (qbf_hits store f (nd_local_keys s))) ?s1 ?s2"
      "same_frame ?s1 ?s2"
    by (auto simp: same_frame_def)
  have frame2: "same_frame s ?s2"
    by (rule same_frame_trans [OF frame1 r(3)])
  then have "net_ready os ?s2"
    using assms(2) by (simp add: same_frame_def net_ready_def)
  note fwd = qbf_forward_outcome [OF this, of msg f src age]
  have s2: "nd_limiter ?s2 = nd_limiter s" "nd_local_keys ?s2 = nd_local_keys s"
    using frame2 by (simp_all add: same_frame_def)
  obtain now where "let (ok, l) = limiter_allow now (m_origin msg) (bloom_digest f) (nd_limiter s)
      in handed_all (qbf_relay msg src ok) ?s2 (qbf_forward os msg src age f ?s2)
       \<and> nd_limiter (qbf_forward os msg src age f ?s2) = (if 1 < m_ttl msg then l else nd_limiter s)
       \<and> nd_local_keys (qbf_forward os msg src age f ?s2) = nd_local_keys s"
    using fwd unfolding s2 by (rule exE)
  moreover have "handle_query_bloom os msg src s = qbf_forward os msg src age f ?s2"
    using Inr x by (simp add: handle_query_bloom_def split_beta)
  moreover note handed_all_append [OF handed_all_append [OF same_net_handed_all [OF net1] r(2) frame1] _ frame2]
  ultimately have "\<exists>rids now. let (ok, l) = limiter_allow now (m_origin msg) (bloom_digest f) (nd_limiter s) in
      length rids = length (qbf_hits store f (nd_local_keys s)) \<and> list_all (made_id os (nd_config s)) rids
      \<and> handed_all (map2 (\<lambda>rid kv. (Direct, qbf_reply (nd_config s) msg rid kv, src, None)) rids
            (qbf_hits store f (nd_local_keys s)) @ qbf_relay msg src ok) s (handle_query_bloom os msg src s)
      \<and> nd_limiter (handle_query_bloom os msg src s) = (if 1 < m_ttl msg then l else nd_limiter s)
      \<and> nd_local_keys (handle_query_bloom os msg src s) = nd_local_keys s"
    using r(1) ids by (intro exI [of _ rids] exI [of _ now]) (auto simp: split_beta)
  then show ?thesis
    using Inr x qbf_accept_exact [of os msg src s age f] by simp
qed

text \<open>C2. What a node does with a Query-BF. It is accepted exactly when its origin, filter and creation time are there,
  its TTL is positive, its creation time is a number that lies in the future or at most the configured time to live in
  the past, and its filter has the configured shape; else nothing is sent and no table changes. An accepted one is answered once for every local key
  that the filter may contain and the cache holds, with a data message for the origin that has an id of this node's, handed
  over to the node it came from; and, whether or not a key matched, it is then handed over as a broadcast with the TTL
  one less, to all but that node, exactly when that TTL is positive and the limiter allows the pair
  of origin and filter at that time.\<close>

theorem query_bloom_outcome:
  assumes "cache_is os (nd_redis s) store" "net_ready os s"
  shows "let t = handle_query_bloom os msg src s; c = nd_config s;
             wall = word_of_int (fst (os_wall_ms os (net_world s))) :: u64;
             parsed = from_hex (size_of (query_bf_bits c)) (size_of (query_bf_hashes c)) (m_key msg)
    in if m_origin msg \<noteq> [] \<and> 0 < m_ttl msg \<and> m_key msg \<noteq> [] \<and> m_value msg \<noteq> [] \<and> parsed \<noteq> None
         \<and> (\<exists>created. parse_uint64 (m_value msg) = Some created
              \<and> (wall < created \<or> wall - created \<le> size_of (query_bf_ttl_ms c)))
       then \<exists>f rids now. parsed = Some f \<and> (let (ok, l) = limiter_allow now (m_origin msg) (bloom_digest f) (nd_limiter s) in
             length rids = length (qbf_hits store f (nd_local_keys s)) \<and> list_all (made_id os c) rids
             \<and> handed_all (map2 (\<lambda>rid kv. (Direct, qbf_reply c msg rid kv, src, None)) rids
                   (qbf_hits store f (nd_local_keys s)) @ qbf_relay msg src ok) s t
             \<and> nd_limiter t = (if 1 < m_ttl msg then l else nd_limiter s)
             \<and> nd_local_keys t = nd_local_keys s)
       else same_net s t \<and> same_tables s t"
proof (cases "fst (qbf_accept os msg src s)")
  case (Inl e)
  then have "\<nexists>age f. fst (qbf_accept os msg src s) = Inr (age, f)"
    by simp
  with handle_query_bloom_outcome [OF assms, of msg src] Inl show ?thesis
    unfolding qbf_accepted_iff Let_def by (simp only: sum.case if_False)
next
  case (Inr x)
  obtain age f where "x = (age, f)" by fastforce
  with Inr have acc: "fst (qbf_accept os msg src s) = Inr (age, f)"
    by simp
  then have cond: "\<exists>age f. fst (qbf_accept os msg src s) = Inr (age, f)"
    by blast
  from handle_query_bloom_outcome [OF assms, of msg src, unfolded acc sum.case prod.case Let_def] show ?thesis
    unfolding Let_def if_P [OF cond [unfolded qbf_accepted_iff]] by (elim conjE exE) (intro exI conjI; assumption)
qed

text \<open>A Redis that answers every command with the same reply.\<close>

definition answer_host :: "resp_reply \<Rightarrow> (string \<times> string) host_os" where
  "answer_host r = demo_host\<lparr>os_redis_send := \<lambda>d w. (SentBytes (length d - 1), (d, reply_bytes r))\<rparr>"

abbreviation server_host :: "(string \<times> string) host_os" where
  "server_host \<equiv> answer_host (Bulk ''v'')"

lemma answer_send:
  "send_command (os_redis_send (answer_host r)) \<lparr>rc_path = ''/r'', rc_connected = True\<rparr> args w =
     (None, (resp_command args, reply_bytes r))"
proof -
  obtain c cs where cmd: "resp_command args = c # cs"
    by (simp add: resp_command_def)
  then show ?thesis
    by (simp add: send_command_def answer_host_def send_loop.simps [of _ "_ # _"] send_loop.simps [of _ "[]"])
qed

lemma answer_cache:
  assumes "Redis_Client.reply_ok r"
  shows "fst (cache_get (answer_host r) \<lparr>rc_path = ''/r'', rc_connected = True\<rparr> key w) = get_outcome r"
proof (rule cache_get_reply [where incoming = snd and rest = "[]", OF _ assms answer_send])
  show "stream_recv (os_redis_recv (answer_host r)) snd"
    by (simp add: answer_host_def demo_host_def pipe_recv_stream)
  show "snd (resp_command [''GET'', key], reply_bytes r) = reply_bytes r @ []"
    by (simp only: snd_conv append_Nil2)
qed

lemma server_cache: "cache_is server_host \<lparr>rc_path = ''/r'', rc_connected = True\<rparr> (\<lambda>_. Some ''v'')"
  by (simp add: cache_is_def answer_cache)

theorem query_bloom_outcome_witness:
  "let f = bloom_add ''k'' (bloom_new 8 4);
       m = \<lparr>m_type = QueryBloom, m_request_id = ''q'', m_origin = ''o'', m_ttl = 1, m_key = to_hex f, m_value = show_u64 0\<rparr>
   in \<exists>rid. net_sent (handle_query_bloom server_host m (demo_addr 7) ((demo_node [])\<lparr>nd_local_keys := [''k'']\<rparr>)) =
       [(demo_addr 7, to_wire (qbf_reply demo_config m rid (''k'', ''v'')))]"
proof -
  let ?f = "bloom_add ''k'' (bloom_new 8 4)"
  let ?m = "\<lparr>m_type = QueryBloom, m_request_id = ''q'', m_origin = ''o'', m_ttl = 1, m_key = to_hex ?f, m_value = show_u64 0\<rparr>"
  let ?s = "(demo_node [])\<lparr>nd_local_keys := [''k'']\<rparr>"
  have good: "bloom_good (bloom_new 8 4)"
    by (simp add: bloom_good_def bloom_wf_new)
  have c: "size_of (query_bf_bits demo_config) = 8" "size_of (query_bf_hashes demo_config) = 4"
    by (simp_all add: demo_config_def config_of_def Let_def size_of_def get_setting_int_def get_setting_def)
  have "bloom_good ?f"
    by (rule bloom_set.good_add [OF good])
  then have wf: "bloom_wf ?f"
    by (simp add: bloom_good_def)
  have shape: "bf_bits ?f = 8" "bf_hashes ?f = 4"
    by (simp_all add: bloom_add_def bloom_new_def Let_def)
  have hex: "from_hex 8 4 (to_hex ?f) = Some ?f" "to_hex ?f \<noteq> []"
    using from_hex_to_hex [OF wf] shape by (auto simp: from_hex_def byte_size_def)
  have fresh: "word_of_int (fst (os_wall_ms server_host (net_world ?s))) = (0 :: u64)"
    by (simp add: answer_host_def demo_host_def)
  have hits: "qbf_hits (\<lambda>_. Some ''v'') ?f [''k''] = [(''k'', ''v'')]"
    using bloom_set.contains_add [OF good, of "''k''"] by simp
  have ready: "net_ready server_host ?s"
    using demo_net_ready [of "[]"] by (simp add: net_ready_def sends_ok_def answer_host_def demo_host_def)
  obtain rids :: "string list" where "length rids = 1" and
    h: "handed_all (map2 (\<lambda>rid kv. (Direct, qbf_reply demo_config ?m rid kv, demo_addr 7, None)) rids [(''k'', ''v'')]) ?s
         (handle_query_bloom server_host ?m (demo_addr 7) ?s)"
    using query_bloom_outcome [of server_host ?s "\<lambda>_. Some ''v''" ?m "demo_addr 7"] server_cache ready hits hex fresh c
    by (auto simp: qbf_relay_def split_beta Let_def parse_uint64_show show_u64_ne)
  then obtain rid where "rids = [rid]"
    by (auto simp: length_Suc_conv)
  with h show ?thesis
    by (auto simp: handed_all_def Let_def)
qed

subsection \<open>What a datagram can cause\<close>

text \<open>C6. A datagram causes replies and relays only. Whatever bytes arrive, in whatever state, everything that is
  queued or sent by the handler is either data for the origin of the message, sent to the node it came
  from with the configured TTL, or the message itself with its TTL one less, broadcast to all but that
  node, and then its TTL was positive. Only requests and Query-BFs cause anything; data, Content-BFs,
  unknown and malformed messages send nothing.\<close>

theorem datagram_outputs:
  "outputs (caused_by (nd_config s) wire src) s (handle_wire_message os wire src s)"
  by (rule handle_wire_outputs)

text \<open>A datagram that the node queues or sends while it handles another.\<close>

definition emits :: "('w, 'y) node_os_scheme \<Rightarrow> 'w node_sys \<Rightarrow> string \<Rightarrow> sockaddr_in \<Rightarrow> string \<Rightarrow> bool" where
  "emits os s wire src wire' \<longleftrightarrow>
     (let t = handle_wire_message os wire src s
      in wire' \<in> (to_wire \<circ> fi_msg) ` set (drop (length (fq_items s)) (fq_items t))
       \<or> wire' \<in> snd ` set (drop (length (net_sent s)) (net_sent t)))"

lemma emits_caused:
  assumes "emits os s wire src wire'"
  shows "\<exists>kind m addr ex. caused_by (nd_config s) wire src (kind, m, addr, ex) \<and> wire' = to_wire m"
proof -
  let ?t = "handle_wire_message os wire src s"
  obtain q d where q: "fq_items ?t = fq_items s @ q" "\<forall>i \<in> set q. caused_by (nd_config s) wire src (core i)"
    and d: "net_sent ?t = net_sent s @ d" "\<forall>x \<in> set d. \<exists>y. caused_by (nd_config s) wire src y \<and> carries_output y x"
    using handle_wire_outputs [of s wire src os] by (auto simp: outputs_def)
  from assms q(1) d(1) have "wire' \<in> (to_wire \<circ> fi_msg) ` set q \<or> wire' \<in> snd ` set d"
    by (simp add: emits_def Let_def)
  then show ?thesis
  proof
    assume "wire' \<in> (to_wire \<circ> fi_msg) ` set q"
    then obtain i where "i \<in> set q" "wire' = to_wire (fi_msg i)" by auto
    with q(2) have "caused_by (nd_config s) wire src (fi_kind i, fi_msg i, fi_addr i, fi_exclude i)"
      by (simp add: core_def)
    with \<open>wire' = to_wire (fi_msg i)\<close> show ?thesis by blast
  next
    assume "wire' \<in> snd ` set d"
    then obtain x where "x \<in> set d" "wire' = snd x" by auto
    with d(2) obtain y where "caused_by (nd_config s) wire src y" "carries_output y x" by blast
    with \<open>wire' = snd x\<close> show ?thesis
      by (cases y) (auto simp: carries_output_def)
  qed
qed

lemma to_wire_type: "from_wire (to_wire m) = Some m' \<Longrightarrow> m_type m' = m_type m"
proof -
  assume w: "from_wire (to_wire m) = Some m'"
  have "pieces (CHR ''|'') (to_wire m) ! 0 = message_type_label (m_type m)"
    by (simp add: to_wire_def pieces_append)
  with w show ?thesis
    by (auto simp: from_wire_def Let_def split_keep split: if_splits)
qed

text \<open>Handling a datagram uses up one unit of its TTL: what it causes is read as data or with the TTL one less.\<close>

lemma emits_ttl:
  assumes "emits os s wire src wire'" "from_wire wire = Some msg"
  shows "m_type msg \<noteq> Data \<and> 0 < m_ttl msg \<and>
    (case from_wire wire' of None \<Rightarrow> True | Some msg' \<Rightarrow> m_type msg' = Data \<or> m_ttl msg' = m_ttl msg - 1)"
proof -
  obtain kind m addr ex where c: "caused_by (nd_config s) wire src (kind, m, addr, ex)" "wire' = to_wire m"
    using emits_caused [OF assms(1)] by blast
  then have t: "m_type msg \<noteq> Data" "0 < m_ttl msg" and m: "m_type m = Data \<or> m = msg\<lparr>m_ttl := m_ttl msg - 1\<rparr>"
    using assms(2) by (auto simp: caused_by_def reaction_def)
  show ?thesis
  proof (cases "m_type m = Data")
    case True
    with t c(2) show ?thesis
      by (auto split: option.splits dest: to_wire_type)
  next
    case False
    then have m': "m = msg\<lparr>m_ttl := m_ttl msg - 1\<rparr>"
      using m by simp
    then have "header_ok m"
      using from_wire_wire_ok [OF assms(2)] t(2) by (simp add: wire_ok_def header_ok_def in_int32_def)
    with from_wire_to_wire [of m] m' t c(2) show ?thesis
      by simp
  qed
qed

lemma emits_parsed: "emits os s wire src wire' \<Longrightarrow> from_wire wire \<noteq> None"
  using emits_caused [of os s wire src wire'] by (auto simp: caused_by_def split: option.splits)

text \<open>A flood ends. Take any chain of datagrams in which each is one that some node, in whatever state, with
  whatever configuration and from whatever neighbour, queues or sends because it received the one
  before: the chain is no longer than the TTL of its first message. So no datagram causes endless traffic in
  a network of any shape, even when no node remembers what it has seen.\<close>

theorem flood_ends:
  assumes "from_wire (w 0) = Some msg" "\<And>i. i < n \<Longrightarrow> emits (os i) (s i) (w i) (src i) (w (Suc i))"
  shows "n \<le> nat (m_ttl msg)"
proof -
  have chain: "\<exists>m. from_wire (w i) = Some m \<and> m_ttl m = m_ttl msg - int i" if "i < n" for i
    using that
  proof (induction i)
    case (Suc i)
    then obtain m where m: "from_wire (w i) = Some m" "m_ttl m = m_ttl msg - int i"
      by auto
    obtain m' where m': "from_wire (w (Suc i)) = Some m'"
      using emits_parsed [OF assms(2) [OF Suc.prems]] by auto
    have "m_type m' \<noteq> Data"
      using emits_ttl [OF assms(2) [OF Suc.prems] m'] by simp
    moreover have "i < n"
      using Suc.prems by simp
    ultimately show ?case
      using emits_ttl [OF assms(2) [OF \<open>i < n\<close>] m(1)] m' m(2) by auto
  qed (use assms(1) in simp)
  show ?thesis
  proof (cases n)
    case (Suc k)
    then obtain m where m: "from_wire (w k) = Some m" "m_ttl m = m_ttl msg - int k"
      using chain [of k] by auto
    have "0 < m_ttl m"
      using emits_ttl [OF assms(2) [of k] m(1)] Suc by simp
    with m(2) Suc show ?thesis by simp
  qed simp
qed

theorem flood_ends_witness:
  "emits demo_host (demo_node (reply_bytes NullBulk)) (to_wire demo_request) (demo_addr 7) (to_wire (demo_request\<lparr>m_ttl := 2\<rparr>))
   \<and> (1::nat) \<le> nat (m_ttl demo_request)"
proof -
  let ?w = "\<lambda>i::nat. to_wire (demo_request\<lparr>m_ttl := 3 - int i\<rparr>)"
  have "demo_request\<lparr>m_ttl := 3\<rparr> = demo_request"
    by (simp add: demo_request_def)
  then have w: "?w 0 = to_wire demo_request" "?w (Suc 0) = to_wire (demo_request\<lparr>m_ttl := 2\<rparr>)"
    by simp_all
  have msg: "from_wire (to_wire demo_request) = Some demo_request"
    by (rule from_wire_to_wire_exact)
      (simp add: wire_ok_def header_ok_def bar_free_def demo_request_def in_int32_def)
  then have e: "emits demo_host (demo_node (reply_bytes NullBulk)) (?w 0) (demo_addr 7) (?w (Suc 0))"
    using demo_forwards unfolding w
    by (simp add: emits_def handle_wire_message_def Let_def demo_request_def)
  have "1 \<le> nat (m_ttl demo_request)"
    using flood_ends [of ?w demo_request 1 "\<lambda>_. demo_host" "\<lambda>_. demo_node (reply_bytes NullBulk)" "\<lambda>_. demo_addr 7"] msg e w(1)
    by (simp del: of_nat_Suc)
  with e w show ?thesis
    by simp
qed

end
