(* ===== verification/Node_Own_Requests.thy ===== *)
theory Node_Own_Requests
  imports Node_Contract
begin

text \<open>
  The requests that a node makes itself (\<^verbatim>\<open>Node::schedule_requests\<close> in \<^verbatim>\<open>node/node.cpp\<close>): the ids that it
  gives them, and what becomes of a wanted key.
\<close>

subsection \<open>Request ids\<close>

fun request_ids :: "('w, 'y) node_os_scheme \<Rightarrow> nat \<Rightarrow> 'w node_sys \<Rightarrow> string list" where
  "request_ids os 0 s = []"
| "request_ids os (Suc n) s = (let (rid, s') = make_request_id os s in rid # request_ids os n s')"

lemma request_id_counter:
  assumes "fst (make_request_id os s) = fst (make_request_id os t)"
  shows "nd_counter s = nd_counter t"
proof -
  have plain: "CHR ''-'' \<notin> set (show_nat n)" for n
    using show_nat_digits [of n] by (auto simp: list_all_iff is_digit_def)
  let ?head = "\<lambda>u. node_id (nd_config u) @ CHR ''-'' # show_int (fst (os_wall_ms os (net_world u)))"
  have id: "fst (make_request_id os u) = ?head u @ CHR ''-'' # show_nat (unat (nd_counter u))" for u
    by (simp add: make_request_id_def split_beta Let_def show_u64_def)
  have "show_nat (unat (nd_counter s)) = show_nat (unat (nd_counter t))"
    using assms sep_suffix_inj [OF plain plain, of "?head s" "unat (nd_counter s)" "?head t" "unat (nd_counter t)"]
    unfolding id by blast
  then show ?thesis
    by (simp add: show_nat_inj unsigned_word_eqI)
qed

lemma make_request_id_counter: "nd_counter (snd (make_request_id os s)) = nd_counter s + 1"
  by (simp add: make_request_id_def split_beta Let_def)

lemma request_ids_nth:
  "i < n \<Longrightarrow> \<exists>t. request_ids os n s ! i = fst (make_request_id os t) \<and> nd_counter t = nd_counter s + of_nat i"
proof (induction n arbitrary: s i)
  case (Suc n)
  show ?case
  proof (cases i)
    case (Suc j)
    then have "j < n"
      using Suc.prems by simp
    from Suc.IH [OF this, of "snd (make_request_id os s)"] Suc show ?thesis
      by (auto simp: split_beta Let_def make_request_id_counter algebra_simps)
  qed (auto simp: split_beta Let_def)
qed simp

lemma length_request_ids [simp]: "length (request_ids os n s) = n"
  by (induction n arbitrary: s) (simp_all add: split_beta Let_def)

text \<open>C36. A node never gives the same id to two of its requests: whatever its clock reads, forwards or
  backwards, the next \<open>2^64\<close> ids that it makes are different from each other.\<close>

theorem request_ids_distinct:
  assumes "n \<le> 2 ^ 64"
  shows "distinct (request_ids os n s)"
proof -
  have "request_ids os n s ! i \<noteq> request_ids os n s ! j" if ij: "i < n" "j < n" "i \<noteq> j" for i j
  proof
    assume same: "request_ids os n s ! i = request_ids os n s ! j"
    obtain t u where "request_ids os n s ! i = fst (make_request_id os t)" "nd_counter t = nd_counter s + of_nat i"
        "request_ids os n s ! j = fst (make_request_id os u)" "nd_counter u = nd_counter s + of_nat j"
      using request_ids_nth [OF ij(1)] request_ids_nth [OF ij(2)] by blast
    with same have "(of_nat i :: u64) = of_nat j"
      using request_id_counter [of os t u] by simp
    then have "i mod 2 ^ 64 = j mod 2 ^ 64"
      by (simp add: word_of_nat_eq_iff take_bit_eq_mod)
    with ij assms show False by simp
  qed
  then show ?thesis
    by (simp add: distinct_conv_nth)
qed

theorem request_ids_distinct_witness: "distinct (request_ids demo_host 3 (demo_node []))"
  by (rule request_ids_distinct) simp

subsection \<open>What becomes of a wanted key\<close>

definition own_request :: "config \<Rightarrow> string \<Rightarrow> string \<Rightarrow> message" where
  "own_request c rid key = empty_message\<lparr>m_type := Request, m_request_id := rid, m_origin := node_id c,
     m_ttl := request_ttl c, m_key := key\<rparr>"

lemma aggregate_key_outcome:
  "same_net s (aggregate_key os org key s)
   \<and> nd_fallback (aggregate_key os org key s) = nd_fallback s
   \<and> nd_local_keys (aggregate_key os org key s) = nd_local_keys s
   \<and> nd_query (aggregate_key os org key s) = nd_query s
   \<and> nd_counter (aggregate_key os org key s) = nd_counter s
   \<and> (\<exists>now ms. nd_agg (aggregate_key os org key s) = snd (add_key now ms org key (nd_agg s)))"
  by (auto simp: aggregate_key_def node_add_key_def read_steady_def split_beta Let_def same_net_def)

lemma originate_outcome:
  assumes "os_wall_ms os (net_world s) = (millis, w1)" "os_steady os w1 = (seen, w2)" "os_steady os w2 = (stamp, w3)"
    "os_steady os w3 = (now, w4)" "originate os key s = (req, nb, t)"
  shows "req = own_request (nd_config s)
        (node_id (nd_config s) @ ''-'' @ show_int millis @ ''-'' @ show_u64 (nd_counter s)) key"
    "nb = fst (select_neighbor now key (nd_content s))" "same_net s t" "nd_counter t = nd_counter s + 1"
    "nd_config t = nd_config s" "nd_local_keys t = nd_local_keys s" "nd_fallback t = nd_fallback s" "nd_agg t = nd_agg s"
    "nd_query t = snd (record_if_new seen stamp (m_request_id req) (nd_query s))"
  using assms by (auto simp: originate_def split_beta Let_def read_steady_def make_request_id_def own_request_def same_net_def)

lemma request_direct_outcome:
  assumes "net_ready os s"
  shows "handed_over (Direct, req, a, None) s (request_direct os req a s)
    \<and> nd_counter (request_direct os req a s) = nd_counter s \<and> nd_query (request_direct os req a s) = nd_query s
    \<and> nd_local_keys (request_direct os req a s) = nd_local_keys s \<and> nd_agg (request_direct os req a s) = nd_agg s
    \<and> (\<exists>later. nd_fallback (request_direct os req a s) = snd (schedule later (m_key req) (m_origin req) (nd_fallback s)))"
proof -
  let ?line = "direct_line req (addr_to_string a)"
  let ?f = "DirectFailed (m_request_id req) (m_key req) (m_origin req) (addr_to_string a)"
  let ?u = "snd (fq_send_direct os node_ok node_err a req None (Some ?f) (log_info ?line s))"
  obtain later w where clock: "os_steady os (net_world ?u) = (later, w)"
    by fastforce
  have t: "request_direct os req a s = ?u\<lparr>net_world := w, nd_fallback := snd (schedule later (m_key req) (m_origin req) (nd_fallback s))\<rparr>"
    using clock by (simp add: request_direct_def Let_def read_steady_def)
  have "handed_over (Direct, req, a, None) s ?u"
    by (rule handed_over_before [OF nq.fq_send_direct_handed_over]) (simp_all add: assms)
  then have "handed_over (Direct, req, a, None) s (request_direct os req a s)"
    unfolding t by (rule handed_over_after) (simp add: same_net_def)
  then show ?thesis
    unfolding t by auto
qed

text \<open>C10. What becomes of a key that the node itself wants. If the cache holds it, it becomes a local key and
  nothing is sent. If not, the request gets a new id, which is recorded as seen, so that an echo of the request
  is dropped; then, if a neighbour's summary may contain the key, the request is handed over once,
  to that neighbour alone, and a fallback is scheduled; else nothing is sent and the key goes to the aggregator,
  which sends it with the next batch.\<close>

theorem own_request_outcome:
  assumes "net_ready os s"
    and get: "cache_get os (nd_redis s) key (net_world s) = ((val, err), w)"
    and clock: "os_wall_ms os w = (millis, w1)" "os_steady os w1 = (seen, w2)" "os_steady os w2 = (stamp, w3)"
      "os_steady os w3 = (now, w4)"
  shows "let t = request_key os key s; c = nd_config s;
             rid = node_id c @ ''-'' @ show_int millis @ ''-'' @ show_u64 (nd_counter s)
     in nd_counter t = nd_counter s + 1 \<and>
       (case val of
          Some v \<Rightarrow> same_net s t \<and> nd_local_keys t = List.insert key (nd_local_keys s)
            \<and> nd_query t = nd_query s \<and> nd_fallback t = nd_fallback s \<and> nd_agg t = nd_agg s
        | None \<Rightarrow> nd_local_keys t = nd_local_keys s \<and> nd_query t = snd (record_if_new seen stamp rid (nd_query s)) \<and>
            (case fst (select_neighbor now key (nd_content s)) of
               Some a \<Rightarrow> handed_over (Direct, own_request c rid key, a, None) s t \<and> nd_agg t = nd_agg s
                 \<and> (\<exists>later. nd_fallback t = snd (schedule later key (node_id c) (nd_fallback s)))
             | None \<Rightarrow> same_net s t \<and> nd_fallback t = nd_fallback s
                 \<and> (\<exists>later ms. nd_agg t = snd (add_key later ms (node_id c) key (nd_agg s)))))"
proof -
  let ?s2 = "case err of None \<Rightarrow> s\<lparr>net_world := w\<rparr> | Some e \<Rightarrow> log_warn (''redis get error: '' @ e) (s\<lparr>net_world := w\<rparr>)"
  have s2: "same_net s ?s2" "nd_config ?s2 = nd_config s" "net_world ?s2 = w" "nd_counter ?s2 = nd_counter s"
      "nd_query ?s2 = nd_query s" "nd_content ?s2 = nd_content s" "nd_fallback ?s2 = nd_fallback s"
      "nd_agg ?s2 = nd_agg s" "nd_local_keys ?s2 = nd_local_keys s"
    by (simp_all add: same_net_def split: option.splits)
  show ?thesis
  proof (cases val)
    case (Some v)
    then show ?thesis
      using get clock
      by (simp add: request_key_def Let_def split_beta record_local_key_def make_request_id_def same_net_def split: option.splits)
  next
    case None
    obtain req nb t where o: "originate os key ?s2 = (req, nb, t)"
      by (metis surj_pair)
    have t: "request_key os key s = (case nb of Some a \<Rightarrow> request_direct os req a t | None \<Rightarrow> request_aggregated os req t)"
      using get o None by (simp add: request_key_def Let_def split: option.splits)
    note out = originate_outcome [OF _ clock(2-4) o, unfolded s2, OF clock(1)]
    have net: "same_net s t"
      by (rule same_net_trans [OF s2(1) out(3)])
    let ?rid = "node_id (nd_config s) @ ''-'' @ show_int millis @ ''-'' @ show_u64 (nd_counter s)"
    have req: "m_key req = key" "m_origin req = node_id (nd_config s)" "m_request_id req = ?rid"
      by (simp_all add: out(1) own_request_def)
    note frame = out(4,6-9) [unfolded req]
    show ?thesis
    proof (cases nb)
      case (Some a)
      note d = request_direct_outcome [OF net_ready_same [OF assms(1) net], of req a, unfolded req frame]
      have sel: "fst (select_neighbor now key (nd_content s)) = Some a"
        using out(2) Some by simp
      have "handed_over (Direct, own_request (nd_config s) ?rid key, a, None) s (request_direct os req a t)"
        using handed_over_before [OF _ net] d out(1) by blast
      then show ?thesis
        using d unfolding t None Some sel Let_def option.case by blast
    next
      case Nb: None
      note g = aggregate_key_outcome [of t os "m_origin req" key, unfolded req frame]
      have sel: "fst (select_neighbor now key (nd_content s)) = None"
        using out(2) Nb by simp
      have "same_net s (request_aggregated os req t)"
        using same_net_trans [OF net] g req by (simp add: request_aggregated_def)
      then show ?thesis
        using g unfolding t None Nb sel Let_def option.case by (simp add: request_aggregated_def req)
    qed
  qed
qed

lemma demo_config_values: "request_ttl demo_config = 3" "node_id demo_config = ''node''"
  by (simp_all add: demo_config_def config_of_def Let_def get_setting_def get_setting_int_def)

theorem own_request_outcome_witness:
  "nd_local_keys (request_key demo_host ''k'' (demo_node (reply_bytes (Bulk ''v'')))) = [''k'']
   \<and> net_sent (request_key demo_host ''k'' (demo_node (reply_bytes NullBulk))) = []
   \<and> (\<exists>later ms. nd_agg (request_key demo_host ''k'' (demo_node (reply_bytes NullBulk))) =
        snd (add_key later ms ''node'' ''k'' (nd_agg (demo_node (reply_bytes NullBulk)))))"
proof -
  let ?node = "\<lambda>r. demo_node (reply_bytes r)"
  have get: "\<exists>w. cache_get demo_host (nd_redis (?node r)) ''k'' (net_world (?node r)) = (get_outcome r, w)"
    if "Redis_Client.reply_ok r" for r
    using demo_get [OF that] by (metis demo_node_fields(5,7) prod.collapse)
  have wall: "os_wall_ms demo_host w = (0, w)" for w
    by (simp add: demo_host_def)
  note own = own_request_outcome [OF demo_net_ready _ wall demo_steady demo_steady demo_steady, where key = "''k''"]
  obtain w1 w2 where "cache_get demo_host (nd_redis (?node (Bulk ''v''))) ''k'' (net_world (?node (Bulk ''v''))) = ((Some ''v'', None), w1)"
      "cache_get demo_host (nd_redis (?node NullBulk)) ''k'' (net_world (?node NullBulk)) = ((None, None), w2)"
    using get [of "Bulk ''v''"] get [of NullBulk] by auto
  moreover have "fst (select_neighbor 0 ''k'' (nd_content (?node NullBulk))) = None"
    by (simp add: demo_node_def node_new_def content_table_new_def select_neighbor_def content_prune_def prune_def Let_def)
  ultimately show ?thesis
    using own [of "reply_bytes (Bulk ''v'')"] own [of "reply_bytes NullBulk"]
    by (simp add: Let_def same_net_def demo_config_values)
qed

end
