(* ===== verification/Node_Exchange.thy ===== *)
theory Node_Exchange
  imports Node_Invariant Node_Own_Requests
begin

text \<open>
  Two nodes. What one node hands over is what another receives: a request and the data that answers it, a
  Content-BF summary and the lookups it serves, a Query-BF batch and the keys it asks for. The datagram in
  between is the wire form of the message, cut at the size of the receive buffer.
\<close>

subsection \<open>What is handed over is delivered\<close>

text \<open>One worker empties the queue.\<close>

definition drained :: "('w, 'y) node_os_scheme \<Rightarrow> 'w node_sys \<Rightarrow> 'w node_sys" where
  "drained os s = worker_turns (length (fq_items s)) os node_ok node_err s"

text \<open>There is room in the queue, or it is not in use.\<close>

definition has_room :: "'w node_sys \<Rightarrow> bool" where
  "has_room s \<longleftrightarrow> \<not> (fc_enabled (fq_conf s) \<and> fq_started s) \<or> length (fq_items s) < fc_max_depth (fq_conf s)"

lemma handed_over_delivered:
  fixes s t :: "'w node_sys"
  assumes "handed_over x s t" "net_ready os s" "has_room s"
    and "net_topology t = net_topology s" "net_transport t = net_transport s"
  shows "set (puts (net_topology s) x) \<subseteq> set (net_sent (drained os t))"
proof -
  have "net_sent (drained os t) = net_sent t @ concat (map (delivery (net_topology s)) (fq_items t))"
    unfolding drained_def using nq.worker_turns_deliver [of os t] assms(2,4,5) by (simp add: net_ready_def)
  moreover have "delivery tp i = puts tp (core i)" for tp and i :: "(closure, failure_closure) fq_item"
    by (simp add: delivery_def core_def)
  ultimately show ?thesis
    using assms(1,3) by (auto simp: handed_over_def has_room_def split: if_splits)
qed

lemma fq_send_direct_topology: "net_topology (snd (fq_send_direct os node_ok node_err addr msg a b s)) = net_topology s"
  using fq_send_direct_same_frame [of s os addr msg a b] by (simp add: same_frame_def)

lemma fq_send_broadcast_topology:
  fixes s :: "'w node_sys"
  assumes "net_ready os s"
  shows "net_topology (snd (fq_send_broadcast os node_err msg ex s)) = net_topology s"
proof (cases "fc_enabled (fq_conf s) \<and> fq_started s")
  case True
  have "net_topology (snd (enqueue node_err i s)) = net_topology s" for i
    using nq.run_failure_net [of "log_state ''drop_queue'' (length (fq_items s)) s" i "''forward_queue_full''"]
    by (simp add: enqueue_def queue_push_def log_state_def same_net_def)
  with True show ?thesis
    by (simp add: fq_send_broadcast_def Let_def)
next
  case False
  have "fst (broadcast_loop os msg ex (net_topology s) s) = net_topology s"
    using assms broadcast_loop_exact [of os s "net_topology s" msg ex] by (simp add: net_ready_def)
  with False show ?thesis
    by (simp add: fq_send_broadcast_def Let_def log_state_def send_broadcast_def split_beta)
qed

lemma fq_send_broadcast_transport:
  fixes s :: "'w node_sys"
  shows "net_transport (snd (fq_send_broadcast os node_err msg ex s)) = net_transport s"
  using nq.fq_send_broadcast_outputs [of "\<lambda>_. True" msg ex s os] by (simp add: outputs_def)

lemma handle_request_network:
  assumes "net_ready os s"
  shows "net_topology (handle_request os msg src s) = net_topology s
    \<and> net_transport (handle_request os msg src s) = net_transport s"
proof -
  let ?p = "snd (run_request_pipeline os msg s)"
  have p: "same_net s ?p" "net_ready os ?p"
    by (rule run_request_pipeline_frame, rule net_ready_same [OF assms run_request_pipeline_frame(1)])
  have "net_topology (serve_request os msg src val u) = net_topology u" for val and u :: "'a node_sys"
    by (simp add: serve_request_def Let_def fq_send_direct_topology record_local_key_def)
  moreover have "net_topology (forward_request os msg src ttl ?p) = net_topology ?p" for ttl
    unfolding forward_request_def Let_def
    by (subst fq_send_broadcast_topology) (simp_all add: p(2))
  ultimately have "net_topology (handle_request os msg src s) = net_topology s"
    using p(1) by (cases "rd_state (fst (run_request_pipeline os msg s))")
      (simp_all add: handle_request_def split_beta Let_def same_net_def)
  then show ?thesis
    using handle_request_outputs [of s msg src os] by (simp add: outputs_def)
qed

subsection \<open>A request and its answer\<close>

text \<open>What arrives of a datagram.\<close>

definition arrives :: "('w, 'y) node_os_scheme \<Rightarrow> string \<Rightarrow> sockaddr_in \<Rightarrow> 'w node_sys \<Rightarrow> 'w node_sys" where
  "arrives os wire src s = receive_round (handle_wire_message os) (Some (wire, src)) s"

lemma arrives_message:
  "from_wire (take recv_limit wire) = Some msg \<Longrightarrow> arrives os wire src s = handle_wire_message os (take recv_limit wire) src s"
  by (auto simp: arrives_def receive_round_def from_wire_def split_keep)

lemma reply_arrives:
  assumes "header_ok r" "length (to_wire r) \<le> recv_limit"
  shows "from_wire (take recv_limit (to_wire r)) = Some (r\<lparr>m_value := takeWhile (\<lambda>c. c \<noteq> CHR ''|'') (m_value r)\<rparr>)"
  using from_wire_to_wire [OF assms(1)] assms(2) by simp

text \<open>Data that reaches the node it is for.\<close>

lemma reply_stored:
  assumes "header_ok r" "length (to_wire r) \<le> recv_limit" "m_type r = Data" "data_ok r" "m_origin r = node_id (nd_config a)"
    and "cache_set os (nd_redis a) (m_key r) (takeWhile (\<lambda>c. c \<noteq> CHR ''|'') (m_value r)) (net_world a) = (None, w)"
  shows "let a' = arrives os (to_wire r) src a
     in net_world a' = w \<and> m_key r \<in> set (nd_local_keys a')
        \<and> map_of (fb_entries (nd_fallback a')) (make_key (node_id (nd_config a)) (m_key r)) = None"
proof -
  let ?d = "r\<lparr>m_value := takeWhile (\<lambda>c. c \<noteq> CHR ''|'') (m_value r)\<rparr>"
  have "arrives os (to_wire r) src a = handle_data os ?d src a"
    using arrives_message [OF reply_arrives [OF assms(1,2)], of os src a] reply_arrives [OF assms(1,2)] assms(3)
    by (simp add: handle_wire_message_def)
  moreover have "data_ok ?d"
    using assms(4) by (simp add: data_ok_def)
  ultimately show ?thesis
    using handle_data_outcome [where os = os and msg = ?d and src = src and s = a] assms(5,6) by (simp add: Let_def)
qed

lemma answered:
  assumes "net_ready os s" "has_room s" "request_ok msg"
    and "os_steady os (net_world s) = (now, w1)" "os_steady os w1 = (stamp, w2)"
    and "fst (record_if_new now stamp (m_request_id msg) (nd_query s))"
    and "fst (fst (cache_get os (nd_redis s) (m_key msg) w2)) = Some v"
  shows "(src, to_wire (request_reply (nd_config s) msg v)) \<in> set (net_sent (drained os (handle_request os msg src s)))"
proof -
  let ?t = "handle_request os msg src s"
  have "handed_over (Direct, request_reply (nd_config s) msg v, src, None) s ?t"
    using handle_request_outcome [OF assms(1,4,5), of msg src] assms(3,6,7) by (simp add: split_beta Let_def)
  from handed_over_delivered [OF this assms(1,2)] handle_request_network [OF assms(1), of msg src]
  show ?thesis by simp
qed

text \<open>C12. A request is answered and the answer is stored. Let a request reach a node that holds its key, that
  has not seen it before, whose network is up and whose queue has room. Once a worker has emptied the
  queue, the node has sent a datagram to the node the request came from. When that datagram, if it fits the receive
  buffer, reaches the node that is the origin, and its cache takes the value, that node has stored the
  value up to its first bar, counts the key among its local keys, and waits for no fallback for it.\<close>

theorem request_answered:
  assumes request: "from_wire (take recv_limit req) = Some msg" "m_type msg = Request" "request_ok msg"
    and holder: "net_ready osB b" "has_room b" "0 < request_ttl (nd_config b)" "in_int32 (request_ttl (nd_config b))"
    and clock: "os_steady osB (net_world b) = (now, w1)" "os_steady osB w1 = (stamp, w2)"
    and fresh: "fst (record_if_new now stamp (m_request_id msg) (nd_query b))"
    and cached: "fst (fst (cache_get osB (nd_redis b) (m_key msg) w2)) = Some v"
    and fits: "length (to_wire (request_reply (nd_config b) msg v)) \<le> recv_limit"
    and origin: "m_origin msg = node_id (nd_config a)"
    and stored: "cache_set osA (nd_redis a) (m_key msg) (takeWhile (\<lambda>c. c \<noteq> CHR ''|'') v) (net_world a) = (None, w)"
  shows "\<exists>wire. (srcA, wire) \<in> set (net_sent (drained osB (arrives osB req srcA b))) \<and>
    (let a' = arrives osA wire srcB a
     in net_world a' = w \<and> m_key msg \<in> set (nd_local_keys a')
        \<and> map_of (fb_entries (nd_fallback a')) (make_key (node_id (nd_config a)) (m_key msg)) = None)"
proof -
  let ?r = "request_reply (nd_config b) msg v"
  have b': "arrives osB req srcA b = handle_request osB msg srcA b"
    using request(1,2) by (simp add: arrives_message handle_wire_message_def)
  have sent: "(srcA, to_wire ?r) \<in> set (net_sent (drained osB (arrives osB req srcA b)))"
    unfolding b' by (rule answered [OF holder(1,2) request(3) clock fresh cached])
  have r: "header_ok ?r" "m_type ?r = Data" "data_ok ?r" "m_key ?r = m_key msg" "m_origin ?r = m_origin msg" "m_value ?r = v"
    using from_wire_wire_ok [OF request(1)] request(3) holder(3,4)
    by (simp_all add: wire_ok_def header_ok_def request_reply_def data_ok_def request_ok_def)
  from reply_stored [OF r(1) fits r(2,3), of a osA w srcB] sent show ?thesis
    using origin stored unfolding r(4-6) by (intro exI [of _ "to_wire ?r"]) simp
qed

text \<open>The node that asks: it is the origin of the request above, and its cache says OK.\<close>

definition demo_origin :: "(string \<times> string) node_sys" where
  "demo_origin = (demo_node (reply_bytes (Status ''OK'')))\<lparr>nd_config := demo_config\<lparr>node_id := ''o''\<rparr>\<rparr>"

lemma demo_set:
  "\<exists>w. cache_set demo_host (nd_redis demo_origin) ''k'' ''v'' (net_world demo_origin) = (None, w)"
proof -
  let ?rx = "reply_bytes (Status ''OK'')"
  have sent: "send_command (os_redis_send demo_host) \<lparr>rc_path = ''/r'', rc_connected = True\<rparr> [''SET'', ''k'', ''v''] ([], ?rx) =
      (None, (resp_command [''SET'', ''k'', ''v''], ?rx))"
    by (simp add: demo_host_def send_command_def resp_command_def resp_arg_def crlf_def pipe_send_def
      send_loop.simps show_nat.simps digit_char_def)
  have "stream_recv (os_redis_recv demo_host) snd"
    by (simp add: demo_host_def pipe_recv_stream)
  from read_resp_reply [OF this, of "Status ''OK''" "(resp_command [''SET'', ''k'', ''v''], ?rx)" "[]"] sent show ?thesis
    by (auto simp: demo_origin_def cache_set_def redis_set_def crlf_def)
qed

lemma demo_request_parsed: "from_wire (take recv_limit (to_wire demo_request)) = Some demo_request"
proof -
  have "header_ok demo_request"
    by (simp add: header_ok_def bar_free_def demo_request_def in_int32_def)
  then show ?thesis
    using from_wire_to_wire [of demo_request]
    by (simp add: demo_request_def to_wire_def show_int_def show_nat.simps recv_limit_def)
qed

theorem request_answered_witness:
  "\<exists>wire. (demo_addr 7, wire) \<in> set (net_sent (drained demo_host
      (arrives demo_host (to_wire demo_request) (demo_addr 7) (demo_node (reply_bytes (Bulk ''v'')))))) \<and>
    ''k'' \<in> set (nd_local_keys (arrives demo_host wire (demo_addr 8) demo_origin))"
proof -
  let ?b = "demo_node (reply_bytes (Bulk ''v''))"
  have store: "\<exists>w. cache_set demo_host (nd_redis demo_origin) (m_key demo_request)
      (takeWhile (\<lambda>c. c \<noteq> CHR ''|'') ''v'') (net_world demo_origin) = (None, w)"
    using demo_set by (simp add: demo_request_def)
  have fresh: "fst (record_if_new 0 0 (m_request_id demo_request) (nd_query ?b))"
    by (simp add: demo_fresh)
  have hit: "fst (fst (cache_get demo_host (nd_redis ?b) (m_key demo_request) (net_world ?b))) = Some ''v''"
    using demo_get [of "Bulk ''v''"] by (simp add: demo_request_def)
  have up: "has_room ?b" "0 < request_ttl (nd_config ?b)" "in_int32 (request_ttl (nd_config ?b))"
    by (simp_all add: has_room_def demo_config_values in_int32_def)
  have fits: "length (to_wire (request_reply (nd_config ?b) demo_request ''v'')) \<le> recv_limit"
    by (simp add: demo_config_values request_reply_def to_wire_def empty_message_def demo_request_def
      show_int_def show_nat.simps recv_limit_def)
  have demo: "m_type demo_request = Request" "m_origin demo_request = node_id (nd_config demo_origin)"
      "m_key demo_request = ''k''"
    by (simp_all add: demo_request_def demo_origin_def)
  from store obtain w where store: "cache_set demo_host (nd_redis demo_origin) (m_key demo_request)
      (takeWhile (\<lambda>c. c \<noteq> CHR ''|'') ''v'') (net_world demo_origin) = (None, w)" by blast
  show ?thesis
    using request_answered [OF demo_request_parsed demo(1) demo_request_ok demo_net_ready up demo_steady demo_steady
      fresh hit fits demo(2) store, of "demo_addr 7" "demo_addr 8"]
    by (auto simp: Let_def demo(3))
qed

text \<open>C34. The answer to a request that was relayed is lost. The node that holds the key answers to the node the
  request came from. If that is not the origin, because it only passed the request on, it
  drops the answer: it sends nothing, stores nothing and keeps no trace of it but a line in its log.\<close>

theorem relayed_answer_lost:
  assumes "header_ok (request_reply c msg v)" "length (to_wire (request_reply c msg v)) \<le> recv_limit"
    and "m_origin msg \<noteq> node_id (nd_config b)"
  shows "let b' = arrives os (to_wire (request_reply c msg v)) src b
     in same_net b b' \<and> same_tables b b' \<and> nd_sync b' = nd_sync b \<and> net_world b' = net_world b"
proof -
  let ?d = "(request_reply c msg v)\<lparr>m_value := takeWhile (\<lambda>c. c \<noteq> CHR ''|'') v\<rparr>"
  have "from_wire (take recv_limit (to_wire (request_reply c msg v))) = Some ?d"
    using reply_arrives [OF assms(1,2)] by (simp add: request_reply_def)
  then have b': "arrives os (to_wire (request_reply c msg v)) src b = handle_data os ?d src b"
    by (simp add: arrives_message handle_wire_message_def request_reply_def)
  have "m_origin ?d = m_origin msg"
    by (simp add: request_reply_def)
  then show ?thesis
    unfolding b' using handle_data_outcome [where os = os and msg = ?d and src = src and s = b] assms(3)
    by (simp add: split_beta Let_def)
qed

theorem relayed_answer_lost_witness:
  "net_sent (arrives demo_host (to_wire (request_reply demo_config demo_request ''v'')) (demo_addr 8) (demo_node [])) = []"
proof -
  have "header_ok (request_reply demo_config demo_request ''v'')"
      "length (to_wire (request_reply demo_config demo_request ''v'')) \<le> recv_limit"
      "m_origin demo_request \<noteq> node_id (nd_config (demo_node []))"
    by (simp_all add: header_ok_def bar_free_def request_reply_def demo_request_def demo_config_values in_int32_def
      empty_message_def to_wire_def show_int_def show_nat.simps recv_limit_def)
  from relayed_answer_lost [OF this, of demo_host "demo_addr 8"] show ?thesis
    by (simp add: Let_def same_net_def)
qed

subsection \<open>Filters on the wire\<close>

lemma hex_no_bar: "bar_free (to_hex f)"
proof -
  have digits: "\<forall>n \<in> set [0..<16]. ''0123456789abcdef'' ! n \<noteq> CHR ''|''"
    by (simp add: upt_conv_Cons)
  have hi: "unat (drop_bit 4 b AND 15) \<in> set [0..<16]" and lo: "unat (b AND 15) \<in> set [0..<16]" for b :: u8
    using nibble_less [of "drop_bit 4 b"] nibble_less [of b] by simp_all
  have "hex_char (drop_bit 4 b AND 15) \<noteq> CHR ''|''" "hex_char (b AND 15) \<noteq> CHR ''|''" for b :: u8
    unfolding hex_char_def using digits hi lo by blast+
  then show ?thesis
    by (force simp: bar_free_def to_hex_def)
qed

lemma hex_not_empty: "bloom_good f \<Longrightarrow> to_hex f \<noteq> []"
proof
  assume good: "bloom_good f" and "to_hex f = []"
  then have "bf_data f = []"
    using length_to_hex [of f] by simp
  moreover have "0 < unat (bf_bits f)"
    using good by (simp add: bloom_good_def unat_gt_0)
  ultimately show False
    using good wf_in_range [of f 0] by (simp add: bloom_good_def)
qed

subsection \<open>A summary and the lookups it serves\<close>

definition summary_message :: "config \<Rightarrow> bloom \<Rightarrow> message" where
  "summary_message c f = empty_message\<lparr>m_type := ContentBloom, m_origin := node_id c, m_ttl := content_bf_ttl_ms c,
     m_key := to_hex f, m_value := []\<rparr>"

lemma content_exchange_handed:
  assumes "net_ready os s"
  shows "handed_over (Broadcast, summary_message (nd_config s) (local_snapshot (nd_content s)), zero_addr, None) s
      (content_exchange_round os s)"
    "net_topology (content_exchange_round os s) = net_topology s"
    "net_transport (content_exchange_round os s) = net_transport s"
proof -
  show "handed_over (Broadcast, summary_message (nd_config s) (local_snapshot (nd_content s)), zero_addr, None) s
      (content_exchange_round os s)"
    unfolding content_exchange_round_def Let_def summary_message_def
    by (intro handed_over_before [OF nq.fq_send_broadcast_handed_over]) (simp_all add: assms)
  show "net_topology (content_exchange_round os s) = net_topology s"
    unfolding content_exchange_round_def Let_def by (subst fq_send_broadcast_topology) (simp_all add: assms)
  show "net_transport (content_exchange_round os s) = net_transport s"
    unfolding content_exchange_round_def Let_def by (rule fq_send_broadcast_transport [THEN trans]) simp
qed

text \<open>C14. A summary serves the neighbour's lookups. When a node tells its neighbours what it holds and has emptied its queue, the
  same datagram went to each of them. If it fits the receive buffer, a neighbour with the same filter
  parameters that receives it finds, for every key the node holds, some neighbour to ask
  directly, as long as the summary is not older than the neighbour's TTL.\<close>

theorem summary_exchange_found:
  assumes holder: "node_inv a" "net_ready osA a" "has_room a" "k \<in> set (nd_local_keys a)"
    and sender: "node_id (nd_config a) \<noteq> []" "bar_free (node_id (nd_config a))" "in_int32 (content_bf_ttl_ms (nd_config a))"
    and neighbour: "n \<in> set (net_topology a)" "node_inv b"
    and shape: "content_bf_bits (nd_config b) = content_bf_bits (nd_config a)"
      "content_bf_hashes (nd_config b) = content_bf_hashes (nd_config a)"
    and fits: "length (to_wire (summary_message (nd_config a) (local_snapshot (nd_content a)))) \<le> recv_limit"
    and age: "0 < ct_ttl (nd_content b) \<Longrightarrow> later - fst (os_steady osB (net_world b)) \<le> ms_ns (ct_ttl (nd_content b))"
  shows "\<exists>wire. (na_addr n, wire) \<in> set (net_sent (drained osA (content_exchange_round osA a)))
    \<and> fst (select_neighbor later k (nd_content (arrives osB wire src b))) \<noteq> None"
proof -
  let ?f = "local_snapshot (nd_content a)"
  let ?m = "summary_message (nd_config a) ?f"
  have adv: "bloom_good ?f" "maybe_contains ?f k" "bf_bits ?f = size_of (content_bf_bits (nd_config a))"
      "bf_hashes ?f = size_of (content_bf_hashes (nd_config a))"
    using node_invD(1) [OF holder(1)] holder(4) by (auto simp: advertised_def local_snapshot_def list_all_iff)
  have "set (puts (net_topology a) (Broadcast, ?m, zero_addr, None)) \<subseteq> set (net_sent (drained osA (content_exchange_round osA a)))"
    by (rule handed_over_delivered [OF content_exchange_handed(1) holder(2,3) content_exchange_handed(2,3)])
      (simp_all add: holder(2))
  then have sent: "(na_addr n, to_wire ?m) \<in> set (net_sent (drained osA (content_exchange_round osA a)))"
    using neighbour(1) by (auto simp: excluded_def)
  have "header_ok ?m"
    using sender hex_no_bar by (simp add: header_ok_def summary_message_def bar_free_def empty_message_def)
  then have parse: "from_wire (take recv_limit (to_wire ?m)) = Some ?m"
    using from_wire_to_wire [of ?m] fits by (simp add: summary_message_def)
  have hex: "from_hex (size_of (content_bf_bits (nd_config b))) (size_of (content_bf_hashes (nd_config b))) (to_hex ?f) = Some ?f"
    using from_hex_to_hex [of ?f] adv(1,3,4) shape by (simp add: bloom_good_def)
  obtain now w where now: "os_steady osB (net_world b) = (now, w)"
    by fastforce
  have "nd_content (arrives osB (to_wire ?m) src b) = update_neighbor now src ?f (nd_content b)"
    unfolding arrives_message [OF parse] handle_wire_message_def parse
    using hex now sender(1) hex_not_empty [OF adv(1)]
    by (simp add: handle_content_bloom_def summary_message_def read_steady_def Let_def)
  moreover have "live (update_neighbor now src ?f (nd_content b)) later \<lparr>ne_filter = ?f, ne_updated = now, ne_addr = src\<rparr>"
    using update_neighbor_live node_invD(1) [OF neighbour(2)] age now by (simp add: advertised_def)
  moreover have "fst (select_neighbor later k ct) \<noteq> None" if "live ct later \<lparr>ne_filter = ?f, ne_updated = now, ne_addr = src\<rparr>" for ct
    unfolding select_neighbor_None using that adv(2) by force
  ultimately show ?thesis
    using sent by (intro exI [of _ "to_wire ?m"]) simp
qed

lemma demo_node_inv: "node_inv (demo_node r)"
proof -
  let ?c = "config_of (\<lambda>_. None) [] []"
  have "list_all in_int32 (int_fields demo_config)"
    by (simp add: demo_config_def config_of_def int_fields_def Let_def get_setting_def get_setting_int_def in_int32_def)
  moreover have "config_valid demo_config"
    using default_config_valid [of "[]"] by (simp add: demo_config_def config_valid_def)
  ultimately have "node_inv ((node_new demo_config Info ([], r))\<lparr>lg_lines := []\<rparr>)"
    by (rule node_new_inv)
  then show ?thesis
    by (simp add: demo_node_def)
qed

theorem summary_exchange_found_witness:
  "\<exists>wire. (demo_addr 7, wire) \<in> set (net_sent (drained demo_host
      (content_exchange_round demo_host (record_local_key ''k'' (demo_node [])))))
    \<and> fst (select_neighbor 5 ''k'' (nd_content (arrives demo_host wire (demo_addr 8) (demo_node [])))) \<noteq> None"
proof -
  let ?a = "record_local_key ''k'' (demo_node [])"
  let ?n = "\<lparr>na_host = ''a'', na_port = 9000, na_addr = demo_addr 7\<rparr>"
  have config: "nd_config ?a = demo_config" "net_topology ?a = net_topology (demo_node [])" "''k'' \<in> set (nd_local_keys ?a)"
    by (simp_all add: record_local_key_def)
  have ready: "net_ready demo_host ?a" "has_room ?a"
    using net_ready_same [OF demo_net_ready record_local_key_net] by (simp_all add: has_room_def record_local_key_def)
  have nums: "content_bf_ttl_ms demo_config = 3000" "content_bf_bits demo_config = 8" "content_bf_hashes demo_config = 3"
    by (simp_all add: demo_config_def config_of_def Let_def get_setting_def get_setting_int_def)
  have inv: "node_inv ?a"
    by (simp add: demo_node_inv)
  have "bf_bits (local_snapshot (nd_content ?a)) = size_of 8" "bloom_wf (local_snapshot (nd_content ?a))"
    using node_invD(1) [OF inv] config(1) nums by (simp_all add: advertised_def local_snapshot_def bloom_good_def)
  then have "length (to_hex (local_snapshot (nd_content ?a))) = 2"
    by (simp add: length_to_hex bloom_wf_def byte_size_def size_of_def)
  then have fits: "length (to_wire (summary_message (nd_config ?a) (local_snapshot (nd_content ?a)))) \<le> recv_limit"
    unfolding config by (simp add: demo_config_values nums summary_message_def to_wire_def empty_message_def show_int_def
      show_nat.simps recv_limit_def)
  have "0 < ct_ttl (nd_content (demo_node [])) \<Longrightarrow>
      5 - fst (os_steady demo_host (net_world (demo_node []))) \<le> ms_ns (ct_ttl (nd_content (demo_node [])))"
    by (simp add: demo_steady ms_ns_def)
  from summary_exchange_found [OF inv ready config(3) _ _ _ _ demo_node_inv _ _ fits this, of ?n "demo_addr 8"] show ?thesis
    by (simp add: config demo_config_values nums bar_free_def in_int32_def)
qed

subsection \<open>A batch and the keys it asks for\<close>

text \<open>There is room in the queue for \<open>n\<close> items more, or it is not in use.\<close>

definition room_for :: "nat \<Rightarrow> 'w node_sys \<Rightarrow> bool" where
  "room_for n s \<longleftrightarrow> \<not> (fc_enabled (fq_conf s) \<and> fq_started s) \<or> length (fq_items s) + n \<le> fc_max_depth (fq_conf s)"

lemma handed_all_delivered:
  fixes s t :: "'w node_sys"
  assumes "handed_all xs s t" "net_ready os s" "room_for (length xs) s"
    and "net_topology t = net_topology s" "net_transport t = net_transport s" "x \<in> set xs"
  shows "set (puts (net_topology s) x) \<subseteq> set (net_sent (drained os t))"
proof -
  have d: "net_sent (drained os t) = net_sent t @ concat (map (puts (net_topology s)) (map core (fq_items t)))"
    unfolding drained_def using nq.worker_turns_deliver [of os t] assms(2,4,5)
    by (simp add: net_ready_def delivery_def [abs_def] core_def comp_def)
  show ?thesis
    using assms(1,3,6) unfolding d by (fastforce simp: handed_all_def room_for_def split: if_splits)
qed

lemma handle_query_bloom_network:
  assumes "cache_is os (nd_redis s) store" "net_ready os s"
  shows "net_topology (handle_query_bloom os msg src s) = net_topology s
    \<and> net_transport (handle_query_bloom os msg src s) = net_transport s"
proof -
  have topology: "net_topology (qbf_forward os msg src age f t) = net_topology t" if "net_ready os t" for age f t
  proof -
    have "net_ready os (t\<lparr>net_world := w, nd_limiter := l\<rparr>)" for w l
      using that by (simp add: net_ready_def)
    then show ?thesis
      by (simp add: qbf_forward_def Let_def split_beta read_steady_def fq_send_broadcast_topology)
  qed
  have "net_topology (handle_query_bloom os msg src s) = net_topology s"
  proof (cases "fst (qbf_accept os msg src s)")
    case (Inl e)
    then show ?thesis
      using query_bloom_refused [OF Inl] by (simp add: same_net_def)
  next
    case (Inr x)
    let ?s1 = "snd (qbf_accept os msg src s)"
    let ?s2 = "fold (qbf_serve_key os msg src (fst x) (snd x)) (nd_local_keys ?s1) ?s1"
    have "same_frame s ?s1"
      using qbf_accept_frame [of s os msg src] by (simp add: same_frame_def same_net_def same_tables_def)
    moreover from this have "cache_is os (nd_redis ?s1) store" "net_ready os ?s1"
      using assms by (simp_all add: same_frame_def net_ready_def)
    then have "same_frame ?s1 ?s2"
      using qbf_serve_all [of os ?s1 store "snd x" "nd_local_keys ?s1" msg src "fst x"] by blast
    ultimately have "same_frame s ?s2"
      by (rule same_frame_trans)
    then have "net_topology ?s2 = net_topology s" "net_ready os ?s2"
      using assms(2) by (simp_all add: same_frame_def net_ready_def)
    moreover have "handle_query_bloom os msg src s = qbf_forward os msg src (fst x) (snd x) ?s2"
      using Inr by (cases x) (simp add: handle_query_bloom_def split_beta)
    ultimately show ?thesis
      using topology by simp
  qed
  then show ?thesis
    using handle_query_bloom_outputs [of s msg src os] by (simp add: outputs_def)
qed

lemma qbf_hits_mem: "k \<in> set ks \<Longrightarrow> store k = Some v \<Longrightarrow> maybe_contains f k \<Longrightarrow> (k, v) \<in> set (qbf_hits store f ks)"
  by (induction ks) (auto split: option.splits)

text \<open>A Query-BF whose filter is well formed and may contain a key that the receiver holds.\<close>

lemma batch_answered:
  assumes batch: "bloom_good (qb_filter q)" "maybe_contains (qb_filter q) k"
    and shape: "bf_bits (qb_filter q) = size_of (query_bf_bits (nd_config b))" "bf_hashes (qb_filter q) = size_of (query_bf_hashes (nd_config b))"
    and sender: "qb_origin q \<noteq> []" "bar_free (qb_origin q)" "bar_free (qb_batch_id q)" "0 < request_ttl c" "in_int32 (request_ttl c)"
    and fits: "length (to_wire (batch_message c q)) \<le> recv_limit"
    and age: "qbf_age (word_of_int (fst (os_wall_ms os (net_world b)))) (qb_created_ms q) \<le> size_of (query_bf_ttl_ms (nd_config b))"
    and holder: "cache_is os (nd_redis b) store" "store k = Some v" "k \<in> set (nd_local_keys b)"
    and up: "net_ready os b" "room_for (length (qbf_hits store (qb_filter q) (nd_local_keys b)) + 1) b"
  shows "\<exists>rid. made_id os (nd_config b) rid \<and> (src, to_wire (qbf_reply (nd_config b) (batch_message c q) rid (k, v)))
    \<in> set (net_sent (drained os (arrives os (to_wire (batch_message c q)) src b)))"
proof -
  let ?m = "batch_message c q" let ?f = "qb_filter q"
  have stamp: "bar_free (show_u64 w)" for w
    using show_nat_digits [of "unat w"] by (auto simp: bar_free_def show_u64_def list_all_iff is_digit_def)
  have "wire_ok ?m"
    using sender hex_no_bar stamp by (simp add: wire_ok_def header_ok_def batch_message_def)
  then have parse: "from_wire (take recv_limit (to_wire ?m)) = Some ?m"
    using from_wire_to_wire_exact fits by simp
  then have t: "arrives os (to_wire ?m) src b = handle_query_bloom os ?m src b"
    using fits by (simp add: arrives_message handle_wire_message_def batch_message_def)
  have acc: "fst (qbf_accept os ?m src b) = Inr (qbf_age (word_of_int (fst (os_wall_ms os (net_world b)))) (qb_created_ms q), ?f)"
    using sender(1,4) age from_hex_to_hex [of ?f] batch(1) shape hex_not_empty [OF batch(1)]
    by (simp add: qbf_accept_exact batch_message_def parse_uint64_show show_u64_ne bloom_good_def)
  let ?hits = "qbf_hits store ?f (nd_local_keys b)"
  obtain rids ok where rids: "length rids = length ?hits" and ids: "list_all (made_id os (nd_config b)) rids" and
    handed: "handed_all (map2 (\<lambda>rid kv. (Direct, qbf_reply (nd_config b) ?m rid kv, src, None)) rids ?hits @ qbf_relay ?m src ok) b
      (handle_query_bloom os ?m src b)"
    using handle_query_bloom_outcome [OF holder(1) up(1), of ?m src] acc by (auto simp: Let_def split_beta)
  have "length (qbf_relay ?m src ok) \<le> 1"
    by (simp add: qbf_relay_def)
  then have room: "room_for (length (map2 (\<lambda>rid kv. (Direct, qbf_reply (nd_config b) ?m rid kv, src, None)) rids ?hits @ qbf_relay ?m src ok)) b"
    using up(2) rids by (auto simp: room_for_def)
  obtain i where i: "i < length ?hits" "?hits ! i = (k, v)"
    using qbf_hits_mem [of k "nd_local_keys b" store v ?f] holder batch(2) by (meson in_set_conv_nth)
  then have "(rids ! i, k, v) \<in> set (zip rids ?hits)"
    using rids by (auto simp: in_set_zip intro!: exI [of _ i])
  then have "(Direct, qbf_reply (nd_config b) ?m (rids ! i) (k, v), src, None)
      \<in> set (map2 (\<lambda>rid kv. (Direct, qbf_reply (nd_config b) ?m rid kv, src, None)) rids ?hits)"
    by force
  then have mem: "(Direct, qbf_reply (nd_config b) ?m (rids ! i) (k, v), src, None)
      \<in> set (map2 (\<lambda>rid kv. (Direct, qbf_reply (nd_config b) ?m rid kv, src, None)) rids ?hits @ qbf_relay ?m src ok)"
    unfolding set_append by (rule UnI1)
  have "set (puts (net_topology b) (Direct, qbf_reply (nd_config b) ?m (rids ! i) (k, v), src, None))
      \<subseteq> set (net_sent (drained os (handle_query_bloom os ?m src b)))"
    using handle_query_bloom_network [OF holder(1) up(1), of ?m src]
    by (intro handed_all_delivered [OF handed up(1) room _ _ mem]) (rule conjunct1 conjunct2, assumption)+
  moreover have "made_id os (nd_config b) (rids ! i)"
    using ids i(1) rids by (simp add: list_all_length)
  ultimately show ?thesis
    unfolding t by auto
qed

text \<open>C13. A batch is answered. Take a batch that the aggregator made of the keys \<open>ks\<close>, and a node whose filters
  have the same parameters, whose network is up and whose queue has room. If the message of the batch fits
  the receive buffer and is not older than the node's TTL when it arrives, then for each of the keys that is one of
  the node's local keys and in its cache, the node sends, once a worker has emptied its queue, data with the
  cached value, for the origin of the batch, to the address the message came from.\<close>

theorem query_batch_answered:
  assumes batch: "carries ag ks q" "k \<in> set ks" "bloom_good (bloom_new (ag_bits ag) (ag_hashes ag))"
    and shape: "ag_bits ag = size_of (query_bf_bits (nd_config b))" "ag_hashes ag = size_of (query_bf_hashes (nd_config b))"
    and sender: "qb_origin q \<noteq> []" "bar_free (qb_origin q)" "bar_free (qb_batch_id q)" "0 < request_ttl c" "in_int32 (request_ttl c)"
    and fits: "length (to_wire (batch_message c q)) \<le> recv_limit"
    and age: "qbf_age (word_of_int (fst (os_wall_ms os (net_world b)))) (qb_created_ms q) \<le> size_of (query_bf_ttl_ms (nd_config b))"
    and holder: "cache_is os (nd_redis b) store" "store k = Some v" "k \<in> set (nd_local_keys b)"
    and up: "net_ready os b" "room_for (length (qbf_hits store (qb_filter q) (nd_local_keys b)) + 1) b"
  shows "\<exists>rid. (src, to_wire (qbf_reply (nd_config b) (batch_message c q) rid (k, v)))
    \<in> set (net_sent (drained os (arrives os (to_wire (batch_message c q)) src b)))"
proof -
  let ?f = "qb_filter q"
  have f: "?f = fold bloom_add ks (bloom_new (ag_bits ag) (ag_hashes ag))"
    using batch(1) by (simp add: carries_def summary_def)
  have "bloom_good ?f" "maybe_contains ?f k"
    unfolding f using bloom_set.good_adds bloom_set.adds_contain batch(2,3) by blast+
  moreover have "bf_bits ?f = ag_bits ag" "bf_hashes ?f = ag_hashes ag"
    unfolding f by simp_all
  ultimately show ?thesis
    using batch_answered [where q = q, OF _ _ _ _ sender fits age holder up, of src] shape by auto
qed

definition demo_batch :: qbf_batch where
  "demo_batch = \<lparr>qb_origin = ''o'', qb_filter = bloom_add ''k'' (bloom_new 8 4), qb_created_ms = 7,
     qb_batch_id = ''q'', qb_key_count = 1\<rparr>"

theorem query_batch_answered_witness:
  "\<exists>rid. (demo_addr 7, to_wire (qbf_reply demo_config (batch_message demo_config demo_batch) rid (''k'', ''v'')))
    \<in> set (net_sent (drained server_host (arrives server_host (to_wire (batch_message demo_config demo_batch))
        (demo_addr 7) ((demo_node [])\<lparr>nd_local_keys := [''k'']\<rparr>))))"
proof -
  let ?f = "bloom_add ''k'' (bloom_new 8 4)"
  let ?b = "(demo_node [])\<lparr>nd_local_keys := [''k'']\<rparr>"
  let ?ag = "aggregator_new 8 4 0 0 (DFin 0) 0"
  have batch: "carries ?ag [''k''] demo_batch"
    by (simp add: carries_def summary_def aggregator_new_def demo_batch_def)
  have good: "bloom_good (bloom_new (ag_bits ?ag) (ag_hashes ?ag))"
    by (simp add: aggregator_new_def bloom_good_def bloom_wf_new)
  have nums: "size_of (query_bf_bits demo_config) = 8" "size_of (query_bf_hashes demo_config) = 4"
    by (simp_all add: demo_config_def config_of_def Let_def size_of_def get_setting_int_def get_setting_def)
  have "bloom_wf ?f"
    using bloom_set.good_add [OF good] by (simp add: bloom_good_def aggregator_new_def)
  then have "length (to_hex ?f) = 2"
    by (simp add: length_to_hex bloom_wf_def byte_size_def)
  then have fits: "length (to_wire (batch_message demo_config demo_batch)) \<le> recv_limit"
    by (simp add: demo_config_values batch_message_def demo_batch_def to_wire_def empty_message_def show_int_def show_u64_def
      show_nat.simps recv_limit_def)
  have ready: "net_ready server_host ?b"
    using demo_net_ready [of "[]"] by (simp add: net_ready_def sends_ok_def answer_host_def demo_host_def)
  have demo: "ag_bits ?ag = size_of (query_bf_bits (nd_config ?b))" "ag_hashes ?ag = size_of (query_bf_hashes (nd_config ?b))"
      "qb_origin demo_batch \<noteq> []" "bar_free (qb_origin demo_batch)" "bar_free (qb_batch_id demo_batch)"
      "0 < request_ttl demo_config" "in_int32 (request_ttl demo_config)"
    by (simp_all add: nums aggregator_new_def demo_config_values bar_free_def in_int32_def demo_batch_def)
  have age: "qbf_age (word_of_int (fst (os_wall_ms server_host (net_world ?b)))) (qb_created_ms demo_batch)
      \<le> size_of (query_bf_ttl_ms (nd_config ?b))"
    by (simp add: qbf_age_def answer_host_def demo_host_def demo_batch_def)
  have cache: "cache_is server_host (nd_redis ?b) (\<lambda>_. Some ''v'')"
    by (simp add: server_cache)
  have room: "room_for (length (qbf_hits (\<lambda>_. Some ''v'') (qb_filter demo_batch) (nd_local_keys ?b)) + 1) ?b"
    by (simp add: room_for_def)
  from query_batch_answered [OF batch _ good demo fits age cache _ _ ready room, of "''k''" "''v''" "demo_addr 7"] show ?thesis
    by simp
qed

end
