(* ===== verification/Wire_Truncation.thy ===== *)
theory Wire_Truncation
  imports Wire_Message "HOL-Library.Sublist"
begin

text \<open>
  What a receiver reads when the end of a datagram is missing, as it is when the datagram is longer than the
  buffer of \<^verbatim>\<open>UdpTransport::run\<close>: \<^verbatim>\<open>Message::from_wire\<close> on a prefix of what \<^verbatim>\<open>Message::to_wire\<close> wrote.
\<close>

text \<open>A prefix has the same pieces, except that the last one may be cut.\<close>

lemma pieces_take:
  "i < length (pieces d (take n s)) \<Longrightarrow> i < length (pieces d s) \<and> prefix (pieces d (take n s) ! i) (pieces d s ! i)
     \<and> (Suc i < length (pieces d (take n s)) \<longrightarrow> pieces d (take n s) ! i = pieces d s ! i)"
proof (induction s arbitrary: n i)
  case (Cons c s)
  show ?case
  proof (cases n)
    case 0
    with Cons.prems show ?thesis
      using pieces_ne [of d "c # s"] by simp
  next
    case (Suc m)
    obtain p ps where p: "pieces d s = p # ps"
      using pieces_Cons by blast
    obtain q qs where q: "pieces d (take m s) = q # qs"
      using pieces_Cons by blast
    show ?thesis
    proof (cases "c = d")
      case True
      with Cons.prems Cons.IH [of "i - 1" m] Suc show ?thesis
        by (cases i) auto
    next
      case False
      with Cons.prems Cons.IH [of i m] Suc p q show ?thesis
        by (cases i) auto
    qed
  qed
qed simp

text \<open>The parts of a message that is read from a prefix.\<close>

lemma from_wire_take:
  assumes "from_wire (take n (to_wire m)) = Some r"
  shows "m_type r = m_type m"
    and "bar_free (m_request_id m) \<Longrightarrow> m_request_id r = m_request_id m"
    and "bar_free (m_request_id m) \<Longrightarrow> bar_free (m_origin m) \<Longrightarrow> m_origin r = m_origin m"
    and "bar_free (m_request_id m) \<Longrightarrow> bar_free (m_origin m) \<Longrightarrow> in_int32 (m_ttl m) \<Longrightarrow> m_ttl r = m_ttl m"
    and "bar_free (m_request_id m) \<Longrightarrow> bar_free (m_origin m) \<Longrightarrow> bar_free (m_key m) \<Longrightarrow>
      (m_key r = m_key m \<and> prefix (m_value r) (takeWhile (\<lambda>c. c \<noteq> CHR ''|'') (m_value m))) \<or> (prefix (m_key r) (m_key m) \<and> m_value r = [])"
proof -
  let ?q = "pieces (CHR ''|'') (take n (to_wire m))" let ?p = "pieces (CHR ''|'') (to_wire m)"
  have len: "4 < length ?q"
    using assms by (auto simp: from_wire_def Let_def split_keep split: if_splits)
  have r: "r = \<lparr>m_type = parse_type (?q ! 0), m_request_id = ?q ! 1, m_origin = ?q ! 2,
      m_ttl = parse_int (?q ! 3) 0, m_key = ?q ! 4, m_value = (if length ?q \<ge> 6 then ?q ! 5 else [])\<rparr>"
    using assms len by (simp add: from_wire_def Let_def split_keep)
  have same: "?q ! i = ?p ! i" if "i < 4" for i
    using pieces_take [of i "CHR ''|''" n "to_wire m"] len that by simp
  have label: "?p ! 0 = message_type_label (m_type m)"
    by (simp add: to_wire_def pieces_append)
  show "m_type r = m_type m"
    using same [of 0] label by (simp add: r)
  assume "bar_free (m_request_id m)"
  then have id: "?p = [message_type_label (m_type m), m_request_id m] @ pieces (CHR ''|'')
      (m_origin m @ ''|'' @ show_int (m_ttl m) @ ''|'' @ m_key m @ ''|'' @ m_value m)"
    by (simp add: to_wire_def bar_free_def pieces_append)
  then show "m_request_id r = m_request_id m"
    using same [of 1] by (simp add: r)
  assume "bar_free (m_origin m)"
  then have org: "?p = [message_type_label (m_type m), m_request_id m, m_origin m, show_int (m_ttl m)]
      @ pieces (CHR ''|'') (m_key m @ ''|'' @ m_value m)"
    unfolding id by (simp add: bar_free_def pieces_append)
  then show "m_origin r = m_origin m"
    using same [of 2] by (simp add: r numeral_2_eq_2)
  show "m_ttl r = m_ttl m" if "in_int32 (m_ttl m)"
    using same [of 3] org that by (simp add: r numeral_3_eq_3 parse_int_show_int)
  assume "bar_free (m_key m)"
  then have key: "?p = [message_type_label (m_type m), m_request_id m, m_origin m, show_int (m_ttl m), m_key m]
      @ pieces (CHR ''|'') (m_value m)"
    unfolding org by (simp add: bar_free_def pieces_append)
  have p4: "?p ! 4 = m_key m"
    unfolding key by simp
  have p5: "?p ! 5 = takeWhile (\<lambda>c. c \<noteq> CHR ''|'') (m_value m)"
    unfolding key using pieces_hd [of "CHR ''|''" "m_value m"] by (simp add: hd_conv_nth)
  show "(m_key r = m_key m \<and> prefix (m_value r) (takeWhile (\<lambda>c. c \<noteq> CHR ''|'') (m_value m))) \<or> (prefix (m_key r) (m_key m) \<and> m_value r = [])"
  proof (cases "6 \<le> length ?q")
    case True
    then have "?q ! 4 = ?p ! 4" "prefix (?q ! 5) (?p ! 5)"
      using pieces_take [of 4 "CHR ''|''" n "to_wire m"] pieces_take [of 5 "CHR ''|''" n "to_wire m"] by simp_all
    with True p4 p5 show ?thesis
      by (simp add: r)
  next
    case False
    then show ?thesis
      using pieces_take [of 4 "CHR ''|''" n "to_wire m"] len p4 by (simp add: r)
  qed
qed

subsection \<open>Properties\<close>

text \<open>C18. What is left of a message whose datagram was cut. When the start of a message with a proper header can be
  read at all, its type, id, origin and TTL are as they were sent; and either the key is as well, and the
  value is a prefix of the value sent, or the cut fell into the key: then a shorter key is read, with no value.\<close>

theorem cut_message_read:
  assumes "header_ok m" "from_wire (take n (to_wire m)) = Some r"
  shows "(\<exists>v. prefix v (takeWhile (\<lambda>c. c \<noteq> CHR ''|'') (m_value m)) \<and> r = m\<lparr>m_value := v\<rparr>)
     \<or> (\<exists>k. prefix k (m_key m) \<and> r = m\<lparr>m_key := k, m_value := []\<rparr>)"
proof -
  have "m_type r = m_type m" "m_request_id r = m_request_id m" "m_origin r = m_origin m" "m_ttl r = m_ttl m"
    using from_wire_take(1-4) [OF assms(2)] assms(1) by (simp_all add: header_ok_def)
  moreover have "(m_key r = m_key m \<and> prefix (m_value r) (takeWhile (\<lambda>c. c \<noteq> CHR ''|'') (m_value m)))
      \<or> (prefix (m_key r) (m_key m) \<and> m_value r = [])"
    using from_wire_take(5) [OF assms(2)] assms(1) by (simp add: header_ok_def)
  ultimately show ?thesis
    by (cases r; cases m) auto
qed

theorem cut_message_read_witness:
  "from_wire (take 14 (to_wire wire_example)) = None
   \<and> (\<exists>k. prefix k ''alpha'' \<and> from_wire (take 20 (to_wire wire_example)) = Some (wire_example\<lparr>m_key := k, m_value := []\<rparr>))"
proof -
  have "to_wire wire_example = ''DATA|rid|node1|-3|alpha|x|y''"
    by (simp add: to_wire_def wire_example_def show_int_def show_nat.simps digit_char_def char_of_eq_iff)
  then have w: "from_wire (take 14 (to_wire wire_example)) = None"
      "\<exists>r. from_wire (take 20 (to_wire wire_example)) = Some r \<and> m_value r = [] \<and> m_key r \<noteq> ''alpha''"
    by (simp_all add: from_wire_def split_keep Let_def)
  then obtain r where r: "from_wire (take 20 (to_wire wire_example)) = Some r" "m_key r \<noteq> ''alpha''" by blast
  have "header_ok wire_example"
    by (simp add: header_ok_def bar_free_def wire_example_def in_int32_def)
  from cut_message_read [OF this r(1)] r w(1) show ?thesis
    by (auto simp: wire_example_def)
qed

end
