(* ===== verification/Network_Run.thy ===== *)
theory Network_Run
  imports Node_Exchange Wire_Truncation
begin

text \<open>
  A network of nodes. Each site is a node with the address its datagrams come from; the datagrams that were
  sent and have not arrived yet are a multiset, because UDP keeps no order. A datagram may arrive, get lost, or be
  doubled; a node may run a round of any of its threads at any time. The sites are those of \<^verbatim>\<open>node/node.cpp\<close> as
  modelled in \<^verbatim>\<open>Node_Handlers\<close> and \<^verbatim>\<open>Node_Tasks\<close>, all of them with the same program and each with a world of its own.
\<close>

subsection \<open>State and steps\<close>

type_synonym packet = "sockaddr_in \<times> sockaddr_in \<times> string"  \<comment> \<open>source, destination, bytes\<close>

record 'w site =
  site_addr :: sockaddr_in
  site_node :: "'w node_sys"

record 'w network =
  nw_sites :: "'w site list"
  nw_flight :: "packet multiset"

text \<open>What a node put on the wire between two of its states.\<close>

definition posted :: "sockaddr_in \<Rightarrow> 'w node_sys \<Rightarrow> 'w node_sys \<Rightarrow> packet multiset" where
  "posted a s t = mset (map (Pair a) (drop (length (net_sent s)) (net_sent t)))"

abbreviation node_at :: "'w network \<Rightarrow> nat \<Rightarrow> 'w node_sys" where
  "node_at nw i \<equiv> site_node (nw_sites nw ! i)"

abbreviation addr_at :: "'w network \<Rightarrow> nat \<Rightarrow> sockaddr_in" where
  "addr_at nw i \<equiv> site_addr (nw_sites nw ! i)"

definition site_step :: "nat \<Rightarrow> 'w node_sys \<Rightarrow> 'w network \<Rightarrow> 'w network" where
  "site_step i t nw = nw\<lparr>nw_sites := (nw_sites nw)[i := (nw_sites nw ! i)\<lparr>site_node := t\<rparr>],
     nw_flight := nw_flight nw + posted (addr_at nw i) (node_at nw i) t\<rparr>"

text \<open>The network at work on what is under way: a datagram arrives at a node whose receive loop runs, a datagram is
  lost, or a worker takes the next item of a queue.\<close>

inductive net_react :: "('w, 'y) node_os_scheme \<Rightarrow> 'w network \<Rightarrow> 'w network \<Rightarrow> bool" for os where
  arrive: "(src, dst, wire) \<in># nw_flight nw \<Longrightarrow> i < length (nw_sites nw) \<Longrightarrow> same_address dst (addr_at nw i) \<Longrightarrow>
     tp_running (net_transport (node_at nw i)) \<Longrightarrow>
     net_react os nw (site_step i (arrives os wire src (node_at nw i))
       (nw\<lparr>nw_flight := nw_flight nw - {#(src, dst, wire)#}\<rparr>))"
| lose: "p \<in># nw_flight nw \<Longrightarrow> net_react os nw (nw\<lparr>nw_flight := nw_flight nw - {#p#}\<rparr>)"
| serve: "i < length (nw_sites nw) \<Longrightarrow> fq_items (node_at nw i) \<noteq> [] \<Longrightarrow>
     net_react os nw (site_step i (snd (worker_turn os node_ok node_err (node_at nw i))) nw)"

inductive_cases net_reactE: "net_react os nw nw'"

text \<open>What a node does on its own: a round of one of its threads, a request for a key it is configured to ask for, or
  the end of its run.\<close>

inductive own_round :: "'w host_os \<Rightarrow> 'w node_sys \<Rightarrow> 'w node_sys \<Rightarrow> bool" for os where
  exchange: "own_round os s (content_exchange_round os s)"
| fallbacks: "own_round os s (fallback_round os s)"
| flush: "own_round os s (flush_round os s)"
| reload: "own_round os s (reload_round os s)"
| request: "key \<in> set (request_keys (nd_config s)) \<Longrightarrow> own_round os s (request_key os key s)"
| stop: "own_round os s (s\<lparr>sys_running := False\<rparr>)"

inductive_cases own_roundE: "own_round os s t"

text \<open>All that can happen: what is under way goes on, a datagram is doubled, or a node does something on its own.\<close>

inductive net_step :: "'w host_os \<Rightarrow> 'w network \<Rightarrow> 'w network \<Rightarrow> bool" for os where
  react: "net_react os nw nw' \<Longrightarrow> net_step os nw nw'"
| double: "p \<in># nw_flight nw \<Longrightarrow> net_step os nw (nw\<lparr>nw_flight := nw_flight nw + {#p#}\<rparr>)"
| own: "i < length (nw_sites nw) \<Longrightarrow> own_round os (node_at nw i) t \<Longrightarrow> net_step os nw (site_step i t nw)"

inductive_cases net_stepE: "net_step os nw nw'"

lemma own_round_step: "own_round os s t \<Longrightarrow> node_step os s t"
  by (erule own_roundE) (simp_all add: node_step.intros)

text \<open>Nothing is under way: no datagram, and no item in a queue.\<close>

definition quiet :: "'w network \<Rightarrow> bool" where
  "quiet nw \<longleftrightarrow> nw_flight nw = {#} \<and> (\<forall>x \<in> set (nw_sites nw). fq_items (site_node x) = [])"

lemma quiet_iff: "quiet nw \<longleftrightarrow> \<not> (\<exists>nw'. net_react os nw nw')"
proof
  assume "quiet nw"
  then show "\<not> (\<exists>nw'. net_react os nw nw')"
    by (force simp: quiet_def elim: net_reactE)
next
  assume stuck: "\<not> (\<exists>nw'. net_react os nw nw')"
  then have "nw_flight nw = {#}"
    using net_react.lose by (metis multiset_nonemptyE)
  moreover have "fq_items (node_at nw i) = []" if "i < length (nw_sites nw)" for i
    using stuck net_react.serve [OF that] by blast
  ultimately show "quiet nw"
    by (auto simp: quiet_def in_set_conv_nth)
qed

subsection \<open>What is left to do\<close>

text \<open>How much a datagram can still cause: twice the hops left to what it is read as, when that is a request or a
  Query-BF, and nothing otherwise. An item in a queue is worth one more than the datagrams it becomes.\<close>

definition wire_rank :: "string \<Rightarrow> nat" where
  "wire_rank wire = (case from_wire (take recv_limit wire) of None \<Rightarrow> 0
     | Some m \<Rightarrow> if m_type m \<in> {Request, QueryBloom} then 2 * nat (m_ttl m) else 0)"

definition item_rank :: "(closure, failure_closure) fq_item \<Rightarrow> nat" where
  "item_rank i = Suc (wire_rank (to_wire (fi_msg i)))"

abbreviation packet_rank :: "packet \<Rightarrow> nat" where
  "packet_rank p \<equiv> wire_rank (snd (snd p))"

definition queue_work :: "'w site \<Rightarrow> nat multiset" where
  "queue_work x = mset (map item_rank (fq_items (site_node x)))"

definition work_left :: "'w network \<Rightarrow> nat multiset" where
  "work_left nw = image_mset packet_rank (nw_flight nw) + sum_list (map queue_work (nw_sites nw))"

lemma data_rank: "m_type m = Data \<Longrightarrow> wire_rank (to_wire m) = 0"
  using from_wire_take(1) [of recv_limit m] by (auto simp: wire_rank_def split: option.splits)

text \<open>All that a message causes is worth less than the message.\<close>

lemma caused_rank:
  assumes "caused_by c (take recv_limit wire) src (kind, m, addr, ex)"
  shows "Suc (wire_rank (to_wire m)) < wire_rank wire"
proof -
  obtain msg where msg: "from_wire (take recv_limit wire) = Some msg" "m_type msg \<in> {Request, QueryBloom}"
      "reaction c msg src (kind, m, addr, ex)"
    using assms by (auto simp: caused_by_def split: option.splits)
  then have rank: "wire_rank wire = 2 * nat (m_ttl msg)" and ttl: "0 < m_ttl msg"
    by (auto simp: wire_rank_def reaction_def)
  from msg(3) consider "m_type m = Data" | "m = msg\<lparr>m_ttl := m_ttl msg - 1\<rparr>"
    by (auto simp: reaction_def)
  then show ?thesis
  proof cases
    case 1
    then show ?thesis
      using data_rank rank ttl by simp
  next
    case 2
    have "bar_free (m_request_id m)" "bar_free (m_origin m)" "in_int32 (m_ttl m)"
      using from_wire_fields [OF msg(1)] ttl by (simp_all add: 2 in_int32_def)
    then have "wire_rank (to_wire m) \<le> 2 * nat (m_ttl m)"
      using from_wire_take(4) [of recv_limit m] by (auto simp: wire_rank_def split: option.splits)
    then show ?thesis
      using rank ttl by (simp add: 2)
  qed
qed

text \<open>One site of the list moves on.\<close>

lemma sites_update:
  assumes "i < length xs"
  shows "sum_list (map f (xs[i := y])) + f (xs ! i) = sum_list (map f xs) + (f y :: nat multiset)"
proof -
  have "xs = take i xs @ xs ! i # drop (Suc i) xs"
    using assms by (simp add: id_take_nth_drop)
  then have old: "sum_list (map f xs) = sum_list (map f (take i xs)) + (f (xs ! i) + sum_list (map f (drop (Suc i) xs)))"
    by (metis list.simps(9) map_append sum_list.Cons sum_list.append)
  have "sum_list (map f (xs[i := y])) = sum_list (map f (take i xs)) + (f y + sum_list (map f (drop (Suc i) xs)))"
    using assms by (simp add: upd_conv_take_nth_drop)
  then show ?thesis
    unfolding old by (simp add: ac_simps)
qed

text \<open>A step that takes one piece of work and leaves only smaller ones brings the work down.\<close>

lemma work_less:
  assumes "old = rest + {#n#}" "new = rest + added" "\<And>k. k \<in># added \<Longrightarrow> k < n"
  shows "(new, old) \<in> mult {(a, b). a < (b :: nat)}"
  unfolding assms(1,2) using assms(3) by (intro one_step_implies_mult) auto

lemma arrives_outputs:
  "outputs (caused_by (nd_config s) (take recv_limit wire) src) s (arrives os wire src s)"
  by (simp add: arrives_def receive_round_def handle_wire_outputs)

lemma worker_turn_outputs:
  assumes "fq_items s = item # rest"
  shows "fq_items (snd (worker_turn os node_ok node_err s)) = rest"
    and "\<exists>d. net_sent (snd (worker_turn os node_ok node_err s)) = net_sent s @ d \<and> (\<forall>x \<in> set d. snd x = to_wire (fi_msg item))"
proof -
  let ?s = "s\<lparr>fq_items := rest\<rparr>"
  have "fq_items (process_item os node_ok node_err item ?s) = rest
    \<and> (\<exists>d. net_sent (process_item os node_ok node_err item ?s) = net_sent s @ d \<and> (\<forall>x \<in> set d. snd x = to_wire (fi_msg item)))"
  proof (cases "fi_kind item")
    case Direct
    let ?r = "send_to os (fi_addr item) (to_wire (fi_msg item)) ?s"
    have "same_net (snd ?r) (snd (run_direct os node_ok node_err item ?s))"
      by (cases ?r; cases "fst ?r") (auto simp: run_direct_def send_direct_def nq.run_failure_net nq.run_success_net)
    then show ?thesis
      using Direct by (auto simp: process_item_def same_net_def send_to_queue send_to_sent)
  next
    case Broadcast
    then show ?thesis
      using send_broadcast_sent [of os "fi_msg item" "fi_exclude item" ?s]
      by (auto simp: process_item_def send_broadcast_queue)
  qed
  then show "fq_items (snd (worker_turn os node_ok node_err s)) = rest"
    and "\<exists>d. net_sent (snd (worker_turn os node_ok node_err s)) = net_sent s @ d \<and> (\<forall>x \<in> set d. snd x = to_wire (fi_msg item))"
    using assms by (simp_all add: worker_turn_def queue_pop_def log_state_def)
qed

lemma posted_ranks:
  "net_sent t = net_sent s @ d \<Longrightarrow> image_mset packet_rank (posted a s t) = mset (map (wire_rank \<circ> snd) d)"
  by (simp add: posted_def image_mset.compositionality comp_def)

lemma image_mset_take: "p \<in># ps \<Longrightarrow> image_mset f ps = image_mset f (ps - {#p#}) + {#f p#}"
  by (metis add_mset_add_single image_mset_add_mset insert_DiffM)

lemma site_step_work:
  assumes "i < length (nw_sites nw)" "net_sent t = net_sent (node_at nw i) @ d"
  shows "work_left (site_step i t nw) + queue_work (nw_sites nw ! i)
    = work_left nw + queue_work ((nw_sites nw ! i)\<lparr>site_node := t\<rparr>) + mset (map (wire_rank \<circ> snd) d)"
  using sites_update [OF assms(1), of queue_work "(nw_sites nw ! i)\<lparr>site_node := t\<rparr>"] posted_ranks [OF assms(2)]
  by (simp add: work_left_def site_step_def ac_simps)

lemma react_decreases:
  assumes "net_react os nw nw'"
  shows "(work_left nw', work_left nw) \<in> mult {(a, b). a < (b :: nat)}"
  using assms
proof cases
  case (arrive src dst wire i)
  let ?s = "node_at nw i"
  let ?t = "arrives os wire src ?s"
  let ?nw = "nw\<lparr>nw_flight := nw_flight nw - {#(src, dst, wire)#}\<rparr>"
  obtain q d where q: "fq_items ?t = fq_items ?s @ q" "\<forall>x \<in> set q. caused_by (nd_config ?s) (take recv_limit wire) src (core x)"
    and d: "net_sent ?t = net_sent ?s @ d" "\<forall>x \<in> set d. \<exists>y. caused_by (nd_config ?s) (take recv_limit wire) src y \<and> carries_output y x"
    using arrives_outputs [of ?s wire src os] by (auto simp: outputs_def)
  have "work_left (site_step i ?t ?nw) = work_left ?nw + (mset (map item_rank q) + mset (map (wire_rank \<circ> snd) d))"
    using site_step_work [of i ?nw ?t d] arrive(3) d(1) q(1) by (simp add: queue_work_def)
  moreover have "work_left nw = work_left ?nw + {#wire_rank wire#}"
    using image_mset_take [OF arrive(2), of packet_rank] by (simp add: work_left_def)
  moreover have "k < wire_rank wire" if "k \<in># mset (map item_rank q) + mset (map (wire_rank \<circ> snd) d)" for k
    using that q(2) d(2) caused_rank [of "nd_config ?s" wire src]
    by (fastforce simp: item_rank_def core_def carries_output_def)
  ultimately show ?thesis
    unfolding arrive(1) by (intro work_less)
next
  case (lose p)
  then have "work_left nw = work_left nw' + {#packet_rank p#}"
    using image_mset_take [OF lose(2), of packet_rank] by (simp add: work_left_def)
  then show ?thesis
    by (rule work_less [where added = "{#}"]) simp_all
next
  case (serve i)
  let ?s = "node_at nw i"
  let ?t = "snd (worker_turn os node_ok node_err ?s)"
  obtain item rest where items: "fq_items ?s = item # rest"
    using serve(3) by (cases "fq_items ?s") auto
  obtain d where d: "net_sent ?t = net_sent ?s @ d" "\<forall>x \<in> set d. snd x = to_wire (fi_msg item)"
    using worker_turn_outputs(2) [OF items] by blast
  let ?rest = "image_mset packet_rank (nw_flight nw)
      + sum_list (map queue_work ((nw_sites nw)[i := (nw_sites nw ! i)\<lparr>site_node := ?t\<rparr>]))"
  have "work_left nw = ?rest + {#item_rank item#}"
    using sites_update [OF serve(2), of queue_work "(nw_sites nw ! i)\<lparr>site_node := ?t\<rparr>"] items worker_turn_outputs(1) [OF items, of os]
    by (simp add: work_left_def queue_work_def ac_simps)
  moreover have "work_left nw' = ?rest + mset (map (wire_rank \<circ> snd) d)"
    using posted_ranks [OF d(1)] unfolding serve(1) by (simp add: work_left_def site_step_def ac_simps)
  moreover have "k < item_rank item" if "k \<in># mset (map (wire_rank \<circ> snd) d)" for k
    using that d(2) by (auto simp: item_rank_def)
  ultimately show ?thesis
    by (rule work_less)
qed

lemma react_wf: "wfp (\<lambda>nw' nw. net_react os nw nw')"
proof -
  have "wf (inv_image (mult {(a, b). a < (b :: nat)}) work_left)"
    by (intro wf_inv_image wf_mult wf)
  then have "wf {(nw', nw). net_react os nw nw'}"
    by (rule wf_subset) (auto intro: react_decreases)
  then show ?thesis
    by (simp add: wfp_def)
qed

text \<open>C8. Every network comes to rest. In whatever states its nodes are and whatever is under way, in a network of any
  size and shape there is no endless sequence of arrivals, losses and turns of workers, and whenever
  no further one is possible nothing is under way. So from every state, however the rest is
  scheduled, a state is reached in which no datagram is under way and every queue is empty.\<close>

theorem network_comes_to_rest:
  "wfp (\<lambda>nw' nw. net_react os nw nw') \<and> (\<exists>nw'. (net_react os)\<^sup>*\<^sup>* nw nw' \<and> quiet nw')
   \<and> (quiet nw \<longleftrightarrow> \<not> (\<exists>nw'. net_react os nw nw'))"
proof -
  have "\<exists>nw'. (net_react os)\<^sup>*\<^sup>* nw nw' \<and> quiet nw'"
  proof (induction nw rule: wfp_induct_rule [OF react_wf [of os]])
    case (1 nw)
    show ?case
    proof (cases "quiet nw")
      case False
      then obtain nw1 where "net_react os nw nw1"
        using quiet_iff by blast
      with 1 show ?thesis
        by (meson converse_rtranclp_into_rtranclp)
    qed blast
  qed
  then show ?thesis
    using react_wf quiet_iff by blast
qed

subsection \<open>Invariants of every node\<close>

lemma site_step_nodes:
  assumes "\<forall>x \<in> set (nw_sites nw). P (site_node x)" "P t"
  shows "\<forall>x \<in> set (nw_sites (site_step i t nw)). P (site_node x)"
  using assms by (auto simp: site_step_def dest!: set_update_subset_insert [THEN subsetD])

lemma site_step_flight:
  assumes "\<forall>p \<in># nw_flight nw. Q (snd (snd p))" "\<forall>d \<in> set (net_sent t). Q (snd d)"
  shows "\<forall>p \<in># nw_flight (site_step i t nw). Q (snd (snd p))"
proof
  fix p assume "p \<in># nw_flight (site_step i t nw)"
  then consider "p \<in># nw_flight nw" | "snd p \<in> set (net_sent t)"
    by (auto simp: site_step_def posted_def dest: in_set_dropD)
  then show "Q (snd (snd p))"
    using assms by cases simp_all
qed

text \<open>A property of nodes that every round respects, and that makes every datagram sent harmless.\<close>

locale site_property =
  fixes os :: "'w host_os" and P :: "'w node_sys \<Rightarrow> bool" and Q :: "string \<Rightarrow> bool"
  assumes arrives_keeps: "P s \<Longrightarrow> Q wire \<Longrightarrow> P (arrives os wire src s)"
    and worker_keeps: "P s \<Longrightarrow> P (snd (worker_turn os node_ok node_err s))"
    and own_keeps: "P s \<Longrightarrow> own_round os s t \<Longrightarrow> P t"
    and sent_ok: "P s \<Longrightarrow> d \<in> set (net_sent s) \<Longrightarrow> Q (snd d)"
begin

definition everywhere :: "'w network \<Rightarrow> bool" where
  "everywhere nw \<longleftrightarrow> (\<forall>x \<in> set (nw_sites nw). P (site_node x)) \<and> (\<forall>p \<in># nw_flight nw. Q (snd (snd p)))"

lemma site_step_everywhere: "everywhere nw \<Longrightarrow> P t \<Longrightarrow> everywhere (site_step i t nw)"
  unfolding everywhere_def using site_step_nodes [of nw P t i] site_step_flight [of nw Q t i] sent_ok by blast

lemma net_step_everywhere:
  assumes "net_step os nw nw'" "everywhere nw"
  shows "everywhere nw'"
  using assms(1)
proof cases
  case react
  from react show ?thesis
  proof cases
    case (arrive src dst wire i)
    then have "P (node_at nw i)" "Q wire"
      using assms(2) by (auto simp: everywhere_def)
    moreover have "everywhere (nw\<lparr>nw_flight := nw_flight nw - {#(src, dst, wire)#}\<rparr>)"
      using assms(2) by (auto simp: everywhere_def dest: in_diffD)
    ultimately show ?thesis
      unfolding arrive(1) by (intro site_step_everywhere arrives_keeps)
  next
    case (lose p)
    then show ?thesis
      using assms(2) by (auto simp: everywhere_def dest: in_diffD)
  next
    case (serve i)
    then have "P (node_at nw i)"
      using assms(2) by (simp add: everywhere_def)
    then show ?thesis
      unfolding serve(1) by (intro site_step_everywhere assms(2) worker_keeps)
  qed
next
  case (double p)
  then show ?thesis
    using assms(2) by (auto simp: everywhere_def)
next
  case (own i t)
  then have "P (node_at nw i)"
    using assms(2) by (simp add: everywhere_def)
  then show ?thesis
    unfolding own(1) by (intro site_step_everywhere assms(2)) (rule own_keeps [OF _ own(3)])
qed

lemma steps_everywhere: "(net_step os)\<^sup>*\<^sup>* nw nw' \<Longrightarrow> everywhere nw \<Longrightarrow> everywhere nw'"
  by (induction rule: rtranclp_induct) (auto intro: net_step_everywhere)

end

interpretation node_property: site_property os node_inv "\<lambda>_. True" for os
proof
  fix s t :: "'a node_sys" and wire src
  show "node_inv s \<Longrightarrow> node_inv (arrives os wire src s)"
    by (simp add: arrives_def receive_round_inv)
  show "node_inv s \<Longrightarrow> own_round os s t \<Longrightarrow> node_inv t"
    using node_step_inv own_round_step by blast
qed (simp_all add: worker_turn_inv)

end
