(* ===== verification/Redis_Server.thy ===== *)
theory Redis_Server
  imports Node_Contract
begin

text \<open>
  A small Redis at the other end of \<^verbatim>\<open>cache/redis_client.cpp\<close>: it reads a command of the protocol back from its bytes,
  keeps a map, and answers GET and SET. It is not part of the program; it shows that what the theorems about networks
  ask of the caches of the nodes can be had.
\<close>

subsection \<open>Reading a command\<close>

fun command_args :: "nat \<Rightarrow> string \<Rightarrow> string list" where
  "command_args 0 bytes = []"
| "command_args (Suc n) bytes = (let len = digits_val (takeWhile (\<lambda>c. c \<noteq> CHR 0x0D) (tl bytes));
       body = drop 2 (dropWhile (\<lambda>c. c \<noteq> CHR 0x0D) bytes)
     in take len body # command_args n (drop (len + 2) body))"

definition read_command :: "string \<Rightarrow> string list" where
  "read_command bytes = command_args (digits_val (takeWhile (\<lambda>c. c \<noteq> CHR 0x0D) (tl bytes)))
     (drop 2 (dropWhile (\<lambda>c. c \<noteq> CHR 0x0D) bytes))"

lemma count_line_read:
  "takeWhile (\<lambda>c. c \<noteq> CHR 0x0D) (show_nat n @ crlf @ rest) = show_nat n"
  "dropWhile (\<lambda>c. c \<noteq> CHR 0x0D) (show_nat n @ crlf @ rest) = crlf @ rest"
proof -
  have "c \<noteq> CHR 0x0D" if "c \<in> set (show_nat n)" for c
    using that show_nat_no_cr by metis
  then show "takeWhile (\<lambda>c. c \<noteq> CHR 0x0D) (show_nat n @ crlf @ rest) = show_nat n"
    "dropWhile (\<lambda>c. c \<noteq> CHR 0x0D) (show_nat n @ crlf @ rest) = crlf @ rest"
    by (simp_all add: takeWhile_append2 dropWhile_append2 crlf_def)
qed

lemma drop_crlf: "drop 2 (crlf @ rest) = rest" "drop (Suc (Suc (length a))) (a @ crlf @ rest) = rest"
  by (simp_all add: crlf_def)

lemma command_args_read: "command_args (length as) (concat (map resp_arg as) @ rest) = as"
proof (induction as)
  case (Cons a as)
  let ?rest = "concat (map resp_arg as) @ rest"
  have bytes: "concat (map resp_arg (a # as)) @ rest = CHR ''$'' # show_nat (length a) @ crlf @ a @ crlf @ ?rest"
    by (simp add: resp_arg_def)
  have "command_args (length (a # as)) (CHR ''$'' # show_nat (length a) @ crlf @ a @ crlf @ ?rest)
      = a # command_args (length as) ?rest"
    by (simp add: Let_def count_line_read drop_crlf del: drop_append append_assoc)
  with Cons.IH show ?case
    unfolding bytes by simp
qed simp

lemma read_command_read: "read_command (resp_command args) = args"
  using command_args_read [of args "[]"]
  by (simp add: read_command_def resp_command_def count_line_read drop_crlf del: drop_append)

subsection \<open>The server\<close>

text \<open>The content of the server and the bytes that it has not delivered yet. As Redis does, it refuses a value that is too
  large for a reply.\<close>

type_synonym server = "(string \<Rightarrow> string option) \<times> string"

definition stored :: "server \<Rightarrow> string \<Rightarrow> string option" where
  "stored w k = (case fst w k of Some v \<Rightarrow> if Redis_Client.reply_ok (Bulk v) then Some v else None | None \<Rightarrow> None)"

definition serve_command :: "string list \<Rightarrow> server \<Rightarrow> resp_reply \<times> (string \<Rightarrow> string option)" where
  "serve_command args w = (case args of
       [name, k] \<Rightarrow> if name = ''GET'' then (case stored w k of Some v \<Rightarrow> Bulk v | None \<Rightarrow> NullBulk, fst w)
         else (ErrorReply ''ERR'', fst w)
     | [name, k, v] \<Rightarrow> if name = ''SET'' \<and> Redis_Client.reply_ok (Bulk v) then (Status ''OK'', (fst w)(k \<mapsto> v))
         else (ErrorReply ''ERR'', fst w)
     | _ \<Rightarrow> (ErrorReply ''ERR'', fst w))"

definition server_send :: "server sender" where
  "server_send bytes w = (let (reply, content) = serve_command (read_command bytes) w
     in (SentBytes (length bytes - 1), (content, reply_bytes reply)))"

definition server_recv :: "server receiver" where
  "server_recv n w = (case snd w of [] \<Rightarrow> (NoBytes ''closed'', w)
     | c # cs \<Rightarrow> (Bytes c (take (n - 1) cs), (fst w, drop (n - 1) cs)))"

definition store_host :: "server host_os" where
  "store_host = \<lparr>os_sendto = \<lambda>_ _ w. (None, w), os_getaddrinfo = \<lambda>_ _ w. (Inr zero_addr, w),
     os_socket = \<lambda>w. (None, w), os_bind = \<lambda>_ w. (None, w), os_inet_pton = \<lambda>_. None,
     os_steady = \<lambda>w. (0, w), os_wall_ms = \<lambda>w. (0, w), os_redis_send = server_send, os_redis_recv = server_recv,
     os_redis_connect = \<lambda>w. ((None, None), w), os_getenv = \<lambda>w k. None, os_read_file = \<lambda>w p. None\<rparr>"

lemma server_recv_stream: "stream_recv server_recv snd"
  by (auto simp: stream_recv_def server_recv_def split: list.splits)

subsection \<open>Reading a reply leaves the content alone\<close>

lemma read_line_content:
  assumes "read_line server_recv out w = Some r"
  shows "fst (snd r) = fst w"
proof -
  have "read_line server_recv out (m, bytes) = Some r \<Longrightarrow> fst (snd r) = m" for m bytes
    by (induction bytes arbitrary: out; subst (asm) read_line.simps)
      (auto simp: server_recv_def split: list.splits if_splits)
  then show ?thesis
    using assms by (cases w) auto
qed

lemma read_exact_content: "fst (snd (read_exact server_recv len out w)) = fst w"
proof (induction server_recv len out w rule: read_exact.induct)
  case (1 len out s)
  then show ?case
    by (subst read_exact.simps) (auto simp: Let_def server_recv_def split: list.splits)
qed

lemma read_resp_content:
  assumes "read_resp server_recv w = Some r"
  shows "fst (snd r) = fst w"
proof -
  have "fst s = fst w" if "read_line server_recv [] w = Some (x, s)" for x s
    using read_line_content [OF that] by simp
  moreover have "fst s' = fst s" if "read_exact server_recv len [] s = (x, s')" for len s x s'
    using read_exact_content [of len "[]" s] that by simp
  ultimately show ?thesis
    using assms by (fastforce simp: read_resp_def Let_def split: option.splits sum.splits if_splits prod.splits)
qed

text \<open>A command of the client gets the reply of the server, and leaves its content as the server says.\<close>

lemma server_transaction:
  assumes "rc_connected rc" "serve_command args w = (reply, content)" "Redis_Client.reply_ok reply"
  obtains w1 w2 where "send_command server_send rc args w = (None, w1)"
    "read_resp server_recv w1 = Some (Inr (reply_value reply), w2)" "fst w2 = content"
proof -
  let ?w = "(content, reply_bytes reply)"
  obtain c cs where "resp_command args = c # cs"
    by (simp add: resp_command_def)
  then have sent: "send_command server_send rc args w = (None, ?w)"
    using assms(1,2) read_command_read [of args]
    by (simp add: send_command_def send_loop.simps [of _ "_ # _"] send_loop.simps [of _ "[]"] server_send_def)
  obtain w2 where w2: "read_resp server_recv ?w = Some (Inr (reply_value reply), w2)"
    using read_resp_reply [OF server_recv_stream assms(3), of ?w "[]"] by auto
  show thesis
    using that [OF sent w2] read_resp_content [OF w2] by simp
qed

lemma stored_ok: "stored w k = Some v \<Longrightarrow> Redis_Client.reply_ok (Bulk v)"
  by (auto simp: stored_def split: option.splits if_splits)

lemma stored_content: "fst w = fst w' \<Longrightarrow> stored w = stored w'"
  by (simp add: stored_def fun_eq_iff)

lemma store_get:
  "fst (fst (cache_get store_host rc key w)) \<in> {None, stored w key} \<and> stored (snd (cache_get store_host rc key w)) = stored w"
proof (cases "rc_connected rc")
  case True
  let ?reply = "case stored w key of Some v \<Rightarrow> Bulk v | None \<Rightarrow> NullBulk"
  have serve: "serve_command [''GET'', key] w = (?reply, fst w)" "Redis_Client.reply_ok ?reply"
    using stored_ok [of w key] by (auto simp: serve_command_def split: option.splits)
  obtain w1 w2 where "send_command server_send rc [''GET'', key] w = (None, w1)"
      "read_resp server_recv w1 = Some (Inr (reply_value ?reply), w2)" "fst w2 = fst w"
    by (rule server_transaction [OF True serve])
  then show ?thesis
    using stored_content [of w2 w] by (auto simp: cache_get_def redis_get_def store_host_def split: option.splits)
qed (simp add: cache_get_def redis_get_def send_command_def store_host_def)

lemma store_set:
  "stored (snd (cache_set store_host rc key v w)) \<in> {stored w, (stored w)(key \<mapsto> v)}
   \<and> (fst (cache_set store_host rc key v w) = None \<longrightarrow> stored (snd (cache_set store_host rc key v w)) = (stored w)(key \<mapsto> v))"
proof (cases "rc_connected rc")
  case True
  obtain reply content where serve: "serve_command [''SET'', key, v] w = (reply, content)"
    by fastforce
  then have ok: "Redis_Client.reply_ok reply"
    by (auto simp: serve_command_def split: if_splits)
  obtain w1 w2 where w: "send_command server_send rc [''SET'', key, v] w = (None, w1)"
      "read_resp server_recv w1 = Some (Inr (reply_value reply), w2)" "fst w2 = content"
    by (rule server_transaction [OF True serve ok])
  have call: "cache_set store_host rc key v w = (set_outcome reply, w2)"
    using w(1,2) by (cases reply) (simp_all add: cache_set_def redis_set_def store_host_def)
  show ?thesis
  proof (cases "Redis_Client.reply_ok (Bulk v)")
    case True
    then have "content = (fst w)(key \<mapsto> v)"
      using serve by (auto simp: serve_command_def split: if_splits)
    then have "stored w2 = (stored w)(key \<mapsto> v)"
      using w(3) True by (auto simp: stored_def fun_eq_iff)
    then show ?thesis
      by (simp add: call)
  next
    case False
    then have "content = fst w" "reply = ErrorReply ''ERR''"
      using serve by (auto simp: serve_command_def split: if_splits)
    then show ?thesis
      using w(3) stored_content [of w2 w] by (simp add: call)
  qed
qed (simp add: cache_set_def redis_set_def send_command_def store_host_def)

end
