(* ===== verification/Network_Integrity.thy ===== *)
theory Network_Integrity
  imports Network_Run Redis_Server
begin

text \<open>
  No node invents a value. In a closed network, whose caches do what they are told and whose nodes run whole rounds, one
  round at a time, a value that is found under a key anywhere, at any time, was under that key in some cache at the start, or
  is the start of such a value; only the empty value may get under a shortened key. The invariant
  goes along every operation of a node: the cache, the local keys, the queue and what was sent.
\<close>

subsection \<open>A cache that does what it is told\<close>

text \<open>\<open>st\<close> reads the content of a node's Redis out of the node's world. GET answers with what is stored, if it answers; SET stores
  the value, or does nothing and may only report success when it stored; nothing else that the node asks of its host changes the content.\<close>

definition faithful :: "('w, 'y) node_os_scheme \<Rightarrow> ('w \<Rightarrow> string \<Rightarrow> string option) \<Rightarrow> bool" where
  "faithful os st \<longleftrightarrow>
     (\<forall>rc key w. fst (fst (cache_get os rc key w)) \<in> {None, st w key} \<and> st (snd (cache_get os rc key w)) = st w)
   \<and> (\<forall>rc key v w. st (snd (cache_set os rc key v w)) \<in> {st w, (st w)(key \<mapsto> v)}
        \<and> (fst (cache_set os rc key v w) = None \<longrightarrow> st (snd (cache_set os rc key v w)) = (st w)(key \<mapsto> v)))
   \<and> (\<forall>a p w. st (snd (os_sendto os a p w)) = st w) \<and> (\<forall>h p w. st (snd (os_getaddrinfo os h p w)) = st w)
   \<and> (\<forall>w. st (snd (os_steady os w)) = st w) \<and> (\<forall>w. st (snd (os_wall_ms os w)) = st w)"

lemma faithfulD:
  assumes "faithful os st"
  shows "st (snd (cache_get os rc key w)) = st w"
    and "fst (fst (cache_get os rc key w)) = Some v \<Longrightarrow> st w key = Some v"
    and "st (snd (cache_set os rc key v w)) \<in> {st w, (st w)(key \<mapsto> v)}"
    and "fst (cache_set os rc key v w) = None \<Longrightarrow> st (snd (cache_set os rc key v w)) = (st w)(key \<mapsto> v)"
    and "st (snd (os_sendto os a p w)) = st w" "st (snd (os_getaddrinfo os h p w)) = st w"
    and "st (snd (os_steady os w)) = st w" "st (snd (os_wall_ms os w)) = st w"
  using assms by (simp_all add: faithful_def) (metis insertE singletonD option.distinct(1))

subsection \<open>Values that come from the start\<close>

text \<open>\<open>orig\<close> is what was stored at the start. Being cut on the way shortens a value; a datagram that is cut in its key leaves
  a shorter key, and no value.\<close>

definition genuine :: "(string \<Rightarrow> string \<Rightarrow> bool) \<Rightarrow> string \<Rightarrow> string \<Rightarrow> bool" where
  "genuine orig k v \<longleftrightarrow> (\<exists>k0 v0. orig k0 v0 \<and> prefix v v0 \<and> prefix k k0 \<and> (k = k0 \<or> v = []))"

lemma genuine_prefix: "genuine orig k v \<Longrightarrow> prefix u v \<Longrightarrow> genuine orig k u"
  unfolding genuine_def by (metis prefix_Nil prefix_order.trans)

lemma genuine_cut_key: "genuine orig k v \<Longrightarrow> prefix l k \<Longrightarrow> genuine orig l []"
  unfolding genuine_def by (metis Nil_prefix prefix_order.trans)

definition honest :: "(string \<Rightarrow> string \<Rightarrow> bool) \<Rightarrow> message \<Rightarrow> bool" where
  "honest orig m \<longleftrightarrow> (m_type m = Data \<longrightarrow> bar_free (m_request_id m) \<and> bar_free (m_origin m) \<and> bar_free (m_key m)
     \<and> genuine orig (m_key m) (m_value m))"

definition honest_wire :: "(string \<Rightarrow> string \<Rightarrow> bool) \<Rightarrow> string \<Rightarrow> bool" where
  "honest_wire orig wire \<longleftrightarrow> (\<exists>m. wire = to_wire m \<and> honest orig m)"

text \<open>What is read from an honest datagram is honest, cut or not.\<close>

lemma honest_read:
  assumes "honest_wire orig wire" "from_wire (take n wire) = Some r"
  shows "honest orig r"
proof -
  obtain m where m: "wire = to_wire m" "honest orig m"
    using assms(1) by (auto simp: honest_wire_def)
  note cut = from_wire_take [OF assms(2) [unfolded m(1)]]
  show ?thesis
  proof (cases "m_type r = Data")
    case True
    then have sent: "genuine orig (m_key m) (m_value m)"
      and "(m_key r = m_key m \<and> prefix (m_value r) (takeWhile (\<lambda>c. c \<noteq> CHR ''|'') (m_value m)))
        \<or> (prefix (m_key r) (m_key m) \<and> m_value r = [])"
      using cut(1,5) m(2) by (auto simp: honest_def)
    moreover have "prefix (takeWhile (\<lambda>c. c \<noteq> CHR ''|'') (m_value m)) (m_value m)"
      by (rule takeWhile_is_prefix)
    ultimately have "genuine orig (m_key r) (m_value r)"
      using genuine_prefix [OF sent] genuine_cut_key [OF sent] prefix_order.trans by metis
    then show ?thesis
      using from_wire_fields [OF assms(2)] by (simp add: honest_def)
  qed (simp add: honest_def)
qed

subsection \<open>Clean nodes\<close>

definition clean :: "(string \<Rightarrow> string \<Rightarrow> bool) \<Rightarrow> ('w \<Rightarrow> string \<Rightarrow> string option) \<Rightarrow> 'w node_sys \<Rightarrow> bool" where
  "clean orig st s \<longleftrightarrow> bar_free (node_id (nd_config s)) \<and> list_all bar_free (request_keys (nd_config s))
     \<and> list_all (\<lambda>k. bar_free k \<and> st (net_world s) k \<noteq> None) (nd_local_keys s)
     \<and> (\<forall>k v. st (net_world s) k = Some v \<longrightarrow> genuine orig k v)
     \<and> (\<forall>i \<in> set (fq_items s). honest orig (fi_msg i)) \<and> (\<forall>d \<in> set (net_sent s). honest_wire orig (snd d))"

lemma clean_same [simp]:
  fixes s :: "'w node_sys"
  shows "clean orig st (s\<lparr>nd_query := a\<rparr>) = clean orig st s" "clean orig st (s\<lparr>nd_sync := b\<rparr>) = clean orig st s"
    "clean orig st (s\<lparr>nd_content := c\<rparr>) = clean orig st s" "clean orig st (s\<lparr>nd_fallback := d\<rparr>) = clean orig st s"
    "clean orig st (s\<lparr>nd_agg := e\<rparr>) = clean orig st s" "clean orig st (s\<lparr>nd_limiter := f\<rparr>) = clean orig st s"
    "clean orig st (s\<lparr>nd_counter := g\<rparr>) = clean orig st s" "clean orig st (s\<lparr>net_topology := tp\<rparr>) = clean orig st s"
    "clean orig st (s\<lparr>sys_running := r\<rparr>) = clean orig st s" "clean orig st (log_line lv m s) = clean orig st s"
  by (simp_all add: clean_def)

lemma clean_world [simp]:
  fixes s :: "'w node_sys"
  shows "clean orig st s \<Longrightarrow> st w = st (net_world s) \<Longrightarrow> clean orig st (s\<lparr>net_world := w\<rparr>)"
  by (simp add: clean_def)

lemma clean_key [simp]:
  "clean orig st s \<Longrightarrow> bar_free k \<Longrightarrow> st (net_world s) k \<noteq> None \<Longrightarrow> clean orig st (record_local_key k s)"
  by (auto simp: clean_def record_local_key_def list_all_iff)

subsection \<open>Sending\<close>

lemma send_to_clean:
  fixes s :: "'w node_sys"
  assumes "faithful os st" "clean orig st s" "honest orig m"
  shows "clean orig st (snd (send_to os a (to_wire m) s))"
  using assms(2,3) faithfulD(5) [OF assms(1), of a "to_wire m" "net_world s"]
  by (auto simp: send_to_def clean_def honest_wire_def split: prod.splits option.splits)

lemma resolve_world: "faithful os st \<Longrightarrow> st (snd (resolve_in os h p w)) = st w"
  by (simp add: resolve_in_def faithfulD(6))

lemma send_to_neighbor_clean:
  fixes s :: "'w node_sys"
  assumes "faithful os st" "clean orig st s" "honest orig m"
  shows "clean orig st (snd (send_to_neighbor os m n s))"
proof -
  have world: "clean orig st (s\<lparr>net_world := snd (resolve_in os (na_host n) (na_port n) (net_world s))\<rparr>)"
    using assms(2) resolve_world [OF assms(1)] by (rule clean_world)
  have "clean orig st (snd (send_to os addr (to_wire m) s1))" if "clean orig st s1" for addr and s1 :: "'w node_sys"
    using send_to_clean [OF assms(1) that assms(3)] .
  then show ?thesis
    using world assms(2) by (simp add: send_to_neighbor_def split_beta split: option.splits sum.splits)
qed

lemma broadcast_loop_clean:
  fixes s :: "'w node_sys"
  assumes "faithful os st" "clean orig st s" "honest orig m"
  shows "clean orig st (snd (broadcast_loop os m ex ns s))"
  using assms(2)
  by (induction ns arbitrary: s) (auto simp: split_beta send_to_neighbor_clean [OF assms(1) _ assms(3)] split: option.splits)

lemma send_broadcast_clean:
  fixes s :: "'w node_sys"
  assumes "faithful os st" "clean orig st s" "honest orig m"
  shows "clean orig st (send_broadcast os m ex s)"
  using broadcast_loop_clean [OF assms] by (simp add: send_broadcast_def split_beta)

lemma record_served_clean: "clean orig st (record_served key origin line s) = clean orig st s"
  by (simp add: record_served_def split_beta)

lemma run_success_clean: "clean orig st (run_success node_ok item s) = clean orig st s"
proof -
  have "clean orig st (node_ok c s) = clean orig st s" for c
    by (cases c) (simp_all add: record_served_clean)
  then show ?thesis
    by (simp add: run_success_def split: option.splits)
qed

lemma run_failure_clean: "clean orig st (run_failure node_err item e s) = clean orig st s"
proof -
  have "clean orig st (node_err f e s) = clean orig st s" for f
    by (cases f) simp_all
  then show ?thesis
    by (simp add: run_failure_def split: option.splits)
qed

lemma run_direct_clean:
  assumes "faithful os st" "clean orig st s" "honest orig (fi_msg item)"
  shows "clean orig st (snd (run_direct os node_ok node_err item s))"
  using send_to_clean [OF assms, of "fi_addr item"]
  by (auto simp: run_direct_def send_direct_def run_success_clean run_failure_clean split: prod.splits option.splits)

lemma enqueue_clean:
  assumes "clean orig st s" "honest orig (fi_msg item)"
  shows "clean orig st (snd (enqueue node_err item s))"
proof -
  have "clean orig st (s\<lparr>fq_items := fq_items s @ [item]\<rparr>)"
    using assms by (auto simp: clean_def)
  with assms(1) show ?thesis
    by (simp add: enqueue_def queue_push_def run_failure_clean log_state_def)
qed

lemma fq_send_clean:
  assumes "faithful os st" "clean orig st s" "honest orig m"
  shows "clean orig st (snd (fq_send_direct os node_ok node_err addr m a b s))"
    and "clean orig st (snd (fq_send_broadcast os node_err m ex s))"
  using assms by (simp_all add: fq_send_direct_def fq_send_broadcast_def Let_def split_beta log_state_def
      enqueue_clean run_direct_clean send_broadcast_clean)

lemma worker_turn_clean:
  assumes "faithful os st" "clean orig st s"
  shows "clean orig st (snd (worker_turn os node_ok node_err s))"
proof (cases "fq_items s")
  case (Cons item rest)
  then have "clean orig st (s\<lparr>fq_items := rest\<rparr>)" "honest orig (fi_msg item)"
    using assms(2) by (simp_all add: clean_def)
  with Cons show ?thesis
    by (simp add: worker_turn_def queue_pop_def log_state_def process_item_def run_direct_clean send_broadcast_clean
        assms(1) split: item_kind.splits)
qed (simp add: worker_turn_def queue_pop_def assms(2))

subsection \<open>Reading clocks and the cache\<close>

lemma clock_clean:
  assumes "faithful os st" "clean orig st s"
  shows "clean orig st (snd (read_steady os s))" "clean orig st (snd (now_millis os s))"
    "clean orig st (snd (make_request_id os s))"
  using assms(2) faithfulD(7,8) [OF assms(1)]
  by (simp_all add: read_steady_def now_millis_def make_request_id_def split_beta Let_def)

lemma cache_get_clean:
  fixes s :: "'w node_sys"
  assumes "faithful os st" "clean orig st s"
  shows "clean orig st (s\<lparr>net_world := snd (cache_get os rc key (net_world s))\<rparr>)"
    and "fst (fst (cache_get os rc key (net_world s))) = Some v \<Longrightarrow> genuine orig key v"
  using assms(2) faithfulD(1,2) [OF assms(1)] by (auto simp: clean_def)

lemma request_id_clean:
  assumes "clean orig st s"
  shows "bar_free (fst (make_request_id os s))"
proof -
  have "CHR ''|'' \<notin> set (show_nat n)" for n
    using show_nat_digits [of n] by (auto simp: list_all_iff is_digit_def)
  then show ?thesis
    using assms by (simp add: make_request_id_def clean_def bar_free_def split_beta Let_def show_u64_def)
qed

subsection \<open>Handlers\<close>

lemma request_run_world:
  assumes "faithful os st"
  shows "st (snd (snd (snd (request_run os rc m qt w)))) = st w"
    and "rd_value (fst (request_run os rc m qt w)) = Some v \<Longrightarrow> st w (m_key m) = Some v"
  using faithfulD(1,7) [OF assms]
  by (auto simp: request_defs split_beta Let_def split: option.splits if_splits dest!: faithfulD(2) [OF assms])

lemma request_run_served: "rd_state (fst (request_run os rc m qt w)) = ServeLocal \<Longrightarrow> rd_value (fst (request_run os rc m qt w)) \<noteq> None"
  by (auto simp: request_defs split_beta Let_def split: option.splits if_splits)

lemma pipeline_clean:
  assumes "faithful os st" "clean orig st s"
  shows "clean orig st (snd (run_request_pipeline os msg s))"
    and "rd_value (fst (run_request_pipeline os msg s)) = Some v \<Longrightarrow> genuine orig (m_key msg) v"
    and "rd_state (fst (run_request_pipeline os msg s)) = ServeLocal \<Longrightarrow>
      st (net_world (snd (run_request_pipeline os msg s))) (m_key msg) \<noteq> None"
proof -
  show "clean orig st (snd (run_request_pipeline os msg s))"
    using assms(2) request_run_world(1) [OF assms(1)]
    by (simp add: run_request_pipeline_def split_beta Let_def split: option.splits)
  show "genuine orig (m_key msg) v" if "rd_value (fst (run_request_pipeline os msg s)) = Some v"
    using that assms(2) request_run_world(2) [OF assms(1)]
    by (auto simp: run_request_pipeline_def split_beta Let_def clean_def)
  show "st (net_world (snd (run_request_pipeline os msg s))) (m_key msg) \<noteq> None"
    if served: "rd_state (fst (run_request_pipeline os msg s)) = ServeLocal"
  proof -
    let ?r = "request_run os (nd_redis s) msg (nd_query s) (net_world s)"
    have "fst (run_request_pipeline os msg s) = fst ?r" "st (net_world (snd (run_request_pipeline os msg s))) = st (net_world s)"
      using request_run_world(1) [OF assms(1)]
      by (simp_all add: run_request_pipeline_def split_beta Let_def split: option.splits)
    moreover obtain v where "rd_value (fst ?r) = Some v"
      using request_run_served served calculation(1) by fastforce
    ultimately show ?thesis
      using request_run_world(2) [OF assms(1)] by fastforce
  qed
qed

lemma pipeline_served:
  "rd_state (fst (run_request_pipeline os msg s)) = ServeLocal \<Longrightarrow> rd_value (fst (run_request_pipeline os msg s)) \<noteq> None"
  using request_run_served [of os "nd_redis s" msg "nd_query s" "net_world s"]
  by (simp add: run_request_pipeline_def split_beta Let_def split: option.splits)

lemma handle_request_clean:
  assumes "faithful os st" "clean orig st s" "m_type msg = Request" "wire_ok msg"
  shows "clean orig st (handle_request os msg src s)"
proof -
  let ?p = "run_request_pipeline os msg s"
  have p: "clean orig st (snd ?p)"
    by (rule pipeline_clean(1) [OF assms(1,2)])
  have msg: "bar_free (m_request_id msg)" "bar_free (m_origin msg)" "bar_free (m_key msg)"
    using assms(4) by (simp_all add: wire_ok_def header_ok_def)
  have "genuine orig (m_key msg) (case rd_value (fst ?p) of None \<Rightarrow> [] | Some v \<Rightarrow> v)" if "rd_state (fst ?p) = ServeLocal"
    using pipeline_clean(2) [OF assms(1,2)] pipeline_served [OF that] by (auto split: option.splits)
  then have "rd_state (fst ?p) = ServeLocal \<Longrightarrow> clean orig st (serve_request os msg src (rd_value (fst ?p)) (snd ?p))"
    using p msg pipeline_clean(3) [OF assms(1,2)] unfolding serve_request_def Let_def
    by (intro fq_send_clean(1) [OF assms(1)]) (simp_all add: honest_def)
  moreover have "clean orig st (forward_request os msg src ttl (snd ?p))" for ttl
    using p assms(3) unfolding forward_request_def Let_def
    by (intro fq_send_clean(2) [OF assms(1)]) (simp_all add: honest_def)
  ultimately show ?thesis
    using p by (cases "rd_state (fst ?p)") (simp_all add: handle_request_def split_beta Let_def)
qed

lemma handle_data_clean:
  assumes "faithful os st" "clean orig st s" "m_type msg = Data" "honest orig msg"
  shows "clean orig st (handle_data os msg src s)"
proof -
  let ?w = "snd (cache_set os (nd_redis s) (m_key msg) (m_value msg) (net_world s))"
  have msg: "bar_free (m_key msg)" "genuine orig (m_key msg) (m_value msg)"
    using assms(3,4) by (simp_all add: honest_def)
  have "clean orig st (s\<lparr>net_world := ?w\<rparr>)"
    using assms(2) msg faithfulD(3) [OF assms(1), of "nd_redis s" "m_key msg" "m_value msg" "net_world s"]
    by (auto simp: clean_def list_all_iff split: if_splits)
  moreover have "st ?w (m_key msg) \<noteq> None" if "fst (cache_set os (nd_redis s) (m_key msg) (m_value msg) (net_world s)) = None"
    using faithfulD(4) [OF assms(1) that] by simp
  ultimately show ?thesis
    using msg assms(2)
    by (auto simp: handle_data_def Let_def split: data_state.splits prod.splits option.splits)
qed

lemma handle_content_bloom_clean:
  assumes "faithful os st" "clean orig st s"
  shows "clean orig st (handle_content_bloom os msg src s)"
  using assms(2) clock_clean(1) [OF assms]
  by (simp add: handle_content_bloom_def Let_def split_beta split: option.splits)

lemma qbf_accept_clean:
  assumes "faithful os st" "clean orig st s"
  shows "clean orig st (snd (qbf_accept os msg src s))"
  using assms(2) clock_clean(2) [OF assms]
  by (simp add: qbf_accept_def Let_def split_beta split: option.splits)

lemma qbf_serve_key_clean:
  assumes "faithful os st" "clean orig st s" "bar_free key" "bar_free (m_origin msg)"
  shows "clean orig st (qbf_serve_key os msg src age f key s)"
proof -
  let ?g = "cache_get os (nd_redis s) key (net_world s)"
  let ?s1 = "s\<lparr>net_world := snd ?g\<rparr>"
  let ?s2 = "case snd (fst ?g) of None \<Rightarrow> ?s1 | Some e \<Rightarrow> log_warn (''redis get error: '' @ e) ?s1"
  have s2: "clean orig st ?s2"
    using cache_get_clean(1) [OF assms(1,2), of "nd_redis s" key] by (simp split: option.splits)
  have reply: "clean orig st (snd (fq_send_direct os node_ok node_err src
      (empty_message\<lparr>m_type := Data, m_request_id := fst (make_request_id os ?s2), m_origin := m_origin msg,
         m_ttl := ttl, m_key := key, m_value := v\<rparr>) a b (snd (make_request_id os ?s2))))"
    if "fst (fst ?g) = Some v" for v ttl a b
    using cache_get_clean(2) [OF assms(1,2) that] request_id_clean [OF s2] clock_clean(3) [OF assms(1) s2] assms(3,4)
    by (intro fq_send_clean(1) [OF assms(1)]) (simp_all add: honest_def)
  show ?thesis
    using assms(2) s2 reply by (simp add: qbf_serve_key_def Let_def split_beta split: option.split)
qed

lemma qbf_serve_all_clean:
  assumes "faithful os st" "clean orig st s" "list_all bar_free ks" "bar_free (m_origin msg)"
  shows "clean orig st (fold (qbf_serve_key os msg src age f) ks s)"
  using assms(2,3) by (induction ks arbitrary: s) (simp_all add: qbf_serve_key_clean [OF assms(1) _ _ assms(4)])

lemma qbf_forward_clean:
  assumes "faithful os st" "clean orig st s" "m_type msg = QueryBloom"
  shows "clean orig st (qbf_forward os msg src age f s)"
proof -
  have "clean orig st (snd (fq_send_broadcast os node_err (msg\<lparr>m_ttl := ttl\<rparr>) ex t))" if "clean orig st t" for ttl ex t
    using that assms(3) by (intro fq_send_clean(2) [OF assms(1)]) (simp_all add: honest_def)
  then show ?thesis
    using assms(2) clock_clean(1) [OF assms(1,2)] by (simp add: qbf_forward_def Let_def split_beta)
qed

lemma handle_query_bloom_clean:
  assumes "faithful os st" "clean orig st s" "m_type msg = QueryBloom" "wire_ok msg"
  shows "clean orig st (handle_query_bloom os msg src s)"
proof -
  have a: "clean orig st (snd (qbf_accept os msg src s))"
    by (rule qbf_accept_clean [OF assms(1,2)])
  moreover have "list_all bar_free (nd_local_keys (snd (qbf_accept os msg src s)))" "bar_free (m_origin msg)"
    using a assms(4) by (auto simp: clean_def wire_ok_def header_ok_def list_all_iff)
  ultimately show ?thesis
    by (auto simp: handle_query_bloom_def split_beta qbf_serve_all_clean [OF assms(1)] qbf_forward_clean [OF assms(1) _ assms(3)]
        split: sum.splits)
qed

lemma arrives_clean:
  assumes "faithful os st" "clean orig st s" "honest_wire orig wire"
  shows "clean orig st (arrives os wire src s)"
proof (cases "from_wire (take recv_limit wire)")
  case None
  with assms(2) show ?thesis
    by (simp add: arrives_def receive_round_def handle_wire_message_def)
next
  case (Some msg)
  note msg = from_wire_wire_ok [OF Some] honest_read [OF assms(3) Some]
  show ?thesis
    unfolding arrives_message [OF Some] handle_wire_message_def Some
    using assms(2) msg by (cases "m_type msg") (simp_all add: handle_request_clean [OF assms(1)] handle_data_clean [OF assms(1)]
      handle_content_bloom_clean [OF assms(1)] handle_query_bloom_clean [OF assms(1)])
qed

subsection \<open>The background threads and the node's own requests\<close>

lemma wall_nth_world: "faithful os st \<Longrightarrow> st (snd (wall_nth os n w)) = st w"
  by (induction n arbitrary: w) (simp_all add: faithfulD(8))

lemma aggregate_key_clean:
  assumes "faithful os st" "clean orig st s"
  shows "clean orig st (aggregate_key os org key s)"
  using clock_clean(1) [OF assms] wall_nth_world [OF assms(1)]
  by (simp add: aggregate_key_def node_add_key_def split_beta Let_def)

lemma fallback_round_clean:
  assumes "faithful os st" "clean orig st s"
  shows "clean orig st (fallback_round os s)"
proof -
  have "clean orig st (fold (fallback_key os) due t)" if "clean orig st t" for due t
    using that by (induction due arbitrary: t) (simp_all add: fallback_key_def split_beta aggregate_key_clean [OF assms(1)])
  then show ?thesis
    using clock_clean(1) [OF assms] by (simp add: fallback_round_def Let_def split_beta)
qed

lemma content_exchange_round_clean:
  assumes "faithful os st" "clean orig st s"
  shows "clean orig st (content_exchange_round os s)"
  unfolding content_exchange_round_def Let_def
  by (intro fq_send_clean(2) [OF assms(1)]) (simp_all add: assms(2) honest_def)

lemma flush_round_clean:
  assumes "faithful os st" "clean orig st s"
  shows "clean orig st (flush_round os s)"
proof -
  have "clean orig st (send_batch os now_ms b t)" if "clean orig st t" for now_ms b t
    unfolding send_batch_def Let_def
    by (intro fq_send_clean(2) [OF assms(1)]) (simp_all add: that honest_def batch_message_def)
  then have "clean orig st (fold (send_batch os now_ms) bs t)" if "clean orig st t" for now_ms bs t
    using that by (induction bs arbitrary: t) simp_all
  moreover have "clean orig st (snd (node_flush_due os s))"
    using clock_clean(1) [OF assms] wall_nth_world [OF assms(1)]
    by (simp add: node_flush_due_def Let_def split_beta)
  ultimately show ?thesis
    using clock_clean(2) [OF assms(1)] by (simp add: flush_round_def split_beta)
qed

lemma reload_round_clean: "clean orig st s \<Longrightarrow> clean orig st (reload_round os s)"
proof -
  have "clean orig st (fold log_warn ws t) = clean orig st t" for ws t
    by (induction ws arbitrary: t) simp_all
  then show "clean orig st s \<Longrightarrow> clean orig st (reload_round os s)"
    by (simp add: reload_round_def Let_def set_topology_def)
qed

lemma request_key_clean:
  assumes "faithful os st" "clean orig st s" "bar_free key"
  shows "clean orig st (request_key os key s)"
proof -
  let ?g = "cache_get os (nd_redis s) key (net_world s)"
  let ?s1 = "s\<lparr>net_world := snd ?g\<rparr>"
  let ?s2 = "case snd (fst ?g) of None \<Rightarrow> ?s1 | Some e \<Rightarrow> log_warn (''redis get error: '' @ e) ?s1"
  have s2: "clean orig st ?s2"
    using cache_get_clean(1) [OF assms(1,2), of "nd_redis s" key] by (simp split: option.splits)
  have o: "clean orig st (snd (snd (originate os key t))) \<and> m_type (fst (originate os key t)) = Request" if "clean orig st t" for t
    using clock_clean [OF assms(1)] that by (simp add: originate_def split_beta Let_def)
  have direct: "clean orig st (request_direct os req a t)" if "clean orig st t" "m_type req = Request" for req a t
    using clock_clean(1) [OF assms(1) fq_send_clean(1) [OF assms(1)]] that
    by (simp add: request_direct_def split_beta Let_def honest_def)
  have held: "st (net_world ?s2) key = st (snd ?g) key"
    by (simp split: option.splits)
  show ?thesis
  proof (cases "fst (fst ?g)")
    case None
    then show ?thesis
      using o [OF s2] direct
      by (simp add: request_key_def split_beta Let_def request_aggregated_def aggregate_key_clean [OF assms(1)] split: option.split)
  next
    case (Some v)
    have "st (net_world ?s2) key \<noteq> None"
      using faithfulD(1,2) [OF assms(1)] Some unfolding held by fastforce
    then have "clean orig st (snd (make_request_id os (record_local_key key ?s2)))"
      using s2 assms(3) by (intro clock_clean(3) [OF assms(1)]) simp
    then show ?thesis
      using Some by (simp add: request_key_def split_beta Let_def)
  qed
qed

lemma own_round_clean:
  assumes "faithful os st" "clean orig st s" "own_round os s t"
  shows "clean orig st t"
  using assms(3)
proof cases
  case (request key)
  then have "bar_free key"
    using assms(2) by (simp add: clean_def list_all_iff)
  then show ?thesis
    unfolding request(1) by (rule request_key_clean [OF assms(1,2)])
qed (simp_all add: assms(2) content_exchange_round_clean [OF assms(1)] fallback_round_clean [OF assms(1)]
    flush_round_clean [OF assms(1)] reload_round_clean)

lemma clean_site_property:
  fixes os :: "'w host_os"
  shows "faithful os st \<Longrightarrow> site_property os (clean orig st) (honest_wire orig)"
proof
  fix s :: "'w node_sys" and d
  show "clean orig st s \<Longrightarrow> d \<in> set (net_sent s) \<Longrightarrow> honest_wire orig (snd d)"
    by (simp add: clean_def)
qed (simp_all add: arrives_clean worker_turn_clean own_round_clean)

subsection \<open>The network\<close>

text \<open>A network at its start: nothing is under way, nothing was sent, no node has an id, a wanted key or
  a local key with a bar in it, and every node holds its local keys (those that it was seeded with).\<close>

definition fresh_network :: "('w \<Rightarrow> string \<Rightarrow> string option) \<Rightarrow> 'w network \<Rightarrow> bool" where
  "fresh_network st nw \<longleftrightarrow> nw_flight nw = {#} \<and> (\<forall>x \<in> set (nw_sites nw). let s = site_node x in
     fq_items s = [] \<and> net_sent s = [] \<and> bar_free (node_id (nd_config s)) \<and> list_all bar_free (request_keys (nd_config s))
     \<and> list_all (\<lambda>k. bar_free k \<and> st (net_world s) k \<noteq> None) (nd_local_keys s))"

definition held_in :: "('w \<Rightarrow> string \<Rightarrow> string option) \<Rightarrow> 'w network \<Rightarrow> string \<Rightarrow> string \<Rightarrow> bool" where
  "held_in st nw k v \<longleftrightarrow> (\<exists>x \<in> set (nw_sites nw). st (net_world (site_node x)) k = Some v)"

lemma fresh_network_run:
  assumes "faithful os st" "fresh_network st nw0" "(net_step os)\<^sup>*\<^sup>* nw0 nw" "x \<in> set (nw_sites nw)"
  shows "clean (held_in st nw0) st (site_node x)"
proof -
  note site = clean_site_property [OF assms(1), of "held_in st nw0"]
  have "clean (held_in st nw0) st (site_node y)" if "y \<in> set (nw_sites nw0)" for y
    using assms(2) that by (fastforce simp: fresh_network_def clean_def genuine_def held_in_def Let_def)
  moreover have "nw_flight nw0 = {#}"
    using assms(2) by (simp add: fresh_network_def)
  ultimately have "site_property.everywhere (clean (held_in st nw0) st) (honest_wire (held_in st nw0)) nw0"
    using site_property.everywhere_def [OF site] by simp
  then have "site_property.everywhere (clean (held_in st nw0) st) (honest_wire (held_in st nw0)) nw"
    by (rule site_property.steps_everywhere [OF site assms(3)])
  then show ?thesis
    using assms(4) site_property.everywhere_def [OF site] by blast
qed


text \<open>C9. Nodes advertise what they have. In every state of such a network each node holds a value for each of its local keys, the keys
  that its summaries are made of and that it answers Query-BFs from.\<close>

theorem local_keys_held:
  assumes "faithful os st" "fresh_network st nw0" "(net_step os)\<^sup>*\<^sup>* nw0 nw" "x \<in> set (nw_sites nw)"
    and "k \<in> set (nd_local_keys (site_node x))"
  shows "\<exists>v. st (net_world (site_node x)) k = Some v"
  using fresh_network_run [OF assms(1-4)] assms(5) by (auto simp: clean_def list_all_iff)

subsection \<open>A network with caches\<close>

lemma store_faithful: "faithful store_host stored"
proof -
  have "snd (os_sendto store_host a p w) = w" "snd (os_getaddrinfo store_host h q w) = w" "snd (os_steady store_host w) = w"
    "snd (os_wall_ms store_host w) = w" for a p h q w
    by (simp_all add: store_host_def)
  then show ?thesis
    using store_get store_set by (simp add: faithful_def)
qed

text \<open>Two nodes that are each other's neighbour; the first holds a value under \<open>k\<close>, the second wants \<open>k\<close>.\<close>

definition store_site :: "nat \<Rightarrow> string \<Rightarrow> string list \<Rightarrow> (string \<times> string) list \<Rightarrow> nat \<Rightarrow> server site" where
  "store_site n name wants seeds peer = \<lparr>site_addr = demo_addr (of_nat n), site_node =
     fold record_local_key (map fst seeds)
       ((node_new (demo_config\<lparr>node_id := name, request_keys := wants\<rparr>) Info (map_of seeds, []))
         \<lparr>net_transport := \<lparr>tp_bind_ip = ''0.0.0.0'', tp_bind_port = 9000, tp_open = True, tp_running = True\<rparr>,
          net_topology := [\<lparr>na_host = ''a'', na_port = 9000, na_addr = demo_addr (of_nat peer)\<rparr>],
          nd_redis := \<lparr>rc_path = ''/r'', rc_connected = True\<rparr>\<rparr>)\<rparr>"

definition store_network :: "server network" where
  "store_network = \<lparr>nw_sites = [store_site 7 ''a'' [] [(''k'', ''v'')] 8, store_site 8 ''b'' [''k''] [] 7], nw_flight = {#}\<rparr>"

lemma store_network_fresh: "fresh_network stored store_network"
  by (simp add: fresh_network_def store_network_def store_site_def node_new_def record_local_key_def stored_def
    demo_config_def config_of_def bar_free_def Let_def)


text \<open>The second node asks for the key.\<close>

definition asked_network :: "server network" where
  "asked_network = site_step 1 (request_key store_host ''k'' (node_at store_network 1)) store_network"

lemma asked_network_step: "net_step store_host store_network asked_network"
proof -
  have "own_round store_host (node_at store_network 1) (request_key store_host ''k'' (node_at store_network 1))"
    by (rule own_round.request) (simp add: store_network_def store_site_def node_new_def)
  then show ?thesis
    unfolding asked_network_def by (intro net_step.own) (simp_all add: store_network_def)
qed

lemma asked_network_first: "nw_sites asked_network ! 0 = store_site 7 ''a'' [] [(''k'', ''v'')] 8"
  "store_site 7 ''a'' [] [(''k'', ''v'')] 8 \<in> set (nw_sites asked_network)"
  by (simp_all add: asked_network_def site_step_def store_network_def)


theorem local_keys_held_witness:
  "''k'' \<in> set (nd_local_keys (node_at asked_network 0)) \<and> (\<exists>v. stored (net_world (node_at asked_network 0)) ''k'' = Some v)"
proof -
  have "''k'' \<in> set (nd_local_keys (node_at asked_network 0))"
    unfolding asked_network_first(1) by (simp add: store_site_def node_new_def record_local_key_def)
  moreover have "nw_sites asked_network ! 0 \<in> set (nw_sites asked_network)"
    using asked_network_first by simp
  ultimately show ?thesis
    using local_keys_held [OF store_faithful store_network_fresh
        r_into_rtranclp [of "net_step store_host", OF asked_network_step]] by blast
qed

end
