(* ===== verification/Node_Frame.thy ===== *)
theory Node_Frame
  imports Node_Tasks
begin

text \<open>
  What the rounds of a node leave alone. A property of its world, its fallbacks, its running flag and its configuration
  is kept by every round, when the calls to the host and the three operations on the fallbacks keep it. The
  interface is a locale; its lemmas follow the operations of \<^verbatim>\<open>Node_State\<close>, \<^verbatim>\<open>Node_Handlers\<close> and \<^verbatim>\<open>Node_Tasks\<close>.
\<close>

locale node_frame =
  fixes os :: "'w host_os" and R :: "'w \<Rightarrow> fallback \<Rightarrow> bool \<Rightarrow> config \<Rightarrow> bool"
  assumes get [simp]: "R w fb r c \<Longrightarrow> R (snd (cache_get os rc key w)) fb r c"
    and set [simp]: "R w fb r c \<Longrightarrow> R (snd (cache_set os rc key v w)) fb r c"
    and send [simp]: "R w fb r c \<Longrightarrow> R (snd (os_sendto os a p w)) fb r c"
    and resolve [simp]: "R w fb r c \<Longrightarrow> R (snd (os_getaddrinfo os h q w)) fb r c"
    and wall [simp]: "R w fb r c \<Longrightarrow> R (snd (os_wall_ms os w)) fb r c"
    and steady [simp]: "R w fb r c \<Longrightarrow> R (snd (os_steady os w)) fb r c"
    and cancelled [simp]: "R w fb r c \<Longrightarrow> R w (snd (cancel key org fb)) r c"
    and taken: "R w fb r c \<Longrightarrow> R (snd (os_steady os w)) (snd (take_due (fst (os_steady os w)) fb)) r c"
    and scheduled: "R w fb r c \<Longrightarrow> R (snd (os_steady os w)) (snd (schedule (fst (os_steady os w)) key org fb)) r c"
begin

definition holds :: "'w node_sys \<Rightarrow> bool" where
  "holds s \<longleftrightarrow> R (net_world s) (nd_fallback s) (sys_running s) (nd_config s)"

lemma holds_same [simp]:
  "holds (s\<lparr>nd_query := a\<rparr>) = holds s" "holds (s\<lparr>nd_sync := b\<rparr>) = holds s" "holds (s\<lparr>nd_content := c\<rparr>) = holds s"
  "holds (s\<lparr>nd_agg := e\<rparr>) = holds s" "holds (s\<lparr>nd_limiter := f\<rparr>) = holds s" "holds (s\<lparr>nd_counter := g\<rparr>) = holds s"
  "holds (s\<lparr>net_topology := tp\<rparr>) = holds s" "holds (s\<lparr>net_sent := d\<rparr>) = holds s" "holds (s\<lparr>fq_items := q\<rparr>) = holds s"
  "holds (record_local_key k s) = holds s" "holds (log_line lv m s) = holds s"
  by (simp_all add: holds_def record_local_key_def)

text \<open>The property of a world, with the rest of a state.\<close>

abbreviation holds_at :: "'w node_sys \<Rightarrow> 'w \<Rightarrow> bool" where
  "holds_at s w \<equiv> R w (nd_fallback s) (sys_running s) (nd_config s)"

lemma holds_world [simp]: "holds (s\<lparr>net_world := w\<rparr>) = holds_at s w"
  by (simp add: holds_def)

lemma holdsD: "holds s \<Longrightarrow> holds_at s (net_world s)"
  by (simp add: holds_def)

subsection \<open>Sending and the workers\<close>

lemma send_to_holds:
  assumes "holds s"
  shows "holds (snd (send_to os a p s))"
  using assms by (simp add: send_to_def split_beta holds_def split: option.splits)

lemma send_to_neighbor_holds:
  assumes "holds s"
  shows "holds (snd (send_to_neighbor os m n s))"
proof -
  have "holds (s\<lparr>net_world := snd (resolve_in os (na_host n) (na_port n) (net_world s))\<rparr>)"
    using holdsD [OF assms] by (simp add: resolve_in_def)
  then show ?thesis
    using assms send_to_holds by (simp add: send_to_neighbor_def split_beta split: option.splits sum.splits)
qed

lemma send_broadcast_holds:
  assumes "holds s"
  shows "holds (send_broadcast os m ex s)"
proof -
  have "holds t \<Longrightarrow> holds (snd (broadcast_loop os m ex ns t))" for ns t
    by (induction ns arbitrary: t) (auto simp: split_beta send_to_neighbor_holds split: option.splits)
  then show ?thesis
    using assms by (simp add: send_broadcast_def split_beta)
qed

lemma callback_holds:
  "holds (run_success node_ok item s) = holds s" "holds (run_failure node_err item e s) = holds s"
proof -
  have "holds (node_ok c s) = holds s" "holds (node_err f e s) = holds s" for c f
    by (cases c; simp add: record_served_def split_beta) (cases f; simp)
  then show "holds (run_success node_ok item s) = holds s" "holds (run_failure node_err item e s) = holds s"
    by (simp_all add: run_success_def run_failure_def split: option.splits)
qed

lemma run_direct_holds: "holds s \<Longrightarrow> holds (snd (run_direct os node_ok node_err item s))"
  using send_to_holds [of s "fi_addr item" "to_wire (fi_msg item)"]
  by (auto simp: run_direct_def send_direct_def callback_holds split: prod.splits option.splits)

lemma fq_send_holds [simp]:
  assumes "holds s"
  shows "holds (snd (fq_send_direct os node_ok node_err addr m a b s))"
    and "holds (snd (fq_send_broadcast os node_err m ex s))"
  using assms by (simp_all add: fq_send_direct_def fq_send_broadcast_def Let_def split_beta log_state_def enqueue_def
      queue_push_def callback_holds run_direct_holds send_broadcast_holds)

lemma worker_turn_holds: "holds s \<Longrightarrow> holds (snd (worker_turn os node_ok node_err s))"
  by (simp add: worker_turn_def queue_pop_def log_state_def process_item_def run_direct_holds send_broadcast_holds
      split: list.splits item_kind.splits)

subsection \<open>Handlers\<close>

lemma clock_holds [simp]:
  assumes "holds s"
  shows "holds (snd (read_steady os s))" "holds (snd (now_millis os s))" "holds (snd (make_request_id os s))"
  using holdsD [OF assms] by (simp_all add: read_steady_def now_millis_def make_request_id_def split_beta Let_def)

lemma pipeline_holds: "holds s \<Longrightarrow> holds (snd (run_request_pipeline os msg s))"
proof -
  have "R w fb r c \<Longrightarrow> R (snd (snd (snd (request_run os rc m qt w)))) fb r c" for w fb r c rc m qt
    by (auto simp: request_defs split_beta Let_def split: option.splits)
  then show "holds s \<Longrightarrow> holds (snd (run_request_pipeline os msg s))"
    by (simp add: holds_def run_request_pipeline_def split_beta Let_def split: option.splits)
qed

lemma handle_request_holds: "holds s \<Longrightarrow> holds (handle_request os msg src s)"
  using pipeline_holds [of s msg]
  by (cases "rd_state (fst (run_request_pipeline os msg s))")
    (simp_all add: handle_request_def split_beta Let_def serve_request_def forward_request_def)

lemma handle_data_holds:
  assumes "holds s"
  shows "holds (handle_data os msg src s)"
proof -
  let ?s = "s\<lparr>net_world := snd (cache_set os (nd_redis s) (m_key msg) (m_value msg) (net_world s))\<rparr>"
  have "holds ?s" "holds (?s\<lparr>nd_fallback := snd (cancel (m_key msg) (m_origin msg) (nd_fallback s))\<rparr>)"
    using holdsD [OF assms] by (simp_all add: holds_def)
  with assms show ?thesis
    by (auto simp: handle_data_def Let_def split: data_state.splits prod.splits option.splits)
qed

lemma handle_content_bloom_holds: "holds s \<Longrightarrow> holds (handle_content_bloom os msg src s)"
  by (simp add: handle_content_bloom_def Let_def split_beta split: option.splits)

lemma qbf_accept_holds: "holds s \<Longrightarrow> holds (snd (qbf_accept os msg src s))"
  by (simp add: qbf_accept_def Let_def split_beta split: option.splits)

lemma qbf_serve_key_holds: "holds s \<Longrightarrow> holds (qbf_serve_key os msg src age f key s)"
  using holdsD [of s] by (simp add: qbf_serve_key_def Let_def split_beta split: option.splits)

lemma qbf_forward_holds: "holds s \<Longrightarrow> holds (qbf_forward os msg src age f s)"
  by (simp add: qbf_forward_def Let_def split_beta)

lemma handle_query_bloom_holds:
  assumes "holds s"
  shows "holds (handle_query_bloom os msg src s)"
proof -
  have "holds t \<Longrightarrow> holds (fold (qbf_serve_key os msg src age f) ks t)" for age f ks t
    by (induction ks arbitrary: t) (simp_all add: qbf_serve_key_holds)
  with qbf_accept_holds [OF assms] show ?thesis
    by (auto simp: handle_query_bloom_def split_beta qbf_forward_holds split: sum.splits)
qed

lemma receive_round_holds: "holds s \<Longrightarrow> holds (receive_round (handle_wire_message os) r s)"
  by (simp add: receive_round_def handle_wire_message_def handle_request_holds handle_data_holds
      handle_content_bloom_holds handle_query_bloom_holds split: option.splits message_type.splits)

subsection \<open>The background rounds and the node's own requests\<close>

lemma wall_nth_holds: "R w fb r c \<Longrightarrow> R (snd (wall_nth os n w)) fb r c"
  by (induction n arbitrary: w) simp_all

lemma aggregate_key_holds [simp]: "holds s \<Longrightarrow> holds (aggregate_key os org key s)"
  by (simp add: aggregate_key_def node_add_key_def read_steady_def split_beta Let_def wall_nth_holds holds_def)

lemma fallback_keys_holds: "holds s \<Longrightarrow> holds (fold (fallback_key os) due s)"
  by (induction due arbitrary: s) (simp_all add: fallback_key_def split_beta)

lemma fallback_round_holds:
  assumes "holds s"
  shows "holds (fallback_round os s)"
proof -
  have "holds ((snd (read_steady os s))\<lparr>nd_fallback := snd (take_due (fst (read_steady os s)) (nd_fallback s))\<rparr>)"
    using taken [OF holdsD [OF assms]] by (simp add: holds_def read_steady_def split_beta)
  then show ?thesis
    by (simp add: fallback_round_def Let_def split_beta fallback_keys_holds) (simp add: read_steady_def split_beta fallback_keys_holds)
qed

lemma flush_round_holds:
  assumes "holds s"
  shows "holds (flush_round os s)"
proof -
  have "holds t \<Longrightarrow> holds (fold (send_batch os now_ms) bs t)" for now_ms bs t
    by (induction bs arbitrary: t) (simp_all add: send_batch_def Let_def)
  moreover have "holds (snd (node_flush_due os s))"
    using holdsD [OF assms] by (simp add: node_flush_due_def read_steady_def split_beta Let_def wall_nth_holds holds_def)
  ultimately show ?thesis
    by (simp add: flush_round_def split_beta)
qed

lemma content_exchange_round_holds: "holds s \<Longrightarrow> holds (content_exchange_round os s)"
  by (simp add: content_exchange_round_def Let_def)

lemma reload_round_holds: "holds s \<Longrightarrow> holds (reload_round os s)"
proof -
  have "holds (fold log_warn ws t) = holds t" for ws t
    by (induction ws arbitrary: t) simp_all
  then show "holds s \<Longrightarrow> holds (reload_round os s)"
    by (simp add: reload_round_def Let_def set_topology_def)
qed

lemma request_direct_holds:
  assumes "holds s"
  shows "holds (request_direct os req a s)"
proof -
  let ?t = "\<lambda>e l. snd (fq_send_direct os node_ok node_err a req None e (log_info l s))"
  have "holds (?t e l)" for e l
    using assms by simp
  from scheduled [OF holdsD [OF this]] show ?thesis
    by (simp add: request_direct_def read_steady_def split_beta Let_def holds_def)
qed

lemma request_key_holds:
  assumes "holds s"
  shows "holds (request_key os key s)"
proof -
  have "holds (case e of None \<Rightarrow> s\<lparr>net_world := snd (cache_get os (nd_redis s) key (net_world s))\<rparr>
      | Some e \<Rightarrow> log_warn (''redis get error: '' @ e) (s\<lparr>net_world := snd (cache_get os (nd_redis s) key (net_world s))\<rparr>))" for e
    using holdsD [OF assms] by (simp split: option.splits)
  moreover have "holds t \<Longrightarrow> holds (snd (snd (originate os key t)))" for t
    by (simp add: originate_def split_beta Let_def)
  ultimately show ?thesis
    by (simp add: request_key_def split_beta Let_def request_aggregated_def request_direct_holds split: option.split)
qed

end

text \<open>Two frames that every host gives: no round starts a node that was stopped, and none changes its configuration.\<close>

interpretation stopped: node_frame os "\<lambda>w fb r c. \<not> r" for os
  by unfold_locales

interpretation configured: node_frame os "\<lambda>w fb r c. c = c0" for os c0
  by unfold_locales

end
