(* ===== verification/Node_Threads.thy ===== *)
theory Node_Threads
  imports Node_Frame Node_Invariant "HOL-Library.Signed_Division"
begin

text \<open>
  The background threads of \<^verbatim>\<open>node/node.cpp\<close> in time: which ones are started, how long each sleeps between its
  rounds, and what follows for a node whose threads wake up in time. The time is the reading of the steady clock,
  a function of the node's world; it passes while the node works and while it waits.
\<close>

subsection \<open>The threads and their sleep\<close>

datatype task = ExchangeTask | FallbackTask | FlushTask | ReloadTask

definition fallback_poll_ms :: "config \<Rightarrow> int" where
  "fallback_poll_ms c = (let interval_ms = content_bf_fallback_ms c sdiv 2 in if interval_ms < 25 then 25 else interval_ms)"

definition flush_poll_ms :: "config \<Rightarrow> int" where
  "flush_poll_ms c = (let interval_ms = query_bf_aggregation_ms c sdiv 2 in if interval_ms < 50 then 50 else interval_ms)"

definition task_interval :: "config \<Rightarrow> task \<Rightarrow> int" where
  "task_interval c k = (case k of ExchangeTask \<Rightarrow> content_bf_exchange_ms c | FallbackTask \<Rightarrow> fallback_poll_ms c
     | FlushTask \<Rightarrow> flush_poll_ms c | ReloadTask \<Rightarrow> topology_reload_ms c)"

definition task_round :: "'w host_os \<Rightarrow> task \<Rightarrow> 'w node_sys \<Rightarrow> 'w node_sys" where
  "task_round os k s = (case k of ExchangeTask \<Rightarrow> content_exchange_round os s | FallbackTask \<Rightarrow> fallback_round os s
     | FlushTask \<Rightarrow> flush_round os s | ReloadTask \<Rightarrow> reload_round os s)"

context node_frame
begin

lemma task_round_holds: "holds s \<Longrightarrow> holds (task_round os k s)"
  by (cases k) (simp_all add: task_round_def content_exchange_round_holds fallback_round_holds flush_round_holds reload_round_holds)

end

text \<open>A thread: what it does, how long it sleeps (computed once, when it starts), when its last round began (or it was
  started), when it wakes up, and whether it has ended.\<close>

record thread_state =
  th_task :: task
  th_interval :: int
  th_last :: time_ns
  th_wake :: time_ns
  th_over :: bool

text \<open>The first three threads begin with a round, the reload begins with its sleep.\<close>

definition start_thread :: "config \<Rightarrow> time_ns \<Rightarrow> task \<Rightarrow> thread_state" where
  "start_thread c now k = \<lparr>th_task = k, th_interval = task_interval c k, th_last = now,
     th_wake = (if k = ReloadTask then now + ms_ns (task_interval c k) else now), th_over = False\<rparr>"

definition start_background_tasks :: "config \<Rightarrow> time_ns \<Rightarrow> thread_state list" where
  "start_background_tasks c now = map (start_thread c now)
     ([ExchangeTask, FallbackTask, FlushTask] @ (if topology_reload_ms c \<le> 0 then [] else [ReloadTask]))"

text \<open>A thread that is awake: it ends when the node was stopped; else it does one round and goes to sleep. \<open>time\<close> reads the
  steady clock out of the world.\<close>

definition thread_turn :: "'w host_os \<Rightarrow> ('w \<Rightarrow> time_ns) \<Rightarrow> thread_state \<Rightarrow> 'w node_sys \<Rightarrow> thread_state \<times> 'w node_sys" where
  "thread_turn os time th s =
     (if \<not> sys_running s then (th\<lparr>th_over := True\<rparr>, s)
      else let t = task_round os (th_task th) s
           in (th\<lparr>th_last := time (net_world s), th_wake := time (net_world t) + ms_ns (th_interval th)\<rparr>, t))"

subsection \<open>Runs in time\<close>

text \<open>The node, its threads, the rounds they have begun so far, and for each thread when the scheduler last gave it a turn (or
  when it was started). The last two are only there to speak about a run; the node does not read them.\<close>

record 'w timed =
  td_node :: "'w node_sys"
  td_threads :: "thread_state list"
  td_rounds :: "(task \<times> time_ns) list"
  td_turns :: "time_ns list"

abbreviation td_now :: "('w \<Rightarrow> time_ns) \<Rightarrow> 'w timed \<Rightarrow> time_ns" where
  "td_now time x \<equiv> time (net_world (td_node x))"

text \<open>A thread that may wake up takes its turn, the rest of the node does something (a datagram arrives, a worker takes an
  item, the node asks for a key, it is stopped), or time passes.\<close>

inductive timed_step :: "'w host_os \<Rightarrow> ('w \<Rightarrow> time_ns) \<Rightarrow> 'w timed \<Rightarrow> 'w timed \<Rightarrow> bool" for os time where
  turn: "i < length (td_threads x) \<Longrightarrow> th = td_threads x ! i \<Longrightarrow> \<not> th_over th \<Longrightarrow> th_wake th \<le> td_now time x \<Longrightarrow>
     thread_turn os time th (td_node x) = (th', t) \<Longrightarrow>
     timed_step os time x \<lparr>td_node = t, td_threads = (td_threads x)[i := th'],
       td_rounds = td_rounds x @ (if sys_running (td_node x) then [(th_task th, td_now time x)] else []),
       td_turns = (td_turns x)[i := td_now time x]\<rparr>"
| receive: "timed_step os time x (x\<lparr>td_node := receive_round (handle_wire_message os) received (td_node x)\<rparr>)"
| work: "timed_step os time x (x\<lparr>td_node := snd (worker_turn os node_ok node_err (td_node x))\<rparr>)"
| request: "timed_step os time x (x\<lparr>td_node := request_key os key (td_node x)\<rparr>)"
| stop: "timed_step os time x (x\<lparr>td_node := (td_node x)\<lparr>sys_running := False\<rparr>\<rparr>)"
| wait: "td_now time x \<le> time w \<Longrightarrow> timed_step os time x (x\<lparr>td_node := (td_node x)\<lparr>net_world := w\<rparr>\<rparr>)"

inductive_cases timed_stepE: "timed_step os time x y"

text \<open>The threads are in time: the next round of a thread that has not ended begins at most \<open>late\<close> after one interval; the
  rounds themselves and the scheduler share this slack.\<close>

definition in_time :: "('w \<Rightarrow> time_ns) \<Rightarrow> time_ns \<Rightarrow> 'w timed \<Rightarrow> bool" where
  "in_time time late x \<longleftrightarrow> list_all (\<lambda>th. th_over th \<or> td_now time x \<le> th_last th + ms_ns (th_interval th) + late) (td_threads x)"

text \<open>The same for the turns that the scheduler gives, whatever the threads do with them: a thread that has not ended gets a turn at
  most \<open>late\<close> after one interval.\<close>

definition punctual :: "('w \<Rightarrow> time_ns) \<Rightarrow> time_ns \<Rightarrow> 'w timed \<Rightarrow> bool" where
  "punctual time late x \<longleftrightarrow>
     list_all2 (\<lambda>th t. th_over th \<or> td_now time x \<le> t + ms_ns (th_interval th) + late) (td_threads x) (td_turns x)"

subsection \<open>A clock that runs\<close>

text \<open>The steady clock never goes back, whatever the node asks of its host, and a reading lies between the times before and after it.\<close>

definition clock_runs :: "('w, 'y) node_os_scheme \<Rightarrow> ('w \<Rightarrow> time_ns) \<Rightarrow> bool" where
  "clock_runs os time \<longleftrightarrow>
     (\<forall>rc key w. time w \<le> time (snd (cache_get os rc key w)))
   \<and> (\<forall>rc key v w. time w \<le> time (snd (cache_set os rc key v w)))
   \<and> (\<forall>a p w. time w \<le> time (snd (os_sendto os a p w))) \<and> (\<forall>h p w. time w \<le> time (snd (os_getaddrinfo os h p w)))
   \<and> (\<forall>w. time w \<le> time (snd (os_wall_ms os w)))
   \<and> (\<forall>w. time w \<le> fst (os_steady os w) \<and> time w \<le> time (snd (os_steady os w)))"

lemma clock_runsD:
  assumes "clock_runs os time" "T \<le> time w"
  shows "T \<le> time (snd (cache_get os rc key w))" "T \<le> time (snd (cache_set os rc key v w))"
    "T \<le> time (snd (os_sendto os a p w))" "T \<le> time (snd (os_getaddrinfo os h q w))" "T \<le> time (snd (os_wall_ms os w))"
    "T \<le> fst (os_steady os w)" "T \<le> time (snd (os_steady os w))"
  using assms unfolding clock_runs_def by (meson order_trans)+

subsection \<open>What no operation does\<close>

text \<open>It is \<open>T\<close> or later, and no fallback is due before \<open>D\<close>.\<close>

definition settled_parts :: "('w \<Rightarrow> time_ns) \<Rightarrow> time_ns \<Rightarrow> time_ns \<Rightarrow> 'w \<Rightarrow> fallback \<Rightarrow> bool" where
  "settled_parts time T D w fb \<longleftrightarrow> D \<le> T \<and> T \<le> time w \<and> list_all (\<lambda>ke. D \<le> fe_deadline (snd ke)) (fb_entries fb)
     \<and> (fb_window fb \<le> 0 \<longrightarrow> fb_entries fb = [])"

definition settled :: "('w \<Rightarrow> time_ns) \<Rightarrow> time_ns \<Rightarrow> time_ns \<Rightarrow> 'w node_sys \<Rightarrow> bool" where
  "settled time T D s \<longleftrightarrow> settled_parts time T D (net_world s) (nd_fallback s)"

lemmas settled_defs = settled_def settled_parts_def

lemma settled_time: "settled time T D s \<Longrightarrow> T \<le> time (net_world s)"
  by (simp add: settled_defs)

lemma settled_weaken: "settled time T T s \<Longrightarrow> settled time T D s' \<Longrightarrow> settled time T D s"
  by (auto simp: settled_defs list_all_iff)

lemma settled_now: "settled time T D s \<Longrightarrow> settled time (time (net_world s)) D s"
  by (auto simp: settled_defs)

lemma take_due_entries:
  "fb_entries (snd (take_due now fb)) = (if fb_window fb \<le> 0 then fb_entries fb else prune (is_due now) (fb_entries fb))"
  using take_loop_kept [of now "fb_entries fb"] by (simp add: take_due_def split_beta)

text \<open>The clock of a host makes a frame of it.\<close>

lemma settled_frame:
  assumes "clock_runs os time"
  shows "node_frame os (\<lambda>w fb r c. settled_parts time T D w fb)"
proof
  fix w :: 'a and fb :: fallback and key org :: string and r :: bool and c :: config
  assume s: "settled_parts time T D w fb"
  then have now: "T \<le> time w" "D \<le> T"
    by (simp_all add: settled_parts_def)
  note later = clock_runsD [OF assms now(1)]
  show "settled_parts time T D w (snd (cancel key org fb))"
    using s by (auto simp: settled_parts_def cancel_def list_all_iff dest!: set_delete_mem)
  show "settled_parts time T D (snd (os_steady os w)) (snd (take_due (fst (os_steady os w)) fb))"
    using s later(7) by (auto simp: settled_parts_def take_due_entries prune_def list_all_iff)
  have "D \<le> fst (os_steady os w) + ms_ns v" if "0 < v" for v
    using later(6) now(2) that by (simp add: ms_ns_def)
  then show "settled_parts time T D (snd (os_steady os w)) (snd (schedule (fst (os_steady os w)) key org fb))"
    using s later(7) by (auto simp: settled_parts_def schedule_def Let_def list_all_iff dest!: update_Nil_mem)
qed (use clock_runsD [OF assms] in \<open>simp_all add: settled_parts_def\<close>)

lemma settled_holds:
  fixes os :: "'w host_os"
  shows "clock_runs os time \<Longrightarrow> node_frame.holds (\<lambda>w fb r c. settled_parts time T D w fb) s \<longleftrightarrow> settled time T D s"
  by (simp add: node_frame.holds_def [OF settled_frame] settled_def)

lemma rounds_settled:
  assumes "clock_runs os time" "settled time T D s"
  shows "settled time T D (receive_round (handle_wire_message os) received s)"
    "settled time T D (snd (worker_turn os node_ok node_err s))"
    "settled time T D (request_key os key s)"
    "settled time T D (task_round os k s)"
proof -
  note frame = settled_frame [OF assms(1), of T D]
  have s: "node_frame.holds (\<lambda>w fb r c. settled_parts time T D w fb) s"
    using assms by (simp add: settled_holds)
  show "settled time T D (receive_round (handle_wire_message os) received s)"
    "settled time T D (snd (worker_turn os node_ok node_err s))" "settled time T D (request_key os key s)"
    using node_frame.receive_round_holds [OF frame s] node_frame.worker_turn_holds [OF frame s]
      node_frame.request_key_holds [OF frame s] by (simp_all add: settled_holds [OF assms(1)])
  show "settled time T D (task_round os k s)"
    using node_frame.task_round_holds [OF frame s] by (simp add: settled_holds [OF assms(1)])
qed

text \<open>A round of the fallbacks leaves nothing that was due when it began.\<close>

lemma fallback_round_settled:
  fixes os :: "'w host_os"
  assumes "clock_runs os time" "settled time T0 D s" "T \<le> time (net_world s)"
  shows "settled time T T (fallback_round os s)"
proof -
  let ?s = "(snd (read_steady os s))\<lparr>nd_fallback := snd (take_due (fst (read_steady os s)) (nd_fallback s))\<rparr>"
  have "settled time T T ?s"
    using assms(2) clock_runsD(6,7) [OF assms(1,3)]
    by (auto simp: settled_defs read_steady_def split_beta take_due_entries prune_def list_all_iff is_due_def)
  then have "node_frame.holds (\<lambda>w fb r c. settled_parts time T T w fb) ?s"
    by (simp add: settled_holds [OF assms(1)])
  from node_frame.fallback_keys_holds [OF settled_frame [OF assms(1)] this] show ?thesis
    by (simp add: settled_holds [OF assms(1)] fallback_round_def Let_def read_steady_def split_beta)
qed

subsection \<open>Invariants of a run\<close>

definition timed_start :: "('w \<Rightarrow> time_ns) \<Rightarrow> 'w node_sys \<Rightarrow> 'w timed" where
  "timed_start time s = \<lparr>td_node = s, td_threads = start_background_tasks (nd_config s) (time (net_world s)), td_rounds = [],
     td_turns = map (\<lambda>th. time (net_world s)) (start_background_tasks (nd_config s) (time (net_world s)))\<rparr>"

abbreviation starts_of :: "task \<Rightarrow> 'w timed \<Rightarrow> time_ns list" where
  "starts_of k x \<equiv> map snd (filter (\<lambda>r. fst r = k) (td_rounds x))"

lemma turn_settled:
  assumes "clock_runs os time" "settled time T D s" "thread_turn os time th s = (th', t)"
  shows "settled time T D t"
  using assms(3) rounds_settled(4) [OF assms(1,2)] assms(2)
  by (auto simp: thread_turn_def Let_def split: if_splits)

lemma timed_step_settled:
  assumes "clock_runs os time" "timed_step os time x y" "settled time T D (td_node x)"
  shows "settled time T D (td_node y)"
  using assms(2)
proof cases
  case (turn i th th' t)
  then show ?thesis
    using turn_settled [OF assms(1,3)] by simp
qed (use assms(3) rounds_settled(1-3) [OF assms(1,3)] in \<open>auto simp: settled_defs\<close>)

text \<open>The threads keep their task and interval.\<close>

lemma timed_step_threads:
  assumes "timed_step os time x y"
  shows "map th_task (td_threads y) = map th_task (td_threads x)"
    and "map th_interval (td_threads y) = map th_interval (td_threads x)"
  using assms by (auto elim!: timed_stepE simp: thread_turn_def Let_def map_update intro!: list_update_same_conv [THEN iffD2]
      split: if_splits)

text \<open>No fallback is due before the last round of the fallback thread began.\<close>

definition polled :: "('w \<Rightarrow> time_ns) \<Rightarrow> 'w timed \<Rightarrow> bool" where
  "polled time x \<longleftrightarrow> (\<exists>T D. settled time T D (td_node x)) \<and>
     (\<forall>th \<in> set (td_threads x). th_task th = FallbackTask \<longrightarrow> th_over th \<or> settled time (th_last th) (th_last th) (td_node x))"

lemma timed_step_polled:
  assumes "clock_runs os time" "timed_step os time x y" "polled time x"
  shows "polled time y"
proof -
  have some: "\<exists>T D. settled time T D (td_node y)"
    using assms timed_step_settled [OF assms(1,2)] by (auto simp: polled_def)
  have old: "settled time (th_last th) (th_last th) (td_node y)"
    if "th \<in> set (td_threads x)" "th_task th = FallbackTask" "\<not> th_over th" for th
    using that assms(3) timed_step_settled [OF assms(1,2)] by (auto simp: polled_def)
  show ?thesis
    using assms(2)
  proof cases
    case (turn i th th' t)
    obtain T D where T: "settled time T D (td_node x)"
      using assms(3) by (auto simp: polled_def)
    have "settled time (th_last th') (th_last th') t" if "th_task th' = FallbackTask" "\<not> th_over th'"
      using turn(6) that fallback_round_settled [OF assms(1) T order_refl]
      by (auto simp: thread_turn_def task_round_def Let_def turn(4) split: if_splits)
    then show ?thesis
      using some old unfolding polled_def turn(1) by (auto dest!: set_update_subset_insert [THEN subsetD])
  qed (use some old in \<open>auto simp: polled_def\<close>)
qed

text \<open>The rounds of a thread are at least its interval apart, and it does not wake up sooner.\<close>

definition spaced_for :: "time_ns list \<Rightarrow> thread_state \<Rightarrow> bool" where
  "spaced_for starts th \<longleftrightarrow> successively (\<lambda>a b. a + ms_ns (th_interval th) \<le> b) starts
     \<and> (starts \<noteq> [] \<longrightarrow> last starts + ms_ns (th_interval th) \<le> th_wake th)"

definition spaced :: "'w timed \<Rightarrow> bool" where
  "spaced x \<longleftrightarrow> distinct (map th_task (td_threads x)) \<and> fst ` set (td_rounds x) \<subseteq> th_task ` set (td_threads x)
     \<and> (\<forall>th \<in> set (td_threads x). spaced_for (starts_of (th_task th) x) th)"

lemma turn_spaced:
  assumes "clock_runs os time" "settled time T D s" "thread_turn os time th s = (th', t)" "spaced_for starts th"
    "th_wake th \<le> time (net_world s)"
  shows "spaced_for (if sys_running s then starts @ [time (net_world s)] else starts) th'"
proof -
  have "time (net_world s) \<le> time (net_world (task_round os (th_task th) s))"
    by (rule settled_time [OF rounds_settled(4) [OF assms(1) settled_now [OF assms(2)]]])
  then show ?thesis
    using assms(3-5) by (auto simp: thread_turn_def Let_def spaced_for_def successively_append_iff split: if_splits)
qed

lemma timed_step_spaced:
  assumes "clock_runs os time" "settled time T D (td_node x)" "timed_step os time x y" "spaced x"
  shows "spaced y"
  using assms(3)
proof cases
  case (turn i th th' t)
  have task: "th_task th' = th_task th"
    using turn(6) by (auto simp: thread_turn_def Let_def split: if_splits)
  then have tasks: "map th_task ((td_threads x)[i := th']) = map th_task (td_threads x)"
    using turn(2,3) by (simp add: map_update list_update_same_conv)
  have "th \<in> set (td_threads x)"
    using turn(2,3) by simp
  then have mine: "spaced_for (starts_of (th_task th') y) th'"
    using turn_spaced [OF assms(1,2) turn(6) _ turn(5)] assms(4) unfolding turn(1) spaced_def by (auto simp: task)
  have "spaced_for (starts_of (th_task o') y) o'" if mem: "o' \<in> set ((td_threads x)[i := th'])" for o'
  proof (cases "o' = th'")
    case False
    obtain j where j: "j < length (td_threads x)" "o' = (td_threads x)[i := th'] ! j"
      using mem unfolding in_set_conv_nth length_list_update by blast
    then have "j \<noteq> i"
      using False turn(2) by auto
    then have "o' = td_threads x ! j" "th_task o' \<noteq> th_task th"
      using j turn(2,3) assms(4) nth_eq_iff_index_eq [of "map th_task (td_threads x)" j i] by (auto simp: spaced_def)
    then show ?thesis
      using assms(4) j(1) unfolding turn(1) by (auto simp: spaced_def)
  qed (simp add: mine)
  moreover have "th_task ` set ((td_threads x)[i := th']) = th_task ` set (td_threads x)"
    using arg_cong [OF tasks, of set] by simp
  ultimately show ?thesis
    using assms(4) tasks \<open>th \<in> set (td_threads x)\<close> unfolding turn(1) spaced_def by auto
qed (use assms(4) in \<open>simp_all add: spaced_def\<close>)

lemma background_tasks_distinct: "distinct (map th_task (start_background_tasks c now))"
  by (simp add: start_background_tasks_def start_thread_def)

lemma background_task: "th \<in> set (start_background_tasks c now) \<Longrightarrow> th_interval th = task_interval c (th_task th)"
  by (auto simp: start_background_tasks_def start_thread_def)

subsection \<open>Properties\<close>

text \<open>What a run preserves, from its start on.\<close>

lemma run_threads:
  assumes "(timed_step os time)\<^sup>*\<^sup>* x y"
  shows "map th_task (td_threads y) = map th_task (td_threads x) \<and> map th_interval (td_threads y) = map th_interval (td_threads x)"
  using assms by (induction rule: rtranclp_induct) (auto dest: timed_step_threads)

lemma run_interval:
  assumes "(timed_step os time)\<^sup>*\<^sup>* (timed_start time s) x" "th \<in> set (td_threads x)"
  shows "th_interval th = task_interval (nd_config s) (th_task th)"
proof -
  let ?old = "start_background_tasks (nd_config s) (time (net_world s))"
  have maps: "map th_task (td_threads x) = map th_task ?old" "map th_interval (td_threads x) = map th_interval ?old"
    using run_threads [OF assms(1)] by (simp_all add: timed_start_def)
  obtain i where i: "i < length (td_threads x)" "th = td_threads x ! i"
    using assms(2) by (auto simp: in_set_conv_nth)
  then have "i < length ?old" "th_task th = th_task (?old ! i)" "th_interval th = th_interval (?old ! i)"
    using maps [THEN arg_cong, of length] maps [THEN arg_cong, of "\<lambda>l. l ! i"] by simp_all
  moreover from this(1) have "?old ! i \<in> set ?old"
    by (rule nth_mem)
  ultimately show ?thesis
    using background_task [of "?old ! i"] by metis
qed

lemma start_settled:
  "fb_entries (nd_fallback s) = [] \<Longrightarrow> settled time (time (net_world s)) (time (net_world s)) s"
  by (simp add: settled_defs)

lemma run_polled:
  assumes "clock_runs os time" "fb_entries (nd_fallback s) = []" "(timed_step os time)\<^sup>*\<^sup>* (timed_start time s) x"
  shows "polled time x"
  using assms(3)
proof (induction rule: rtranclp_induct)
  case base
  show ?case
    using start_settled [OF assms(2), of time]
    by (auto simp: polled_def timed_start_def start_background_tasks_def start_thread_def)
next
  case (step x y)
  then show ?case
    using timed_step_polled [OF assms(1)] by blast
qed

lemma run_spaced:
  assumes "clock_runs os time" "fb_entries (nd_fallback s) = []" "(timed_step os time)\<^sup>*\<^sup>* (timed_start time s) x"
  shows "spaced x"
  using assms(3)
proof (induction rule: rtranclp_induct)
  case base
  show ?case
    using background_tasks_distinct by (simp add: spaced_def timed_start_def spaced_for_def)
next
  case (step x y)
  obtain T D where "settled time T D (td_node x)"
    using run_polled [OF assms(1,2) step(1)] by (auto simp: polled_def)
  then show ?case
    using timed_step_spaced [OF assms(1) _ step(2,3)] by blast
qed

text \<open>C30. No fallback is forgotten. As long as the fallback thread has not ended and wakes up with a slack of at
  most \<open>late\<close>, a fallback is still pending only until one polling interval (half the window, at least 25 ms)
  and the slack after its deadline: by then it was cancelled or its key was handed to the aggregator.\<close>

theorem fallbacks_in_time:
  assumes "clock_runs os time" "fb_entries (nd_fallback s) = []"
    and "(timed_step os time)\<^sup>*\<^sup>* (timed_start time s) x" "in_time time late x"
    and "th \<in> set (td_threads x)" "th_task th = FallbackTask" "\<not> th_over th"
    and "(k, e) \<in> set (fb_entries (nd_fallback (td_node x)))"
  shows "td_now time x \<le> fe_deadline e + ms_ns (fallback_poll_ms (nd_config s)) + late"
proof -
  have "td_now time x \<le> th_last th + ms_ns (th_interval th) + late"
    using assms(4,5,7) by (auto simp: in_time_def list_all_iff)
  moreover have "th_interval th = fallback_poll_ms (nd_config s)"
    using run_interval [OF assms(3,5)] by (simp add: assms(6) task_interval_def)
  moreover have "th_last th \<le> fe_deadline e"
    using run_polled [OF assms(1-3)] assms(5-8) by (fastforce simp: polled_def settled_defs list_all_iff)
  ultimately show ?thesis
    by simp
qed

text \<open>C31. The background work is rationed. However the threads are scheduled, the rounds of each begin at least its
  interval apart: so the summaries of a node are at least \<^verbatim>\<open>content_bf_exchange_ms\<close> apart, and its flushes at least half
  the aggregation window (50 ms if that is more).\<close>

theorem rounds_spaced:
  assumes "clock_runs os time" "fb_entries (nd_fallback s) = []" "(timed_step os time)\<^sup>*\<^sup>* (timed_start time s) x"
    and "i < j" "j < length (starts_of k x)"
  shows "starts_of k x ! i + (int j - int i) * ms_ns (task_interval (nd_config s) k) \<le> starts_of k x ! j"
proof -
  have s: "spaced x"
    by (rule run_spaced [OF assms(1-3)])
  have "starts_of k x \<noteq> []"
    using assms(5) by auto
  then have "k \<in> fst ` set (td_rounds x)"
    by (auto simp: filter_empty_conv)
  then obtain th where th: "th \<in> set (td_threads x)" "th_task th = k"
    using s by (auto simp: spaced_def)
  have "spaced_for (starts_of k x) th"
    using s th by (auto simp: spaced_def)
  then have succ: "successively (\<lambda>a b. a + ms_ns (task_interval (nd_config s) k) \<le> b) (starts_of k x)"
    using run_interval [OF assms(3) th(1)] by (simp add: spaced_for_def th(2))
  have step: "starts_of k x ! n + ms_ns (task_interval (nd_config s) k) \<le> starts_of k x ! Suc n" if "Suc n < length (starts_of k x)" for n
    using successively_nth [OF succ that] .
  show ?thesis
    using assms(4,5)
  proof (induction j)
    case (Suc j)
    then have "starts_of k x ! i + (int j - int i) * ms_ns (task_interval (nd_config s) k) \<le> starts_of k x ! j"
      by (cases "i = j") auto
    with step [of j] Suc.prems(2) show ?case
      by (simp add: algebra_simps)
  qed simp
qed

text \<open>The threads that have not ended had their last turn at \<open>T\<close> or before.\<close>

definition turns_by :: "time_ns \<Rightarrow> 'w timed \<Rightarrow> bool" where
  "turns_by T x \<longleftrightarrow> list_all2 (\<lambda>th t. th_over th \<or> t \<le> T) (td_threads x) (td_turns x)"

lemma turns_by_later: "turns_by T x \<Longrightarrow> T \<le> T' \<Longrightarrow> turns_by T' x"
  unfolding turns_by_def by (erule list_all2_mono) auto

text \<open>The last turns are past, and after the stop a thread that gets a turn has ended.\<close>

lemma timed_step_turns:
  assumes "timed_step os time x y" "turns_by T x" "sys_running (td_node x) \<Longrightarrow> td_now time x \<le> T"
  shows "turns_by T y"
  using assms(1)
proof cases
  case (turn i th th' t)
  then have "th_over th' \<or> td_now time x \<le> T"
    using assms(3) by (auto simp: thread_turn_def split: if_splits)
  then show ?thesis
    using assms(2) unfolding turns_by_def turn(1) by (auto intro: list_all2_update_cong)
qed (use assms(2) in \<open>simp_all add: turns_by_def\<close>)

lemma run_turns:
  assumes "clock_runs os time" "fb_entries (nd_fallback s) = []" "(timed_step os time)\<^sup>*\<^sup>* (timed_start time s) x"
  shows "turns_by (td_now time x) x"
  using assms(3)
proof (induction rule: rtranclp_induct)
  case base
  show ?case
    by (simp add: turns_by_def timed_start_def list_all2_map2 list.rel_refl)
next
  case (step x y)
  obtain T D where T: "settled time T D (td_node x)"
    using run_polled [OF assms(1,2) step(1)] by (auto simp: polled_def)
  have later: "td_now time x \<le> td_now time y"
    using settled_time [OF timed_step_settled [OF assms(1) step(2) settled_now [OF T]]] .
  show ?case
    using timed_step_turns [OF step(2) turns_by_later [OF step(3) later]] later by simp
qed

text \<open>A node that was stopped stays so, and its threads begin no round.\<close>

lemma timed_step_stopped:
  assumes "timed_step os time x y" "\<not> sys_running (td_node x)"
  shows "\<not> sys_running (td_node y) \<and> td_rounds y = td_rounds x"
  using assms(1)
proof cases
  case (turn i th th' t)
  then show ?thesis
    using assms(2) by (auto simp: thread_turn_def)
qed (use assms(2) stopped.receive_round_holds [of "td_node x" os] stopped.worker_turn_holds [of "td_node x" os]
    stopped.request_key_holds [of "td_node x" os] in \<open>simp_all add: stopped.holds_def\<close>)

lemma run_stopped:
  assumes "(timed_step os time)\<^sup>*\<^sup>* x y" "\<not> sys_running (td_node x)" "turns_by T x"
  shows "\<not> sys_running (td_node y) \<and> td_rounds y = td_rounds x \<and> turns_by T y"
  using assms(1)
proof (induction rule: rtranclp_induct)
  case (step y z)
  then show ?case
    using timed_step_stopped [OF step(2)] timed_step_turns [OF step(2), of T] by auto
qed (use assms(2,3) in simp)

text \<open>C32. A node that is stopped comes to an end. From the moment at which the flag is cleared no background thread begins another
  round. Hypothesis: the scheduler gives each thread that has not ended a turn at most one interval and the slack after its last
  turn. Then a thread has ended when more than that time has passed since the flag was cleared, because it sees the flag at its next turn.\<close>

theorem stopped_threads_end:
  assumes "clock_runs os time" "fb_entries (nd_fallback s) = []"
    and "(timed_step os time)\<^sup>*\<^sup>* (timed_start time s) x0" "\<not> sys_running (td_node x0)"
    and "(timed_step os time)\<^sup>*\<^sup>* x0 x" "punctual time late x" "th \<in> set (td_threads x)"
    and "td_now time x0 + ms_ns (task_interval (nd_config s) (th_task th)) + late < td_now time x"
  shows "th_over th \<and> td_rounds x = td_rounds x0"
proof -
  note stop = run_stopped [OF assms(5,4) run_turns [OF assms(1-3)]]
  obtain i where i: "i < length (td_threads x)" "th = td_threads x ! i"
    using assms(7) by (auto simp: in_set_conv_nth)
  have "th_over th \<or> td_turns x ! i \<le> td_now time x0"
    using stop i by (auto simp: turns_by_def list_all2_conv_all_nth)
  moreover have "th_over th \<or> td_now time x \<le> td_turns x ! i + ms_ns (th_interval th) + late"
    using assms(6) i by (auto simp: punctual_def list_all2_conv_all_nth)
  moreover have "th_interval th = task_interval (nd_config s) (th_task th)"
    by (rule run_interval [OF rtranclp_trans [OF assms(3,5)] assms(7)])
  ultimately show ?thesis
    using assms(8) stop by auto
qed

subsection \<open>A node in time\<close>

text \<open>A host whose world is its steady clock, which moves on by one with every reading, and a node on it that has a summary
  of one neighbour, which holds \<open>k\<close>. Redis is not connected.\<close>

definition clock_host :: "int host_os" where
  "clock_host = \<lparr>os_sendto = \<lambda>_ _ w. (None, w), os_getaddrinfo = \<lambda>_ _ w. (Inr zero_addr, w),
     os_socket = \<lambda>w. (None, w), os_bind = \<lambda>_ w. (None, w), os_inet_pton = \<lambda>_. None,
     os_steady = \<lambda>w. (w, w + 1), os_wall_ms = \<lambda>w. (w, w),
     os_redis_send = \<lambda>_ w. (SendFailed ''closed'', w), os_redis_recv = \<lambda>_ w. (NoBytes ''closed'', w),
     os_redis_connect = \<lambda>w. ((None, None), w), os_getenv = \<lambda>w k. None, os_read_file = \<lambda>w p. None\<rparr>"

definition clock_config :: config where
  "clock_config = (config_of (\<lambda>_. None) [] [])\<lparr>content_bf_bits := 8, query_bf_bits := 8\<rparr>"

definition clock_node :: "int node_sys" where
  "clock_node = (node_new clock_config Info 5)\<lparr>nd_content := (content_table_new 8 1 0)
     \<lparr>ct_neighbors := [(''n'', \<lparr>ne_filter = bloom_add ''k'' (bloom_new 8 1), ne_updated = 5, ne_addr = zero_addr\<rparr>)]\<rparr>\<rparr>"

lemma cache_not_connected:
  "\<not> rc_connected rc \<Longrightarrow> cache_get os rc key w = ((None, Some ''redis socket not connected''), w)"
  "\<not> rc_connected rc \<Longrightarrow> cache_set os rc key v w = (Some ''redis socket not connected'', w)"
  by (simp_all add: cache_get_def cache_set_def redis_get_def redis_set_def send_command_def)

lemma clock_host_runs: "clock_runs clock_host (\<lambda>w. w)"
proof -
  have "snd (cache_get clock_host rc key w) = w \<and> snd (cache_set clock_host rc key v w) = w" for rc key v w
    by (cases "rc_connected rc")
      (simp_all add: cache_not_connected cache_get_def cache_set_def redis_get_def redis_set_def send_command_def
        send_loop.simps resp_command_def clock_host_def)
  then show ?thesis
    by (simp add: clock_runs_def) (simp add: clock_host_def)
qed

lemma clock_config_values [simp]:
  "content_bf_fallback_ms clock_config = 300" "topology_reload_ms clock_config = 0" "request_ttl clock_config = 3"
  "content_bf_exchange_ms clock_config = 1000" "query_bf_aggregation_ms clock_config = 200" "node_id clock_config = ''node''"
  by (simp_all add: clock_config_def config_of_def Let_def get_setting_def get_setting_int_def)

lemma clock_node_selects: "fst (select_neighbor now ''k'' (nd_content clock_node)) = Some zero_addr"
proof -
  have "bloom_good (bloom_new 8 1)"
    by (simp add: bloom_good_def bloom_wf_new)
  from bloom_set.contains_add [OF this, of "''k''"] show ?thesis
    by (simp add: clock_node_def content_table_new_def select_neighbor_def content_prune_def Let_def)
qed

lemma clock_node_requests:
  "\<exists>k d. fb_entries (nd_fallback (request_key clock_host ''k'' clock_node)) =
     [(k, \<lparr>fe_key = ''k'', fe_origin = ''node'', fe_deadline = d\<rparr>)]
    \<and> net_world (request_key clock_host ''k'' clock_node) = 9"
proof -
  have new: "nd_config clock_node = clock_config" "nd_redis clock_node = redis_client_new (redis_socket clock_config)"
    "nd_fallback clock_node = fallback_new 300" "net_transport clock_node = transport_new (bind_ip clock_config) (bind_port clock_config)"
    "fq_started clock_node = False" "net_world clock_node = 5"
    by (simp_all add: clock_node_def node_new_def)
  have clocks: "os_steady clock_host w = (w, w + 1)" "os_wall_ms clock_host w = (w, w)" for w
    by (simp_all add: clock_host_def)
  show ?thesis
    using clock_node_selects
    by (simp add: clocks request_key_def cache_not_connected redis_client_new_def new originate_def request_direct_def split_beta Let_def
      make_request_id_def read_steady_def fq_send_direct_def run_direct_def send_direct_def send_to_def transport_new_def
      run_failure_def schedule_def fallback_new_def log_state_def)
qed

lemma clock_node_new: "nd_config clock_node = clock_config" "net_world clock_node = 5" "fb_entries (nd_fallback clock_node) = []"
  "fq_started clock_node = False" "net_topology clock_node = []" "sys_running clock_node = False"
  by (simp_all add: clock_node_def node_new_def fallback_new_def)

theorem fallbacks_in_time_witness:
  "\<exists>x k d. timed_step clock_host (\<lambda>w. w) (timed_start (\<lambda>w. w) clock_node) x
    \<and> fb_entries (nd_fallback (td_node x)) = [(k, \<lparr>fe_key = ''k'', fe_origin = ''node'', fe_deadline = d\<rparr>)]
    \<and> td_now (\<lambda>w. w) x \<le> d + ms_ns 151"
proof -
  let ?start = "timed_start (\<lambda>w. w) clock_node"
  let ?after = "?start\<lparr>td_node := request_key clock_host ''k'' (td_node ?start)\<rparr>"
  let ?th = "start_thread clock_config 5 FallbackTask"
  obtain k d where kd: "fb_entries (nd_fallback (td_node ?after)) = [(k, \<lparr>fe_key = ''k'', fe_origin = ''node'', fe_deadline = d\<rparr>)]"
      "td_now (\<lambda>w. w) ?after = 9"
    using clock_node_requests by (auto simp: timed_start_def)
  have poll: "fallback_poll_ms clock_config = 150"
    by (simp add: fallback_poll_ms_def signed_divide_int_def)
  have step: "timed_step clock_host (\<lambda>w. w) ?start ?after"
    by (rule timed_step.request)
  have slack: "in_time (\<lambda>w. w) (ms_ns 1) ?after"
    unfolding in_time_def kd(2)
    by (simp add: timed_start_def start_background_tasks_def start_thread_def clock_node_new task_interval_def poll ms_ns_def
        flush_poll_ms_def signed_divide_int_def)
  have run: "(timed_step clock_host (\<lambda>w. w))\<^sup>*\<^sup>* ?start ?after"
    by (rule r_into_rtranclp [of "timed_step clock_host (\<lambda>w. w)", OF step])
  have "?th \<in> set (td_threads ?after)" "th_task ?th = FallbackTask" "\<not> th_over ?th"
    by (simp_all add: timed_start_def start_background_tasks_def start_thread_def clock_node_new)
  from fallbacks_in_time [OF clock_host_runs clock_node_new(3) run slack this, of k "\<lparr>fe_key = ''k'', fe_origin = ''node'', fe_deadline = d\<rparr>"]
  have "td_now (\<lambda>w. w) ?after \<le> d + ms_ns 151"
    using kd(1) by (simp add: clock_node_new poll ms_ns_def)
  with step kd(1) show ?thesis
    by blast
qed

lemma clock_exchange:
  assumes "fq_started s = False" "net_topology s = []"
  shows "net_world (content_exchange_round clock_host s) = net_world s" "fq_started (content_exchange_round clock_host s) = False"
    "net_topology (content_exchange_round clock_host s) = []" "sys_running (content_exchange_round clock_host s) = sys_running s"
  using assms by (simp_all add: content_exchange_round_def Let_def fq_send_broadcast_def send_broadcast_def log_state_def split_beta)

text \<open>A round of the exchange, at any time.\<close>

definition clock_run :: "int \<Rightarrow> thread_state \<Rightarrow> int node_sys \<Rightarrow> (task \<times> time_ns) list \<Rightarrow> int timed" where
  "clock_run now th s rounds = \<lparr>td_node = s\<lparr>net_world := now\<rparr>,
     td_threads = [th, start_thread clock_config 5 FallbackTask, start_thread clock_config 5 FlushTask], td_rounds = rounds,
     td_turns = [th_last th, 5, 5]\<rparr>"

lemma clock_turn:
  assumes "sys_running s" "fq_started s = False" "net_topology s = []" "wake \<le> now"
  shows "timed_step clock_host (\<lambda>w. w) (clock_run now (start_thread clock_config 5 ExchangeTask\<lparr>th_last := l, th_wake := wake\<rparr>) s rounds)
     (clock_run now (start_thread clock_config 5 ExchangeTask\<lparr>th_last := now, th_wake := now + ms_ns 1000\<rparr>)
       (content_exchange_round clock_host (s\<lparr>net_world := now\<rparr>)) (rounds @ [(ExchangeTask, now)]))"
proof -
  let ?th = "\<lambda>l w. start_thread clock_config 5 ExchangeTask\<lparr>th_last := l, th_wake := w\<rparr>"
  let ?x = "clock_run now (?th l wake) s rounds" and ?t = "content_exchange_round clock_host (s\<lparr>net_world := now\<rparr>)"
  have "net_world ?t = now"
    using clock_exchange(1) [of "s\<lparr>net_world := now\<rparr>"] assms(2,3) by simp
  then have "?t\<lparr>net_world := now\<rparr> = ?t" "thread_turn clock_host (\<lambda>w. w) (?th l wake) (td_node ?x) = (?th now (now + ms_ns 1000), ?t)"
    using assms(1) by (simp_all add: clock_run_def thread_turn_def Let_def task_round_def start_thread_def task_interval_def)
  from timed_step.turn [of 0 ?x, OF _ _ _ _ this(2)] this(1) assms show ?thesis
    by (simp add: clock_run_def start_thread_def)
qed

theorem rounds_spaced_witness:
  "\<exists>x. (timed_step clock_host (\<lambda>w. w))\<^sup>*\<^sup>* (timed_start (\<lambda>w. w) (clock_node\<lparr>sys_running := True\<rparr>)) x
    \<and> starts_of ExchangeTask x = [5, 1000000007] \<and> 5 + ms_ns 1000 \<le> starts_of ExchangeTask x ! 1"
proof -
  let ?s = "clock_node\<lparr>sys_running := True\<rparr>" and ?step = "timed_step clock_host (\<lambda>w. w)"
  let ?th = "\<lambda>l w. start_thread clock_config 5 ExchangeTask\<lparr>th_last := l, th_wake := w\<rparr>"
  let ?t = "content_exchange_round clock_host (?s\<lparr>net_world := 5\<rparr>)"
  have start: "timed_start (\<lambda>w. w) ?s = clock_run 5 (?th 5 5) ?s []"
    using clock_node_new by (simp add: timed_start_def clock_run_def start_background_tasks_def start_thread_def)
  have t: "sys_running ?t" "fq_started ?t = False" "net_topology ?t = []"
    using clock_exchange [of "?s\<lparr>net_world := 5\<rparr>"] clock_node_new by simp_all
  obtain s3 where s: "?step (clock_run 5 (?th 5 5) ?s []) (clock_run 5 (?th 5 (5 + ms_ns 1000)) ?t [(ExchangeTask, 5)])"
      "?step (clock_run 5 (?th 5 (5 + ms_ns 1000)) ?t [(ExchangeTask, 5)]) (clock_run 1000000007 (?th 5 (5 + ms_ns 1000)) ?t [(ExchangeTask, 5)])"
      "?step (clock_run 1000000007 (?th 5 (5 + ms_ns 1000)) ?t [(ExchangeTask, 5)]) s3"
      "td_rounds s3 = [(ExchangeTask, 5), (ExchangeTask, 1000000007)]"
  proof
    show "?step (clock_run 5 (?th 5 5) ?s []) (clock_run 5 (?th 5 (5 + ms_ns 1000)) ?t [(ExchangeTask, 5)])"
      using clock_turn [of ?s 5 5 5 "[]"] clock_node_new by simp
    show "?step (clock_run 5 (?th 5 (5 + ms_ns 1000)) ?t [(ExchangeTask, 5)]) (clock_run 1000000007 (?th 5 (5 + ms_ns 1000)) ?t [(ExchangeTask, 5)])"
      using timed_step.wait [of "\<lambda>w. w" "clock_run 5 (?th 5 (5 + ms_ns 1000)) ?t [(ExchangeTask, 5)]" 1000000007 clock_host]
      by (simp add: clock_run_def)
    show "?step (clock_run 1000000007 (?th 5 (5 + ms_ns 1000)) ?t [(ExchangeTask, 5)]) (clock_run 1000000007
        (?th 1000000007 (1000000007 + ms_ns 1000)) (content_exchange_round clock_host (?t\<lparr>net_world := 1000000007\<rparr>))
        ([(ExchangeTask, 5)] @ [(ExchangeTask, 1000000007)]))"
      by (rule clock_turn [OF t]) (simp add: ms_ns_def)
  qed (simp add: clock_run_def)
  have run: "?step\<^sup>*\<^sup>* (timed_start (\<lambda>w. w) ?s) s3"
    unfolding start
    by (rule converse_rtranclp_into_rtranclp, rule s(1), rule converse_rtranclp_into_rtranclp, rule s(2),
        rule r_into_rtranclp, rule s(3))
  moreover have "5 + ms_ns 1000 \<le> starts_of ExchangeTask s3 ! 1"
    using rounds_spaced [OF clock_host_runs _ run, of 0 1 ExchangeTask] clock_node_new s(4) by (simp add: task_interval_def)
  ultimately show ?thesis
    using s(4) by (intro exI [of _ s3]) simp
qed

text \<open>The turn of a thread of a node that does not run.\<close>

definition idle_run :: "int \<Rightarrow> thread_state list \<Rightarrow> int timed" where
  "idle_run now ths = \<lparr>td_node = clock_node\<lparr>net_world := now\<rparr>, td_threads = ths, td_rounds = [], td_turns = map (\<lambda>th. 5) ths\<rparr>"

lemma idle_turn:
  assumes "i < length ths" "\<not> th_over (ths ! i)" "th_wake (ths ! i) \<le> 5"
  shows "timed_step clock_host (\<lambda>w. w) (idle_run 5 ths) (idle_run 5 (ths[i := (ths ! i)\<lparr>th_over := True\<rparr>]))"
proof -
  have "thread_turn clock_host (\<lambda>w. w) (ths ! i) (clock_node\<lparr>net_world := 5\<rparr>) = ((ths ! i)\<lparr>th_over := True\<rparr>, clock_node\<lparr>net_world := 5\<rparr>)"
    by (simp add: thread_turn_def clock_node_new)
  then show ?thesis
    using timed_step.turn [of i "idle_run 5 ths" "ths ! i" "\<lambda>w. w" clock_host] assms
    by (simp add: idle_run_def clock_node_new map_update)
qed

theorem stopped_threads_end_witness:
  "\<exists>x th. (timed_step clock_host (\<lambda>w. w))\<^sup>*\<^sup>* (timed_start (\<lambda>w. w) clock_node) x \<and> td_now (\<lambda>w. w) x = 9000000000
    \<and> th \<in> set (td_threads x) \<and> th_task th = ExchangeTask \<and> th_over th \<and> td_rounds x = []"
proof -
  let ?step = "timed_step clock_host (\<lambda>w. w)"
  let ?start = "timed_start (\<lambda>w. w) clock_node"
  let ?new = "start_thread clock_config 5" and ?over = "\<lambda>k. start_thread clock_config 5 k\<lparr>th_over := True\<rparr>"
  let ?x = "idle_run 9000000000 [?over ExchangeTask, ?over FallbackTask, ?over FlushTask]"
  have start: "?start = idle_run 5 [?new ExchangeTask, ?new FallbackTask, ?new FlushTask]"
    using clock_node_new by (simp add: idle_run_def timed_start_def start_background_tasks_def)
  have idle: "\<not> th_over (?new k)" "k \<noteq> ReloadTask \<Longrightarrow> th_wake (?new k) = 5" for k
    by (simp_all add: start_thread_def)
  have turns: "?step (idle_run 5 [?new ExchangeTask, ?new FallbackTask, ?new FlushTask]) (idle_run 5 [?over ExchangeTask, ?new FallbackTask, ?new FlushTask])"
    "?step (idle_run 5 [?over ExchangeTask, ?new FallbackTask, ?new FlushTask]) (idle_run 5 [?over ExchangeTask, ?over FallbackTask, ?new FlushTask])"
    "?step (idle_run 5 [?over ExchangeTask, ?over FallbackTask, ?new FlushTask]) (idle_run 5 [?over ExchangeTask, ?over FallbackTask, ?over FlushTask])"
    using idle_turn [of 0 "[?new ExchangeTask, ?new FallbackTask, ?new FlushTask]"]
      idle_turn [of 1 "[?over ExchangeTask, ?new FallbackTask, ?new FlushTask]"]
      idle_turn [of 2 "[?over ExchangeTask, ?over FallbackTask, ?new FlushTask]"] idle by simp_all
  have waited: "?step (idle_run 5 [?over ExchangeTask, ?over FallbackTask, ?over FlushTask]) ?x"
    using timed_step.wait [of "\<lambda>w. w" "idle_run 5 [?over ExchangeTask, ?over FallbackTask, ?over FlushTask]" 9000000000 clock_host]
    by (simp add: idle_run_def)
  have run: "?step\<^sup>*\<^sup>* ?start ?x"
    unfolding start by (rule converse_rtranclp_into_rtranclp, rule turns(1), rule converse_rtranclp_into_rtranclp, rule turns(2),
        rule converse_rtranclp_into_rtranclp, rule turns(3), rule r_into_rtranclp, rule waited)
  have slack: "punctual (\<lambda>w. w) 0 ?x" and th: "?over ExchangeTask \<in> set (td_threads ?x)"
    by (simp_all add: punctual_def idle_run_def)
  have off: "\<not> sys_running (td_node ?start)"
    by (simp add: timed_start_def clock_node_new)
  have "th_over (?over ExchangeTask) \<and> td_rounds ?x = td_rounds ?start"
    by (rule stopped_threads_end [OF clock_host_runs clock_node_new(3) rtranclp.rtrancl_refl off run slack th])
      (simp add: timed_start_def clock_node_new task_interval_def start_thread_def ms_ns_def idle_run_def)
  with run th show ?thesis
    by (intro exI [of _ ?x] exI [of _ "?over ExchangeTask"]) (simp add: idle_run_def start_thread_def)
qed

end
