(* ===== verification/Node_Race.thy ===== *)
theory Node_Race
  imports Node_Exchange
begin

text \<open>
  A race between two threads of a node. \<^verbatim>\<open>schedule_requests\<close> hands a direct request over first and schedules its
  fallback afterwards; the receive loop may handle the answer in between. The two halves of \<^verbatim>\<open>request_direct\<close>
  are taken apart here and the answer is put between them.
\<close>

text \<open>Handing the request over, and scheduling the fallback.\<close>

definition request_send :: "('w, 'y) node_os_scheme \<Rightarrow> message \<Rightarrow> sockaddr_in \<Rightarrow> 'w node_sys \<Rightarrow> 'w node_sys" where
  "request_send os req a s =
     (let label = addr_to_string a; rid = m_request_id req; key = m_key req;
          s1 = log_info (direct_line req label) s
      in snd (fq_send_direct os node_ok node_err a req None (Some (DirectFailed rid key (m_origin req) label)) s1))"

definition request_schedule :: "('w, 'y) node_os_scheme \<Rightarrow> message \<Rightarrow> 'w node_sys \<Rightarrow> 'w node_sys" where
  "request_schedule os req s =
     (let (now, s1) = read_steady os s
      in s1\<lparr>nd_fallback := snd (schedule now (m_key req) (m_origin req) (nd_fallback s1))\<rparr>)"

lemma request_direct_split: "request_direct os req a s = request_schedule os req (request_send os req a s)"
  by (simp add: request_direct_def request_schedule_def request_send_def Let_def)

lemma request_schedule_state:
  assumes "os_steady os (net_world s) = (now, w)"
  shows "request_schedule os req s = s\<lparr>net_world := w, nd_fallback := snd (schedule now (m_key req) (m_origin req) (nd_fallback s))\<rparr>"
  using assms by (simp add: request_schedule_def read_steady_def)

text \<open>A scheduled fallback is there, and is handed out once its deadline has passed.\<close>

lemma schedule_pending:
  assumes "0 < fb_window fb" "fb' = snd (schedule now key org fb)"
  shows "map_of (fb_entries fb') (make_key org key) = Some \<lparr>fe_key = key, fe_origin = org, fe_deadline = now + ms_ns (fb_window fb)\<rparr>"
    and "now + ms_ns (fb_window fb) \<le> later \<Longrightarrow> (key, org) \<in> set (fst (take_due later fb'))"
proof -
  let ?e = "\<lparr>fe_key = key, fe_origin = org, fe_deadline = now + ms_ns (fb_window fb)\<rparr>"
  show pending: "map_of (fb_entries fb') (make_key org key) = Some ?e"
    using assms by (simp add: schedule_def Let_def update_conv)
  show "(key, org) \<in> set (fst (take_due later fb'))" if "now + ms_ns (fb_window fb) \<le> later"
  proof -
    have "?e \<in> snd ` set (fb_entries fb')" "0 < fb_window fb'"
      using map_of_SomeD [OF pending] assms by force+
    then show ?thesis
      using that by (force simp: take_due_def split_beta take_loop_due is_due_def)
  qed
qed

lemma handle_data_window: "fb_window (nd_fallback (handle_data os msg src s)) = fb_window (nd_fallback s)"
  by (auto simp: handle_data_def Let_def record_local_key_def split: data_state.splits prod.splits option.splits)

text \<open>The data that answers a request arrives and is stored: the key is local, and its fallback is cancelled.\<close>

lemma answer_arrives:
  assumes "from_wire (take recv_limit wire) = Some d" "m_type d = Data" "data_ok d"
    and "m_origin d = node_id (nd_config s)" "cache_set os (nd_redis s) (m_key d) (m_value d) (net_world s) = (None, w)"
  shows "m_key d \<in> set (nd_local_keys (arrives os wire src s))"
    "map_of (fb_entries (nd_fallback (arrives os wire src s))) (make_key (m_origin d) (m_key d)) = None"
    "fb_window (nd_fallback (arrives os wire src s)) = fb_window (nd_fallback s)"
proof -
  have "arrives os wire src s = handle_data os d src s"
    using assms(1,2) by (simp add: arrives_message handle_wire_message_def)
  then show "m_key d \<in> set (nd_local_keys (arrives os wire src s))"
    "map_of (fb_entries (nd_fallback (arrives os wire src s))) (make_key (m_origin d) (m_key d)) = None"
    "fb_window (nd_fallback (arrives os wire src s)) = fb_window (nd_fallback s)"
    using handle_data_outcome [of os d src s] assms(3-5) by (simp_all add: Let_def handle_data_window)
qed

subsection \<open>Property\<close>

text \<open>C35. An answer that is fast is asked for again. Let the answer to a direct request be handled between the handing over of
  the request and the scheduling of its fallback. Then the key is stored and local, but its fallback stays
  pending, and whenever the fallback thread looks after the deadline, the key goes to the next Query-BF. Had the
  answer come after the scheduling, no fallback would be left.\<close>

theorem overtaking_answer_asked_again:
  assumes "from_wire (take recv_limit wire) = Some d" "m_type d = Data" "data_ok d" "m_key d = m_key req" "m_origin d = m_origin req"
    and "s' = request_send os req a s" "m_origin req = node_id (nd_config s')" "0 < fb_window (nd_fallback s')"
    and fast: "cache_set os (nd_redis s') (m_key d) (m_value d) (net_world s') = (None, w)"
    and slow: "os_steady os (net_world s') = (now, w1)" "cache_set os (nd_redis s') (m_key d) (m_value d) w1 = (None, w2)"
    and clock: "os_steady os (net_world (arrives os wire src s')) = (now', w3)"
  shows "let t = request_schedule os req (arrives os wire src s'); deadline = now' + ms_ns (fb_window (nd_fallback s'))
     in m_key req \<in> set (nd_local_keys t) \<and>
        map_of (fb_entries (nd_fallback t)) (make_key (m_origin req) (m_key req)) =
          Some \<lparr>fe_key = m_key req, fe_origin = m_origin req, fe_deadline = deadline\<rparr> \<and>
        (\<forall>later \<ge> deadline. (m_key req, m_origin req) \<in> set (fst (take_due later (nd_fallback t)))) \<and>
        map_of (fb_entries (nd_fallback (arrives os wire src (request_direct os req a s)))) (make_key (m_origin req) (m_key req)) = None"
proof -
  let ?u = "arrives os wire src s'"
  let ?t = "request_schedule os req ?u"
  note u = answer_arrives [OF assms(1-3) assms(7) [folded assms(5)] fast, of src]
  have t: "?t = ?u\<lparr>net_world := w3, nd_fallback := snd (schedule now' (m_key req) (m_origin req) (nd_fallback ?u))\<rparr>"
    by (rule request_schedule_state [OF clock])
  have "m_key req \<in> set (nd_local_keys ?t)"
    using u(1) assms(4) by (simp add: t)
  moreover have "0 < fb_window (nd_fallback ?u)"
    using u(3) assms(8) by simp
  note pending = schedule_pending [OF this refl, where now = now' and key = "m_key req" and org = "m_origin req"]
  have "map_of (fb_entries (nd_fallback ?t)) (make_key (m_origin req) (m_key req)) =
      Some \<lparr>fe_key = m_key req, fe_origin = m_origin req, fe_deadline = now' + ms_ns (fb_window (nd_fallback s'))\<rparr>"
    using pending(1) u(3) by (simp add: t)
  moreover have "(m_key req, m_origin req) \<in> set (fst (take_due later (nd_fallback ?t)))"
    if "now' + ms_ns (fb_window (nd_fallback s')) \<le> later" for later
    using pending(2) [of later] that u(3) by (simp add: t)
  moreover let ?v = "request_schedule os req s'"
  have v: "request_direct os req a s = ?v"
    by (simp add: request_direct_split assms(6))
  have same: "nd_config ?v = nd_config s'" "nd_redis ?v = nd_redis s'" "net_world ?v = w1"
    by (simp_all add: request_schedule_state [OF slow(1)])
  moreover have "map_of (fb_entries (nd_fallback (arrives os wire src (request_direct os req a s)))) (make_key (m_origin req) (m_key req)) = None"
    unfolding v using answer_arrives(2) [OF assms(1-3), of ?v os w2 src] slow(2) assms(4,5,7) same by simp
  ultimately show ?thesis
    by (simp add: Let_def)
qed

text \<open>The node \<open>o\<close> asks a neighbour for \<open>k\<close>, and the answer overtakes the scheduling.\<close>

definition race_request :: message where
  "race_request = own_request (demo_config\<lparr>node_id := ''o''\<rparr>) ''id'' ''k''"

definition race_answer :: message where
  "race_answer = request_reply demo_config race_request ''v''"

lemma race_answer_parsed: "from_wire (take recv_limit (to_wire race_answer)) = Some race_answer"
proof -
  have "wire_ok race_answer"
    by (simp add: wire_ok_def header_ok_def bar_free_def race_answer_def race_request_def request_reply_def own_request_def
      empty_message_def demo_config_values in_int32_def)
  moreover have "length (to_wire race_answer) \<le> recv_limit"
    by (simp add: race_answer_def race_request_def request_reply_def own_request_def to_wire_def empty_message_def
      demo_config_values show_int_def show_nat.simps recv_limit_def)
  ultimately show ?thesis
    by (simp add: from_wire_to_wire_exact)
qed

theorem overtaking_answer_asked_again_witness:
  "let u = arrives demo_host (to_wire race_answer) (demo_addr 8) (request_send demo_host race_request (demo_addr 8) demo_origin);
       t = request_schedule demo_host race_request u
   in ''k'' \<in> set (nd_local_keys t) \<and> (''k'', ''o'') \<in> set (fst (take_due 300000000 (nd_fallback t)))
    \<and> map_of (fb_entries (nd_fallback (arrives demo_host (to_wire race_answer) (demo_addr 8)
        (request_direct demo_host race_request (demo_addr 8) demo_origin)))) (make_key ''o'' ''k'') = None"
proof -
  let ?s = "request_send demo_host race_request (demo_addr 8) demo_origin"
  have fields: "m_key race_request = ''k''" "m_origin race_request = ''o''" "m_type race_answer = Data"
    "m_key race_answer = ''k''" "m_origin race_answer = ''o''" "m_value race_answer = ''v''" "data_ok race_answer"
    by (simp_all add: race_answer_def race_request_def request_reply_def own_request_def empty_message_def data_ok_def
      demo_config_values)
  have s: "nd_config ?s = nd_config demo_origin" "nd_redis ?s = nd_redis demo_origin" "net_world ?s = net_world demo_origin"
    "nd_fallback ?s = nd_fallback demo_origin"
    by (simp_all add: request_send_def Let_def fq_send_direct_def run_direct_def send_direct_def send_to_def run_success_def
        log_state_def demo_origin_def demo_host_def demo_node_def node_new_def demo_config_def split_beta)
  have o: "node_id (nd_config demo_origin) = ''o''" "fb_window (nd_fallback demo_origin) = 300"
    by (simp_all add: demo_origin_def demo_node_def node_new_def fallback_new_def demo_config_def config_of_def Let_def
      get_setting_int_def get_setting_def)
  obtain w where w: "cache_set demo_host (nd_redis demo_origin) ''k'' ''v'' (net_world demo_origin) = (None, w)"
    using demo_set by blast
  have steady: "os_steady demo_host x = (0, x)" for x
    by (rule demo_steady)
  note race = overtaking_answer_asked_again [OF race_answer_parsed fields(3,7) _ _ refl, of race_request demo_host "demo_addr 8"
      demo_origin w 0 "net_world demo_origin" w "demo_addr 8" 0]
  show ?thesis
    using race [unfolded s fields o] w steady by (simp add: Let_def ms_ns_def fields)
qed

end
