(* ===== verification/Interleaving.thy ===== *)
theory Interleaving
  imports Netos_Prelude "HOL-Library.Multiset"
begin

text \<open>
  Threads that share a state. The code of a thread is a tree of atomic steps: a step acts on the state and what
  follows may depend on what it found there. Trees are finite in depth, so every round of a thread ends. A round that
  runs alone is a function on the state; in a system of threads the steps of all rounds that are under way
  interleave in any order. The interface \<open>shared_state\<close> is that of rely and guarantee: every step keeps an invariant
  of the state and promises something of the step and of the code that is left, and so the threads can be looked at
  one by one.
\<close>

subsection \<open>Code\<close>

datatype 's code = Done | Step "'s \<Rightarrow> 's \<times> 's code"

primrec run_code :: "'s code \<Rightarrow> 's \<Rightarrow> 's" where
  "run_code Done = (\<lambda>s. s)"
| "run_code (Step f) = (\<lambda>s. case (map_prod id run_code \<circ> f) s of (s', r) \<Rightarrow> r s')"

lemma run_Step [simp]: "run_code (Step f) s = run_code (snd (f s)) (fst (f s))"
  by (simp add: split_beta)

declare run_code.simps(2) [simp del]

text \<open>A step without a result; a step whose result the rest depends on; a loop over a list. The code that comes
  next is the last argument of every piece.\<close>

definition act :: "('s \<Rightarrow> 's) \<Rightarrow> 's code \<Rightarrow> 's code" where
  "act f k = Step (\<lambda>s. (f s, k))"

definition ask :: "('s \<Rightarrow> 'a \<times> 's) \<Rightarrow> ('a \<Rightarrow> 's code) \<Rightarrow> 's code" where
  "ask g k = Step (\<lambda>s. (snd (g s), k (fst (g s))))"

primrec each :: "('a \<Rightarrow> 's code \<Rightarrow> 's code) \<Rightarrow> 'a list \<Rightarrow> 's code \<Rightarrow> 's code" where
  "each body [] k = k"
| "each body (x # xs) k = body x (each body xs k)"

named_theorems runs

lemma run_act [runs, simp]: "run_code (act f k) s = run_code k (f s)"
  by (simp add: act_def)

lemma run_ask [runs, simp]: "run_code (ask g k) s = run_code (k (fst (g s))) (snd (g s))"
  by (simp add: ask_def)

lemma run_each:
  assumes "\<And>x k s. P s \<Longrightarrow> run_code (body x k) s = run_code k (f x s)" "\<And>x s. P s \<Longrightarrow> P (f x s)" "P s"
  shows "run_code (each body xs k) s = run_code k (fold f xs s)"
  using assms(3) by (induction xs arbitrary: s) (simp_all add: assms(1,2))

subsection \<open>Systems of threads\<close>

text \<open>The shared state and what each thread has left of the round it is in. A thread that is between two rounds
  may begin any of its rounds; a thread in a round may make its next step; nothing else happens, but for what the
  environment does to the state.\<close>

inductive moves :: "('t \<Rightarrow> 's code \<Rightarrow> bool) \<Rightarrow> ('s \<Rightarrow> 's \<Rightarrow> bool) \<Rightarrow> 's \<times> ('t \<Rightarrow> 's code) \<Rightarrow> 's \<times> ('t \<Rightarrow> 's code) \<Rightarrow> bool"
  for rounds env where
  fresh: "th t = Done \<Longrightarrow> rounds t p \<Longrightarrow> moves rounds env (s, th) (s, th(t := p))"
| advance: "th t = Step f \<Longrightarrow> f s = (s', p) \<Longrightarrow> moves rounds env (s, th) (s', th(t := p))"
| outside: "env s s' \<Longrightarrow> moves rounds env (s, th) (s', th)"

inductive_cases movesE: "moves rounds env (s, th) u"

text \<open>A round that nobody interrupts.\<close>

lemma run_alone:
  "th t = p \<Longrightarrow> (moves rounds env)\<^sup>*\<^sup>* (s, th) (run_code p s, th(t := Done))"
proof (induction p arbitrary: s th)
  case Done
  then show ?case by (simp add: fun_upd_idem)
next
  case (Step f)
  let ?th = "th(t := snd (f s))"
  have "moves rounds env (s, th) (fst (f s), ?th)"
    using Step.prems by (intro advance) simp_all
  moreover have "(moves rounds env)\<^sup>*\<^sup>* (fst (f s), ?th) (run_code (snd (f s)) (fst (f s)), ?th(t := Done))"
    by (rule Step.IH [of "f s" "snd (f s)"]) (auto simp: prod_set_defs)
  ultimately have "(moves rounds env)\<^sup>*\<^sup>* (s, th) (run_code (snd (f s)) (fst (f s)), ?th(t := Done))"
    by (rule converse_rtranclp_into_rtranclp)
  then show ?case
    by (simp only: run_Step fun_upd_upd)
qed

lemma round_alone:
  assumes "th t = Done" "rounds t p"
  shows "(moves rounds env)\<^sup>*\<^sup>* (s, th) (run_code p s, th)"
proof -
  have "moves rounds env (s, th) (s, th(t := p))"
    using assms by (rule fresh)
  moreover have "(moves rounds env)\<^sup>*\<^sup>* (s, th(t := p)) (run_code p s, (th(t := p))(t := Done))"
    by (rule run_alone) simp
  ultimately have "(moves rounds env)\<^sup>*\<^sup>* (s, th) (run_code p s, (th(t := p))(t := Done))"
    by (rule converse_rtranclp_into_rtranclp)
  then show ?thesis
    using assms(1) by (simp add: fun_upd_idem)
qed

subsection \<open>Interface: threads that respect a shared state\<close>

text \<open>Code conforms when each of its steps, begun in a state that satisfies the invariant, keeps the invariant and
  meets the guarantee, whatever other threads do between the steps.\<close>

inductive conforms :: "('s \<Rightarrow> bool) \<Rightarrow> ('s \<Rightarrow> 's \<Rightarrow> 's code \<Rightarrow> bool) \<Rightarrow> 's code \<Rightarrow> bool" for I guar where
  conforms_Done: "conforms I guar Done"
| conforms_Step: "(\<And>s. I s \<Longrightarrow> I (fst (f s)) \<and> guar s (fst (f s)) (snd (f s)) \<and> conforms I guar (snd (f s)))
     \<Longrightarrow> conforms I guar (Step f)"

inductive_cases conforms_StepE: "conforms I guar (Step f)"

lemma conforms_act:
  "(\<And>s. I s \<Longrightarrow> I (f s) \<and> guar s (f s) k) \<Longrightarrow> conforms I guar k \<Longrightarrow> conforms I guar (act f k)"
  by (simp add: act_def conforms_Step)

lemma conforms_ask:
  "(\<And>s. I s \<Longrightarrow> I (snd (g s)) \<and> guar s (snd (g s)) (k (fst (g s))) \<and> conforms I guar (k (fst (g s))))
   \<Longrightarrow> conforms I guar (ask g k)"
  by (simp add: ask_def conforms_Step)

lemma conforms_each:
  assumes "\<And>x k. x \<in> set xs \<Longrightarrow> conforms I guar k \<Longrightarrow> conforms I guar (body x k)" "conforms I guar k"
  shows "conforms I guar (each body xs k)"
  using assms by (induction xs) simp_all

text \<open>The guarantee may speak of the threads: \<open>pend\<close> is a property of the state and the code of all threads that
  every step with the guarantee preserves.\<close>

locale shared_state =
  fixes inv :: "'s \<Rightarrow> bool"
    and guar :: "'s \<Rightarrow> 's \<Rightarrow> 's code \<Rightarrow> bool"
    and rounds :: "'t \<Rightarrow> 's code \<Rightarrow> bool"
    and env :: "'s \<Rightarrow> 's \<Rightarrow> bool"
    and pend :: "'s \<Rightarrow> ('t \<Rightarrow> 's code) \<Rightarrow> bool"
  assumes rounds_conform: "rounds t p \<Longrightarrow> conforms inv guar p"
    and env_inv: "inv s \<Longrightarrow> env s s' \<Longrightarrow> inv s'"
    and pend_begin: "pend s th \<Longrightarrow> th t = Done \<Longrightarrow> pend s (th(t := p))"
    and pend_move: "pend s th \<Longrightarrow> inv s \<Longrightarrow> th t = Step f \<Longrightarrow> guar s (fst (f s)) (snd (f s)) \<Longrightarrow>
      pend (fst (f s)) (th(t := snd (f s)))"
    and pend_env: "pend s th \<Longrightarrow> inv s \<Longrightarrow> env s s' \<Longrightarrow> pend s' th"
begin

definition fine :: "'s \<times> ('t \<Rightarrow> 's code) \<Rightarrow> bool" where
  "fine u \<longleftrightarrow> inv (fst u) \<and> pend (fst u) (snd u) \<and> (\<forall>t. conforms inv guar (snd u t))"

lemma fine_move: "fine u \<Longrightarrow> moves rounds env u v \<Longrightarrow> fine v"
proof -
  assume u: "fine u" and m: "moves rounds env u v"
  from m show "fine v"
  proof cases
    case (fresh th t p s)
    with u show ?thesis
      using rounds_conform pend_begin [of s th t p] by (auto simp: fine_def)
  next
    case (advance th t f s s' p)
    then have c: "conforms inv guar (Step f)" and s: "inv s" "pend s th"
      using u by (auto simp: fine_def) metis
    from c have "inv s' \<and> guar s s' p \<and> conforms inv guar p"
      using s(1) advance by (elim conforms_StepE) fastforce
    with u advance show ?thesis
      using pend_move [of s th t f] by (auto simp: fine_def)
  next
    case (outside s s' th)
    with u show ?thesis
      using env_inv pend_env by (auto simp: fine_def)
  qed
qed

end

sublocale shared_state \<subseteq> interleaved: invariant_system "\<lambda>u. inv (fst u) \<and> pend (fst u) (snd u) \<and> (\<forall>t. snd u t = Done)" "moves rounds env" fine
proof
  show "fine u" if "inv (fst u) \<and> pend (fst u) (snd u) \<and> (\<forall>t. snd u t = Done)" for u
    using that by (simp add: fine_def conforms_Done)
  show "fine v" if "fine u" "moves rounds env u v" for u v
    using that by (rule fine_move)
qed

end
