(* ===== verification/Node_Code.thy ===== *)
theory Node_Code
  imports Interleaving Node_Invariant
begin

text \<open>
  The code of a node cut into the steps that no other thread can come between: the calls of the tables, the queue
  and the neighbour list, which take a lock, the reading of a clock, the counter of request ids, a log line, and at the
  Redis socket the sending of one command and the reading of one reply. Every handler and every round has its code here
  next to its function in \<^verbatim>\<open>Node_Handlers\<close> and \<^verbatim>\<open>Node_Tasks\<close>, and \<^verbatim>\<open>Node_Alone\<close> shows that the two agree when
  nothing interferes. The Redis client has no lock; a step for a whole command and one for a whole reply are the coarsest
  that its code allows. The table of seen requests has no lock either: its calls are steps here as if
  they did not overlap, since what C++ does when they do is undefined. The configuration never changes and is a parameter.
\<close>

subsection \<open>Pieces\<close>

type_synonym 'w node_code = "'w node_sys code"

definition on_world :: "('w \<Rightarrow> 'a \<times> 'w) \<Rightarrow> 'w node_sys \<Rightarrow> 'a \<times> 'w node_sys" where
  "on_world g s = (fst (g (net_world s)), s\<lparr>net_world := snd (g (net_world s))\<rparr>)"

definition note_code :: "log_level \<Rightarrow> string \<Rightarrow> 'w node_code \<Rightarrow> 'w node_code" where
  "note_code level line k = act (log_line level line) k"

text \<open>Redis: a command is sent, a reply is read.\<close>

definition redis_command :: "('w, 'y) node_os_scheme \<Rightarrow> string list \<Rightarrow> 'w node_sys \<Rightarrow> string option \<times> 'w node_sys" where
  "redis_command os args s = on_world (send_command (os_redis_send os) (nd_redis s) args) s"

definition redis_reply :: "('w, 'y) node_os_scheme \<Rightarrow> 'w node_sys \<Rightarrow> (string + resp_value) \<times> 'w node_sys" where
  "redis_reply os s = on_world (\<lambda>w. the (read_resp (os_redis_recv os) w)) s"

definition get_result :: "string + resp_value \<Rightarrow> string option \<times> string option" where
  "get_result r = (case r of
       Inl e \<Rightarrow> (None, Some e)
     | Inr resp \<Rightarrow>
         if rv_type resp = CHR ''$'' then (if rv_is_null resp then None else Some (rv_payload resp), None)
         else if rv_type resp = CHR ''-'' then (None, Some (''redis error: '' @ rv_payload resp))
         else (None, None))"

definition set_result :: "string + resp_value \<Rightarrow> string option" where
  "set_result r = (case r of
       Inl e \<Rightarrow> Some e
     | Inr resp \<Rightarrow> if rv_type resp = CHR ''-'' then Some (''redis error: '' @ rv_payload resp) else None)"

definition get_code :: "('w, 'y) node_os_scheme \<Rightarrow> string \<Rightarrow> (string option \<times> string option \<Rightarrow> 'w node_code) \<Rightarrow> 'w node_code" where
  "get_code os key k = ask (redis_command os [''GET'', key]) (\<lambda>r. case r of
       Some e \<Rightarrow> k (None, Some e)
     | None \<Rightarrow> ask (redis_reply os) (\<lambda>resp. k (get_result resp)))"

definition set_code :: "('w, 'y) node_os_scheme \<Rightarrow> string \<Rightarrow> string \<Rightarrow> (string option \<Rightarrow> 'w node_code) \<Rightarrow> 'w node_code" where
  "set_code os key val k = ask (redis_command os [''SET'', key, val]) (\<lambda>r. case r of
       Some e \<Rightarrow> k (Some e)
     | None \<Rightarrow> ask (redis_reply os) (\<lambda>resp. k (set_result resp)))"

text \<open>The lookup with its warning, as the handlers have it.\<close>

definition found_code :: "(string option \<Rightarrow> 'w node_code) \<Rightarrow> string option \<times> string option \<Rightarrow> 'w node_code" where
  "found_code k r = (case snd r of
       None \<Rightarrow> k (fst r)
     | Some e \<Rightarrow> note_code Warn (''redis get error: '' @ e) (k (fst r)))"

definition lookup_code :: "('w, 'y) node_os_scheme \<Rightarrow> string \<Rightarrow> (string option \<Rightarrow> 'w node_code) \<Rightarrow> 'w node_code" where
  "lookup_code os key k = get_code os key (found_code k)"

definition insert_local :: "string \<Rightarrow> 'w node_sys \<Rightarrow> 'w node_sys" where
  "insert_local key s = s\<lparr>nd_local_keys := List.insert key (nd_local_keys s)\<rparr>"

definition advertise_key :: "string \<Rightarrow> 'w node_sys \<Rightarrow> 'w node_sys" where
  "advertise_key key s = s\<lparr>nd_content := add_local_key key (nd_content s)\<rparr>"

definition record_code :: "string \<Rightarrow> 'w node_code \<Rightarrow> 'w node_code" where
  "record_code key k = act (insert_local key) (act (advertise_key key) k)"

definition next_count :: "'w node_sys \<Rightarrow> u64 \<times> 'w node_sys" where
  "next_count s = (nd_counter s, s\<lparr>nd_counter := nd_counter s + 1\<rparr>)"

definition id_code :: "('w, 'y) node_os_scheme \<Rightarrow> config \<Rightarrow> (string \<Rightarrow> 'w node_code) \<Rightarrow> 'w node_code" where
  "id_code os c k = ask (on_world (os_wall_ms os)) (\<lambda>millis. ask next_count (\<lambda>n.
     k (node_id c @ ''-'' @ show_int millis @ ''-'' @ show_u64 n)))"

definition stats_code :: "(query_stats \<Rightarrow> 'w node_code) \<Rightarrow> 'w node_code" where
  "stats_code k = ask (\<lambda>s. (query_stats_of (nd_query s), s)) k"

subsection \<open>The queue\<close>

definition record_served_sync :: "string \<Rightarrow> string \<Rightarrow> 'w node_sys \<Rightarrow> (sync_update \<times> sync_stats) \<times> 'w node_sys" where
  "record_served_sync key origin s =
     (let (u, st) = record_destination key origin (nd_sync s) in ((u, sync_stats_of st), s\<lparr>nd_sync := st\<rparr>))"

definition served_code :: "string \<Rightarrow> string \<Rightarrow> string \<Rightarrow> 'w node_code \<Rightarrow> 'w node_code" where
  "served_code key origin line k = ask (record_served_sync key origin) (\<lambda>(u, st).
     note_code Info line (note_code Info (sync_update_line key origin u st) k))"

fun ok_code :: "closure \<Rightarrow> 'w node_code \<Rightarrow> 'w node_code" where
  "ok_code (ServeDone rid key origin from_label stats) k =
     served_code key origin (served_line (ServeDone rid key origin from_label stats)) k"
| "ok_code (QbfServeDone rid key origin bf_id age from_label) k =
     served_code key origin (served_line (QbfServeDone rid key origin bf_id age from_label)) k"

definition success_code :: "(closure, failure_closure) fq_item \<Rightarrow> 'w node_code \<Rightarrow> 'w node_code" where
  "success_code item k = (case fi_success item of None \<Rightarrow> k | Some cb \<Rightarrow> ok_code cb k)"

definition failure_code :: "(closure, failure_closure) fq_item \<Rightarrow> string \<Rightarrow> 'w node_code \<Rightarrow> 'w node_code" where
  "failure_code item e k = (case fi_failure item of None \<Rightarrow> k | Some cb \<Rightarrow> act (node_err cb e) k)"

definition state_code :: "string \<Rightarrow> nat \<Rightarrow> 'w node_code \<Rightarrow> 'w node_code" where
  "state_code st depth k = act (log_state st depth) k"

definition push_item :: "(closure, failure_closure) fq_item \<Rightarrow> 'w node_sys \<Rightarrow> (bool \<times> nat) \<times> 'w node_sys" where
  "push_item item s = (let (accepted, q) = queue_push (fc_max_depth (fq_conf s)) item (fq_items s)
     in ((accepted, length q), s\<lparr>fq_items := q\<rparr>))"

definition enqueue_code :: "(closure, failure_closure) fq_item \<Rightarrow> 'w node_code \<Rightarrow> 'w node_code" where
  "enqueue_code item k = ask (push_item item) (\<lambda>(accepted, depth).
     if \<not> accepted then state_code ''drop_queue'' depth (failure_code item ''forward_queue_full'' k)
     else state_code ''queued'' depth k)"

definition direct_code :: "('w, 'y) node_os_scheme \<Rightarrow> (closure, failure_closure) fq_item \<Rightarrow> 'w node_code \<Rightarrow> 'w node_code" where
  "direct_code os item k = ask (Udp_Network.send_direct os (fi_addr item) (fi_msg item)) (\<lambda>r.
     case r of Some e \<Rightarrow> failure_code item e k | None \<Rightarrow> success_code item k)"

text \<open>Is the queue out of use?\<close>

definition bypass :: "'w node_sys \<Rightarrow> bool \<times> 'w node_sys" where
  "bypass s = (\<not> fc_enabled (fq_conf s) \<or> \<not> fq_started s, s)"

definition send_code :: "('w, 'y) node_os_scheme \<Rightarrow> sockaddr_in \<Rightarrow> message \<Rightarrow> closure option \<Rightarrow> failure_closure option
    \<Rightarrow> 'w node_code \<Rightarrow> 'w node_code" where
  "send_code os addr msg on_success on_failure k =
     (let item = \<lparr>fi_kind = Direct, fi_msg = msg, fi_addr = addr, fi_exclude = None,
                  fi_success = on_success, fi_failure = on_failure\<rparr>
      in ask bypass (\<lambda>direct. if direct then direct_code os item (state_code ''sent'' 0 k) else enqueue_code item k))"

definition broadcast_code :: "('w, 'y) node_os_scheme \<Rightarrow> message \<Rightarrow> sockaddr_in option \<Rightarrow> 'w node_code \<Rightarrow> 'w node_code" where
  "broadcast_code os msg exclude k =
     (let item = \<lparr>fi_kind = Broadcast, fi_msg = msg, fi_addr = zero_addr, fi_exclude = exclude,
                  fi_success = None, fi_failure = None\<rparr>
      in ask bypass (\<lambda>direct. if direct then act (Udp_Network.send_broadcast os msg exclude) (state_code ''sent'' 0 k)
                              else enqueue_code item k))"

text \<open>One turn of a worker.\<close>

definition pop_item :: "'w node_sys \<Rightarrow> ((closure, failure_closure) fq_item \<times> nat) option \<times> 'w node_sys" where
  "pop_item s = (case queue_pop (fq_items s) of
       None \<Rightarrow> (None, s)
     | Some (item, rest) \<Rightarrow> (Some (item, length rest), s\<lparr>fq_items := rest\<rparr>))"

definition worker_code :: "('w, 'y) node_os_scheme \<Rightarrow> 'w node_code" where
  "worker_code os = ask pop_item (\<lambda>taken. case taken of
       None \<Rightarrow> Done
     | Some (item, depth) \<Rightarrow>
         let k = state_code ''sent'' depth Done
         in case fi_kind item of
              Direct \<Rightarrow> direct_code os item k
            | Broadcast \<Rightarrow> act (Udp_Network.send_broadcast os (fi_msg item) (fi_exclude item)) k)"

subsection \<open>Handlers\<close>

definition dedupe_step :: "('w, 'y) node_os_scheme \<Rightarrow> string \<Rightarrow> 'w node_sys \<Rightarrow> bool \<times> 'w node_sys" where
  "dedupe_step os rid s =
     (let (now, s1) = read_steady os s; (stamp, s2) = read_steady os s1;
          (fresh, qt) = record_if_new now stamp rid (nd_query s2)
      in (fresh, s2\<lparr>nd_query := qt\<rparr>))"

definition serve_code :: "('w, 'y) node_os_scheme \<Rightarrow> config \<Rightarrow> message \<Rightarrow> sockaddr_in \<Rightarrow> string \<Rightarrow> 'w node_code" where
  "serve_code os c msg from val =
     (let resp = empty_message\<lparr>m_type := Data, m_request_id := m_request_id msg, m_origin := m_origin msg,
                   m_ttl := request_ttl c, m_key := m_key msg, m_value := val\<rparr>;
          from_label = addr_to_string from
      in record_code (m_key msg) (stats_code (\<lambda>st.
           send_code os from resp
             (Some (ServeDone (m_request_id resp) (m_key resp) (m_origin resp) from_label (query_stats_suffix st)))
             (Some (ServeFailed (m_request_id resp) (m_key resp) (m_origin resp) from_label)) Done)))"

definition request_found :: "('w, 'y) node_os_scheme \<Rightarrow> config \<Rightarrow> message \<Rightarrow> sockaddr_in \<Rightarrow> string option \<Rightarrow> 'w node_code" where
  "request_found os c msg from val = (case val of
       Some v \<Rightarrow> serve_code os c msg from v
     | None \<Rightarrow> note_code Debug (request_forward_line msg (m_ttl msg - 1) from)
                 (broadcast_code os (msg\<lparr>m_ttl := m_ttl msg - 1\<rparr>) (Some from) Done))"

definition request_code :: "('w, 'y) node_os_scheme \<Rightarrow> config \<Rightarrow> message \<Rightarrow> sockaddr_in \<Rightarrow> 'w node_code" where
  "request_code os c msg from =
     (case validate_fields msg of
        Some d \<Rightarrow> note_code Warn (request_drop_line d msg from) Done
      | None \<Rightarrow>
          case validate_ttl msg of
            Some d \<Rightarrow> note_code Info (request_drop_line d msg from) Done
          | None \<Rightarrow> ask (dedupe_step os (m_request_id msg)) (\<lambda>fresh.
              if \<not> fresh then stats_code (\<lambda>st. note_code Info (request_duplicate_line msg from st) Done)
              else lookup_code os (m_key msg) (request_found os c msg from)))"

definition cancel_step :: "message \<Rightarrow> 'w node_sys \<Rightarrow> 'w node_sys" where
  "cancel_step msg s = s\<lparr>nd_fallback := snd (cancel (m_key msg) (m_origin msg) (nd_fallback s))\<rparr>"

definition data_code :: "('w, 'y) node_os_scheme \<Rightarrow> config \<Rightarrow> message \<Rightarrow> sockaddr_in \<Rightarrow> 'w node_code" where
  "data_code os c msg from =
     (let d = data_run c msg; label = data_state_label (dd_state d)
      in case dd_state d of
           DataDropInvalid \<Rightarrow> note_code Warn (data_drop_line d msg from) Done
         | DropNotOrigin \<Rightarrow> note_code Info (''data_state='' @ label @ data_fields msg from @ '' at='' @ node_id c) Done
         | StoreLocal \<Rightarrow> set_code os (m_key msg) (m_value msg) (\<lambda>err. case err of
               Some e \<Rightarrow> note_code Warn (data_failed_line msg from e) Done
             | None \<Rightarrow> act (cancel_step msg) (record_code (m_key msg)
                 (note_code Info (''data_state='' @ label @ data_fields msg from) Done))))"

definition update_step :: "('w, 'y) node_os_scheme \<Rightarrow> sockaddr_in \<Rightarrow> bloom \<Rightarrow> 'w node_sys \<Rightarrow> 'w node_sys" where
  "update_step os from f s =
     (let (now, s1) = read_steady os s in s1\<lparr>nd_content := update_neighbor now from f (nd_content s1)\<rparr>)"

definition content_code :: "('w, 'y) node_os_scheme \<Rightarrow> config \<Rightarrow> message \<Rightarrow> sockaddr_in \<Rightarrow> 'w node_code" where
  "content_code os c msg from =
     (let from_origin = '' from='' @ addr_to_string from @ '' origin='' @ m_origin msg
      in if m_origin msg = []
         then note_code Warn (''bf_state=content_drop reason=missing_origin from='' @ addr_to_string from) Done
         else if m_key msg = []
         then note_code Warn (''bf_state=content_drop reason=missing_bloom'' @ from_origin) Done
         else case from_hex (size_of (content_bf_bits c)) (size_of (content_bf_hashes c)) (m_key msg) of
                None \<Rightarrow> note_code Warn (''bf_state=content_drop reason=bad_bloom'' @ from_origin) Done
              | Some f \<Rightarrow> act (update_step os from f) (ask (\<lambda>s. (neighbor_count (nd_content s), s)) (\<lambda>n.
                  note_code Info (content_update_line c msg from f n) Done)))"

definition qbf_key_code :: "('w, 'y) node_os_scheme \<Rightarrow> config \<Rightarrow> message \<Rightarrow> sockaddr_in \<Rightarrow> u64 \<Rightarrow> bloom \<Rightarrow> string
    \<Rightarrow> 'w node_code \<Rightarrow> 'w node_code" where
  "qbf_key_code os c msg from age f key k =
     (if \<not> maybe_contains f key then k
      else lookup_code os key (\<lambda>val. case val of
        None \<Rightarrow> k
      | Some v \<Rightarrow> id_code os c (\<lambda>rid.
          let resp = empty_message\<lparr>m_type := Data, m_request_id := rid, m_origin := m_origin msg,
                       m_ttl := request_ttl c, m_key := key, m_value := v\<rparr>;
              from_label = addr_to_string from
          in send_code os from resp
               (Some (QbfServeDone rid key (m_origin msg) (m_request_id msg) age from_label))
               (Some (QbfServeFailed rid key (m_origin msg) (m_request_id msg) from_label)) k)))"

definition allow_step :: "('w, 'y) node_os_scheme \<Rightarrow> message \<Rightarrow> bloom \<Rightarrow> 'w node_sys \<Rightarrow> bool \<times> 'w node_sys" where
  "allow_step os msg f s =
     (let (now, s1) = read_steady os s; (ok, l) = limiter_allow now (m_origin msg) (bloom_digest f) (nd_limiter s1)
      in (ok, s1\<lparr>nd_limiter := l\<rparr>))"

definition qbf_forward_code :: "('w, 'y) node_os_scheme \<Rightarrow> message \<Rightarrow> sockaddr_in \<Rightarrow> u64 \<Rightarrow> bloom \<Rightarrow> 'w node_code" where
  "qbf_forward_code os msg from age f =
     (let forward_ttl = m_ttl msg - 1
      in if forward_ttl \<le> 0 then note_code Info (qbf_ttl_line msg from) Done
         else ask (allow_step os msg f) (\<lambda>ok.
           if \<not> ok then note_code Info (qbf_limit_line msg from age) Done
           else note_code Info (qbf_forward_line msg forward_ttl from age f)
                  (broadcast_code os (msg\<lparr>m_ttl := forward_ttl\<rparr>) (Some from) Done)))"

text \<open>The checks at the head of the handler read one clock, so they are one step.\<close>

definition qbf_code :: "('w, 'y) node_os_scheme \<Rightarrow> config \<Rightarrow> message \<Rightarrow> sockaddr_in \<Rightarrow> 'w node_code" where
  "qbf_code os c msg from = ask (qbf_accept os msg from) (\<lambda>r. case r of
       Inl (level, line) \<Rightarrow> note_code level line Done
     | Inr (age, f) \<Rightarrow> ask (\<lambda>s. (nd_local_keys s, s)) (\<lambda>keys.
         each (qbf_key_code os c msg from age f) keys (qbf_forward_code os msg from age f)))"

definition wire_code :: "('w, 'y) node_os_scheme \<Rightarrow> config \<Rightarrow> string \<Rightarrow> sockaddr_in \<Rightarrow> 'w node_code" where
  "wire_code os c wire from =
     (case from_wire wire of
        None \<Rightarrow> note_code Warn (''received malformed message from '' @ addr_to_string from) Done
      | Some msg \<Rightarrow>
          (case m_type msg of
             Request \<Rightarrow> request_code os c msg from
           | Data \<Rightarrow> data_code os c msg from
           | ContentBloom \<Rightarrow> content_code os c msg from
           | QueryBloom \<Rightarrow> qbf_code os c msg from
           | Unknown \<Rightarrow> note_code Warn (''received unknown message type from '' @ addr_to_string from) Done))"

definition receive_code :: "('w, 'y) node_os_scheme \<Rightarrow> config \<Rightarrow> (string \<times> sockaddr_in) option \<Rightarrow> 'w node_code" where
  "receive_code os c received =
     (case received of
        None \<Rightarrow> Done
      | Some (datagram, from) \<Rightarrow>
          if take recv_limit datagram = [] then Done else wire_code os c (take recv_limit datagram) from)"

subsection \<open>Background rounds and own requests\<close>

definition exchange_code :: "('w, 'y) node_os_scheme \<Rightarrow> config \<Rightarrow> 'w node_code" where
  "exchange_code os c = ask (\<lambda>s. (local_snapshot (nd_content s), s)) (\<lambda>snapshot.
     note_code Debug (content_send_line c snapshot)
       (broadcast_code os (empty_message\<lparr>m_type := ContentBloom, m_origin := node_id c, m_ttl := content_bf_ttl_ms c,
          m_key := to_hex snapshot, m_value := []\<rparr>) None Done))"

definition aggregate_code :: "('w, 'y) node_os_scheme \<Rightarrow> config \<Rightarrow> string \<Rightarrow> string \<Rightarrow> 'w node_code \<Rightarrow> 'w node_code" where
  "aggregate_code os c origin key k = ask (node_add_key os origin key) (\<lambda>r.
     if ar_split r then note_code Info (split_line c r) k else k)"

definition fallback_key_code :: "('w, 'y) node_os_scheme \<Rightarrow> config \<Rightarrow> string \<times> string \<Rightarrow> 'w node_code \<Rightarrow> 'w node_code" where
  "fallback_key_code os c entry k =
     (case entry of (key, origin) \<Rightarrow> aggregate_code os c origin key (note_code Info (fallback_line key origin) k))"

definition take_due_step :: "('w, 'y) node_os_scheme \<Rightarrow> 'w node_sys \<Rightarrow> (string \<times> string) list \<times> 'w node_sys" where
  "take_due_step os s =
     (let (now, s1) = read_steady os s; (due, fb) = take_due now (nd_fallback s1) in (due, s1\<lparr>nd_fallback := fb\<rparr>))"

definition fallback_code :: "('w, 'y) node_os_scheme \<Rightarrow> config \<Rightarrow> 'w node_code" where
  "fallback_code os c = ask (take_due_step os) (\<lambda>due. each (fallback_key_code os c) due Done)"

definition batch_code :: "('w, 'y) node_os_scheme \<Rightarrow> config \<Rightarrow> u64 \<Rightarrow> qbf_batch \<Rightarrow> 'w node_code \<Rightarrow> 'w node_code" where
  "batch_code os c now_ms b k = note_code Info (batch_line c now_ms b) (broadcast_code os (batch_message c b) None k)"

definition flush_code :: "('w, 'y) node_os_scheme \<Rightarrow> config \<Rightarrow> 'w node_code" where
  "flush_code os c = ask (node_flush_due os) (\<lambda>batches. ask (now_millis os) (\<lambda>now_ms.
     each (batch_code os c now_ms) batches Done))"

definition reload_code :: "'w host_os \<Rightarrow> config \<Rightarrow> 'w node_code" where
  "reload_code os c =
     (if topology_reload_ms c \<le> 0 then Done
      else ask (\<lambda>s. (load_config_impl (os_getenv os (net_world s)) (os_read_file os (net_world s)) True, s)) (\<lambda>l.
        each (note_code Warn) (ld_warnings l)
          (if ld_error l \<noteq> [] then note_code Warn (reload_failed_line l) Done
           else act (set_topology (build_topology (ld_config l))) (note_code Info (reload_line l) Done))))"

definition select_step :: "('w, 'y) node_os_scheme \<Rightarrow> string \<Rightarrow> 'w node_sys \<Rightarrow> sockaddr_in option \<times> 'w node_sys" where
  "select_step os key s =
     (let (now, s1) = read_steady os s; (neighbor, ct) = select_neighbor now key (nd_content s1)
      in (neighbor, s1\<lparr>nd_content := ct\<rparr>))"

definition schedule_step :: "('w, 'y) node_os_scheme \<Rightarrow> message \<Rightarrow> 'w node_sys \<Rightarrow> 'w node_sys" where
  "schedule_step os req s =
     (let (now, s1) = read_steady os s
      in s1\<lparr>nd_fallback := snd (schedule now (m_key req) (m_origin req) (nd_fallback s1))\<rparr>)"

definition ask_neighbor_code :: "('w, 'y) node_os_scheme \<Rightarrow> config \<Rightarrow> message \<Rightarrow> 'w node_code" where
  "ask_neighbor_code os c req = ask (select_step os (m_key req)) (\<lambda>neighbor. case neighbor of
       Some a \<Rightarrow>
         note_code Info (direct_line req (addr_to_string a))
           (send_code os a req None (Some (DirectFailed (m_request_id req) (m_key req) (m_origin req) (addr_to_string a)))
              (act (schedule_step os req) Done))
     | None \<Rightarrow> aggregate_code os c (m_origin req) (m_key req) (note_code Info (aggregated_line req) Done))"

definition own_request_found :: "('w, 'y) node_os_scheme \<Rightarrow> config \<Rightarrow> string \<Rightarrow> string option \<Rightarrow> 'w node_code" where
  "own_request_found os c key val = (case val of
       Some v \<Rightarrow> record_code key (stats_code (\<lambda>st. id_code os c (\<lambda>rid.
           note_code Info (own_local_line c rid key st) Done)))
     | None \<Rightarrow> id_code os c (\<lambda>rid.
         let req = empty_message\<lparr>m_type := Request, m_request_id := rid, m_origin := node_id c,
                     m_ttl := request_ttl c, m_key := key\<rparr>
         in ask (dedupe_step os rid) (\<lambda>fresh. stats_code (\<lambda>st.
              note_code Info (originated_line req st) (ask_neighbor_code os c req)))))"

definition own_request_code :: "('w, 'y) node_os_scheme \<Rightarrow> config \<Rightarrow> string \<Rightarrow> 'w node_code" where
  "own_request_code os c key = lookup_code os key (own_request_found os c key)"

definition seed_code :: "('w, 'y) node_os_scheme \<Rightarrow> key_value \<Rightarrow> 'w node_code" where
  "seed_code os kv = set_code os (kv_key kv) (kv_value kv) (\<lambda>err. case err of
       Some e \<Rightarrow> note_code Warn (''seed failed for key '' @ kv_key kv @ '': '' @ e) Done
     | None \<Rightarrow> record_code (kv_key kv) (note_code Info (''seeded key '' @ kv_key kv) Done))"

end
