(* ===== verification/Node_Alone.thy ===== *)
theory Node_Alone
  imports Node_Code
begin

text \<open>
  The code of a node in steps, run without interruption, is the node of \<^verbatim>\<open>Node_Handlers\<close> and \<^verbatim>\<open>Node_Tasks\<close>: every
  function on the state has its code, and every round there is a possible run of the threads here. The one thing this
  asks of the host is that the reading of a reply ends.
\<close>

text \<open>The lines of the two sides are to be compared, so what they are made of is simplified in this theory, but not
  their literal texts.\<close>

declare log_line_cong [cong del] append.simps [simp del]

subsection \<open>Pieces\<close>

definition replies_end :: "('w, 'y) node_os_scheme \<Rightarrow> bool" where
  "replies_end os \<longleftrightarrow> (\<forall>w. read_resp (os_redis_recv os) w \<noteq> None)"

lemma run_note [simp]: "run_code (note_code l m k) s = run_code k (log_line l m s)"
  by (simp add: note_code_def)

lemma cache_get_steps:
  assumes "replies_end os"
  shows "cache_get os rc key w = (case send_command (os_redis_send os) rc [''GET'', key] w of
      (Some e, w1) \<Rightarrow> ((None, Some e), w1)
    | (None, w1) \<Rightarrow> (get_result (fst (the (read_resp (os_redis_recv os) w1))), snd (the (read_resp (os_redis_recv os) w1))))"
proof (cases "send_command (os_redis_send os) rc [''GET'', key] w")
  case (Pair r w1)
  moreover obtain x w2 where "read_resp (os_redis_recv os) w1 = Some (x, w2)"
    using assms unfolding replies_end_def by (metis not_None_eq surj_pair)
  ultimately show ?thesis
    by (auto simp: cache_get_def redis_get_def get_result_def split: option.splits sum.splits)
qed

lemma cache_set_steps:
  assumes "replies_end os"
  shows "cache_set os rc key val w = (case send_command (os_redis_send os) rc [''SET'', key, val] w of
      (Some e, w1) \<Rightarrow> (Some e, w1)
    | (None, w1) \<Rightarrow> (set_result (fst (the (read_resp (os_redis_recv os) w1))), snd (the (read_resp (os_redis_recv os) w1))))"
proof (cases "send_command (os_redis_send os) rc [''SET'', key, val] w")
  case (Pair r w1)
  moreover obtain x w2 where "read_resp (os_redis_recv os) w1 = Some (x, w2)"
    using assms unfolding replies_end_def by (metis not_None_eq surj_pair)
  ultimately show ?thesis
    by (auto simp: cache_set_def redis_set_def set_result_def split: option.splits sum.splits)
qed

lemma run_get:
  "replies_end os \<Longrightarrow> run_code (get_code os key k) s =
     run_code (k (fst (cache_get os (nd_redis s) key (net_world s)))) (s\<lparr>net_world := snd (cache_get os (nd_redis s) key (net_world s))\<rparr>)"
  by (simp add: get_code_def redis_command_def redis_reply_def on_world_def cache_get_steps split_beta split: option.splits)

lemma run_set:
  "replies_end os \<Longrightarrow> run_code (set_code os key val k) s =
     run_code (k (fst (cache_set os (nd_redis s) key val (net_world s)))) (s\<lparr>net_world := snd (cache_set os (nd_redis s) key val (net_world s))\<rparr>)"
  by (simp add: set_code_def redis_command_def redis_reply_def on_world_def cache_set_steps split_beta split: option.splits)

definition lookup :: "('w, 'y) node_os_scheme \<Rightarrow> string \<Rightarrow> 'w node_sys \<Rightarrow> string option \<times> 'w node_sys" where
  "lookup os key s = (let ((val, err), w) = cache_get os (nd_redis s) key (net_world s); s1 = s\<lparr>net_world := w\<rparr>
     in (val, case err of None \<Rightarrow> s1 | Some e \<Rightarrow> log_warn (''redis get error: '' @ e) s1))"

lemma run_lookup:
  "replies_end os \<Longrightarrow> run_code (lookup_code os key k) s = run_code (k (fst (lookup os key s))) (snd (lookup os key s))"
  by (simp add: lookup_code_def found_code_def run_get lookup_def split_beta Let_def split: option.splits)

lemma lookup_config [simp]: "nd_config (snd (lookup os key s)) = nd_config s"
  by (simp add: lookup_def split_beta Let_def split: option.splits)

lemma run_record [simp]: "run_code (record_code key k) s = run_code k (record_local_key key s)"
  by (simp add: record_code_def insert_local_def advertise_key_def record_local_key_def)

lemma run_id: "nd_config s = c \<Longrightarrow>
  run_code (id_code os c k) s = run_code (k (fst (make_request_id os s))) (snd (make_request_id os s))"
  by (simp add: id_code_def on_world_def next_count_def make_request_id_def split_beta Let_def)

lemma run_stats [simp]: "run_code (stats_code k) s = run_code (k (query_stats_of (nd_query s))) s"
  by (simp add: stats_code_def)

subsection \<open>The queue\<close>

lemma run_ok [simp]: "run_code (ok_code cb k) s = run_code k (node_ok cb s)"
  by (cases cb) (simp_all add: served_code_def record_served_sync_def record_served_def split_beta Let_def
      del: served_line.simps)

lemma run_success_code [simp]: "run_code (success_code item k) s = run_code k (run_success node_ok item s)"
  by (simp add: success_code_def run_success_def split: option.splits)

lemma run_failure_code [simp]: "run_code (failure_code item e k) s = run_code k (run_failure node_err item e s)"
  by (simp add: failure_code_def run_failure_def split: option.splits)

lemma run_state [simp]: "run_code (state_code st d k) s = run_code k (log_state st d s)"
  by (simp add: state_code_def)

lemma run_enqueue [simp]: "run_code (enqueue_code item k) s = run_code k (snd (enqueue node_err item s))"
  by (simp add: enqueue_code_def push_item_def enqueue_def queue_push_def)

lemma run_direct_code [simp]: "run_code (direct_code os item k) s = run_code k (snd (run_direct os node_ok node_err item s))"
  by (simp add: direct_code_def run_direct_def split_beta split: option.splits)

lemma run_send [simp]:
  "run_code (send_code os addr msg a b k) s = run_code k (snd (fq_send_direct os node_ok node_err addr msg a b s))"
  by (simp add: send_code_def bypass_def fq_send_direct_def Let_def split_beta)

lemma run_broadcast [simp]:
  "run_code (broadcast_code os msg ex k) s = run_code k (snd (fq_send_broadcast os node_err msg ex s))"
  by (simp add: broadcast_code_def bypass_def fq_send_broadcast_def Let_def)

lemma run_worker: "run_code (worker_code os) s = snd (worker_turn os node_ok node_err s)"
  by (simp add: worker_code_def pop_item_def worker_turn_def process_item_def split_beta Let_def
      split: option.splits item_kind.splits)

subsection \<open>Handlers\<close>

lemma pipeline_lookup: "validate_fields msg = None \<Longrightarrow> validate_ttl msg = None \<Longrightarrow>
  run_request_pipeline os msg s =
    (if \<not> fst (dedupe_step os (m_request_id msg) s)
     then (make_drop_decision DropDuplicate ''duplicate_request_id'', snd (dedupe_step os (m_request_id msg) s))
     else let (val, t) = lookup os (m_key msg) (snd (dedupe_step os (m_request_id msg) s))
          in (case val of Some v \<Rightarrow> make_serve_decision v | None \<Rightarrow> make_forward_decision (m_ttl msg - 1), t))"
  by (simp add: run_request_pipeline_def request_run_def dedupe_request_def dedupe_step_def read_steady_def
      check_cache_def lookup_def split_beta Let_def split: option.split)

lemma decision_simps [simp]:
  "rd_state (make_drop_decision st reason) = st" "rd_state (make_serve_decision v) = ServeLocal"
  "rd_value (make_serve_decision v) = Some v" "rd_state (make_forward_decision ttl) = Forward"
  "rd_forward_ttl (make_forward_decision ttl) = ttl"
  by (simp_all add: make_drop_decision_def make_serve_decision_def make_forward_decision_def request_decision_new_def)

lemma dedupe_step_config [simp]: "nd_config (snd (dedupe_step os rid s)) = nd_config s"
  by (simp add: dedupe_step_def read_steady_def split_beta Let_def)

lemma run_serve: "nd_config s = c \<Longrightarrow> run_code (serve_code os c msg src v) s = serve_request os msg src (Some v) s"
  by (simp add: serve_code_def serve_request_def Let_def)

lemma validate_drops:
  "validate_fields msg = Some d \<Longrightarrow> rd_state d = DropInvalid" "validate_ttl msg = Some d \<Longrightarrow> rd_state d = DropTtl"
  by (auto simp: validate_fields_def validate_ttl_def split: if_splits)

lemma run_request:
  assumes "replies_end os" "nd_config s = c"
  shows "run_code (request_code os c msg src) s = handle_request os msg src s"
proof (cases "validate_fields msg")
  case (Some d)
  then show ?thesis
    by (simp add: request_code_def handle_request_def run_request_pipeline_def request_run_def validate_drops(1))
next
  case None
  note fields = None
  show ?thesis
  proof (cases "validate_ttl msg")
    case (Some d)
    then show ?thesis
      by (simp add: fields request_code_def handle_request_def run_request_pipeline_def request_run_def validate_drops(2))
  next
    case None
    then show ?thesis
      by (simp add: fields request_code_def request_found_def handle_request_def pipeline_lookup run_lookup assms run_serve
          forward_request_def split_beta Let_def split: option.splits)
  qed
qed

lemma run_data:
  assumes "replies_end os" "nd_config s = c"
  shows "run_code (data_code os c msg src) s = handle_data os msg src s"
proof (cases "dd_state (data_run c msg)")
  case StoreLocal
  then show ?thesis
    using assms(2) by (cases "cache_set os (nd_redis s) (m_key msg) (m_value msg) (net_world s)";
        cases "fst (cache_set os (nd_redis s) (m_key msg) (m_value msg) (net_world s))")
      (simp_all add: data_code_def handle_data_def run_set assms(1) cancel_step_def Let_def)
qed (simp_all add: data_code_def handle_data_def assms(2) Let_def)

lemma run_content: "nd_config s = c \<Longrightarrow> run_code (content_code os c msg src) s = handle_content_bloom os msg src s"
  by (simp add: content_code_def handle_content_bloom_def update_step_def read_steady_def split_beta Let_def split: option.splits)

lemma run_qbf_key:
  assumes "replies_end os" "nd_config s = c"
  shows "run_code (qbf_key_code os c msg src age f key k) s = run_code k (qbf_serve_key os msg src age f key s)"
proof -
  have "qbf_serve_key os msg src age f key s =
     (if \<not> maybe_contains f key then s
      else case fst (lookup os key s) of None \<Rightarrow> snd (lookup os key s)
      | Some v \<Rightarrow> let (rid, s3) = make_request_id os (snd (lookup os key s));
            resp = empty_message\<lparr>m_type := Data, m_request_id := rid, m_origin := m_origin msg,
                               m_ttl := request_ttl (nd_config s3), m_key := key, m_value := v\<rparr>;
                      from_label = addr_to_string src
                  in snd (fq_send_direct os node_ok node_err src resp
                       (Some (QbfServeDone rid key (m_origin msg) (m_request_id msg) age from_label))
                       (Some (QbfServeFailed rid key (m_origin msg) (m_request_id msg) from_label)) s3))"
    by (simp add: qbf_serve_key_def lookup_def split_beta Let_def split: option.splits)
  moreover have "nd_config (snd (make_request_id os t)) = nd_config t" for t
    by (simp add: make_request_id_def split_beta Let_def)
  ultimately show ?thesis
    using assms(2) by (simp add: qbf_key_code_def run_lookup assms(1) run_id split_beta Let_def split: option.splits)
qed

lemma run_qbf_forward: "run_code (qbf_forward_code os msg src age f) s = qbf_forward os msg src age f s"
  by (simp add: qbf_forward_code_def qbf_forward_def allow_step_def split_beta Let_def)

lemma run_qbf:
  assumes "replies_end os" "nd_config s = c"
  shows "run_code (qbf_code os c msg src) s = handle_query_bloom os msg src s"
proof (cases "qbf_accept os msg src s")
  case (Pair r s1)
  have s1: "nd_config s1 = c"
    using qbf_accept_frame(2) [of s os msg src] Pair assms(2) by (simp add: same_tables_def)
  have "run_code (each (qbf_key_code os c msg src age f) keys k) s1 = run_code k (fold (qbf_serve_key os msg src age f) keys s1)"
    for age f keys k
    by (rule run_each [where P = "\<lambda>s. nd_config s = c"]) (simp_all add: run_qbf_key assms(1) qbf_serve_key_config s1)
  then show ?thesis
    using Pair by (simp add: qbf_code_def handle_query_bloom_def run_qbf_forward split_beta split: sum.splits)
qed

lemma run_wire:
  assumes "replies_end os" "nd_config s = c"
  shows "run_code (wire_code os c wire src) s = handle_wire_message os wire src s"
  using assms by (simp add: wire_code_def handle_wire_message_def run_request run_data run_content run_qbf
      split: option.splits message_type.splits)

lemma run_receive:
  assumes "replies_end os" "nd_config s = c"
  shows "run_code (receive_code os c received) s = receive_round (handle_wire_message os) received s"
  using assms by (simp add: receive_code_def receive_round_def run_wire split: option.splits)

subsection \<open>Background rounds and own requests\<close>

lemma run_exchange: "nd_config s = c \<Longrightarrow> run_code (exchange_code os c) s = content_exchange_round os s"
  by (simp add: exchange_code_def content_exchange_round_def Let_def)

lemma run_aggregate: "nd_config s = c \<Longrightarrow> run_code (aggregate_code os c org key k) s = run_code k (aggregate_key os org key s)"
  by (simp add: aggregate_code_def aggregate_key_def split_beta Let_def)

lemma run_fallback: "nd_config s = c \<Longrightarrow> run_code (fallback_code os c) s = fallback_round os s"
proof -
  assume c: "nd_config s = c"
  have "run_code (each (fallback_key_code os c) due Done) t = run_code Done (fold (fallback_key os) due t)"
    if "nd_config t = c" for due t
    by (rule run_each [where P = "\<lambda>s. nd_config s = c"])
      (simp_all add: fallback_key_code_def fallback_key_def run_aggregate that split: prod.splits)
  moreover have "nd_config (snd (take_due_step os s)) = c"
    using c by (simp add: take_due_step_def read_steady_def split_beta Let_def)
  ultimately show ?thesis
    by (simp add: fallback_code_def fallback_round_def take_due_step_def split_beta Let_def)
qed

lemma run_flush: "nd_config s = c \<Longrightarrow> run_code (flush_code os c) s = flush_round os s"
proof -
  assume c: "nd_config s = c"
  have "run_code (each (batch_code os c now) bs Done) t = run_code Done (fold (send_batch os now) bs t)"
    if "nd_config t = c" for now bs t
    by (rule run_each [where P = "\<lambda>s. nd_config s = c"]) (simp_all add: batch_code_def send_batch_def Let_def that)
  moreover have "nd_config (snd (now_millis os (snd (node_flush_due os s)))) = c"
    using c by (simp add: node_flush_due_def read_steady_def now_millis_def split_beta Let_def)
  ultimately show ?thesis
    by (simp add: flush_code_def flush_round_def split_beta Let_def)
qed

lemma run_warnings: "run_code (each (note_code Warn) ws k) s = run_code k (fold log_warn ws s)"
  by (rule run_each [where P = "\<lambda>_. True"]) simp_all

lemma run_reload: "nd_config s = c \<Longrightarrow> run_code (reload_code os c) s = reload_round os s"
  by (simp add: reload_code_def reload_round_def run_warnings Let_def)

lemma originate_steps:
  "originate os key s = (let (rid, s1) = make_request_id os s;
     req = empty_message\<lparr>m_type := Request, m_request_id := rid, m_origin := node_id (nd_config s),
                  m_ttl := request_ttl (nd_config s), m_key := key\<rparr>;
     s2 = snd (dedupe_step os rid s1);
     (neighbor, s3) = select_step os key (log_info (originated_line req (query_stats_of (nd_query s2))) s2)
   in (req, neighbor, s3))"
  by (simp add: originate_def dedupe_step_def select_step_def make_request_id_def read_steady_def split_beta Let_def)

lemma run_own_request:
  assumes "replies_end os" "nd_config s = c"
  shows "run_code (own_request_code os c key) s = request_key os key s"
proof -
  have config: "nd_config (snd (make_request_id os t)) = nd_config t" "nd_config (snd (select_step os key t)) = nd_config t" for t
    by (simp_all add: make_request_id_def select_step_def read_steady_def split_beta Let_def)
  have step: "request_key os key s = (case lookup os key s of
      (Some v, s2) \<Rightarrow> let s3 = record_local_key key s2; stats = query_stats_of (nd_query s3); (rid, s4) = make_request_id os s3
             in log_info (own_local_line (nd_config s2) rid key stats) s4
    | (None, s2) \<Rightarrow> let (req, neighbor, s9) = originate os key s2
             in case neighbor of Some a \<Rightarrow> request_direct os req a s9 | None \<Rightarrow> request_aggregated os req s9)"
    by (simp add: request_key_def lookup_def split_beta Let_def split: option.splits)
  have recorded: "nd_config (record_local_key key t) = nd_config t" for t
    by (simp add: record_local_key_def)
  show ?thesis
    unfolding step own_request_code_def own_request_found_def
    using assms(2) by (simp add: run_lookup assms(1) run_id config recorded originate_steps ask_neighbor_code_def
        request_direct_def request_aggregated_def run_aggregate schedule_step_def split_beta Let_def split: option.splits)
qed

lemma run_seed: "replies_end os \<Longrightarrow> run_code (seed_code os kv) s = seed_key os kv s"
  by (simp add: seed_code_def seed_key_def run_set split_beta split: option.splits)

declare log_line_cong [cong] append.simps [simp]

end
