(* ===== verification/Node_Interleaving.thy ===== *)
theory Node_Interleaving
  imports Node_Alone Node_Frame
begin

text \<open>
  The threads of a node with all their interleavings. \<^verbatim>\<open>Node_Tasks\<close> lets whole rounds follow each other; here the
  steps of the rounds mix in any order, from the moment that \<^verbatim>\<open>run\<close> has started the receive loop: the seeding of the
  cache, the handling of datagrams, the workers, the background rounds and the node's own requests. The invariant of
  the tables holds after every step, and a local key that is not in the advertised filter yet is in the hands
  of the thread that is about to add it.
\<close>

subsection \<open>Threads\<close>

datatype node_thread = Seeder | Receiver | Worker nat | Exchanger | Fallbacks | Flusher | Reloader | Requester

fun node_rounds :: "'w host_os \<Rightarrow> config \<Rightarrow> node_thread \<Rightarrow> 'w node_code \<Rightarrow> bool" where
  "node_rounds os c Seeder p \<longleftrightarrow> (\<exists>kv \<in> set (seed_keys c). p = seed_code os kv)"
| "node_rounds os c Receiver p \<longleftrightarrow> (\<exists>received. p = receive_code os c received)"
| "node_rounds os c (Worker n) p \<longleftrightarrow> p = worker_code os"
| "node_rounds os c Exchanger p \<longleftrightarrow> p = exchange_code os c"
| "node_rounds os c Fallbacks p \<longleftrightarrow> p = fallback_code os c"
| "node_rounds os c Flusher p \<longleftrightarrow> p = flush_code os c"
| "node_rounds os c Reloader p \<longleftrightarrow> p = reload_code os c"
| "node_rounds os c Requester p \<longleftrightarrow> (\<exists>key. p = own_request_code os c key)"

definition node_stop :: "'w node_sys \<Rightarrow> 'w node_sys \<Rightarrow> bool" where
  "node_stop s t \<longleftrightarrow> t = s\<lparr>sys_running := False\<rparr>"

definition node_moves :: "'w host_os \<Rightarrow> config \<Rightarrow> 'w node_sys \<times> (node_thread \<Rightarrow> 'w node_code)
    \<Rightarrow> 'w node_sys \<times> (node_thread \<Rightarrow> 'w node_code) \<Rightarrow> bool" where
  "node_moves os c = moves (node_rounds os c) node_stop"

definition all_idle :: "node_thread \<Rightarrow> 'w node_code" where
  "all_idle t = Done"

text \<open>\<^verbatim>\<open>main\<close> and \<^verbatim>\<open>run\<close> up to where the first thread may begin: the receive loop runs before the cache is seeded.\<close>

definition node_open :: "'w host_os \<Rightarrow> 'w node_sys \<Rightarrow> bool \<times> 'w node_sys" where
  "node_open os s =
     (case transport_start os s of
        (Some e, s1) \<Rightarrow> (False, log_error (''udp transport start failed: '' @ e) s1)
      | (None, s1) \<Rightarrow>
          let c = nd_config s1;
              s2 = log_info (''node '' @ node_id c @ '' listening on '' @ bind_ip c @ '':'' @ show_int (bind_port c))
                     (log_info (''config '' @ config_summary c) s1)
          in (True, snd (fq_start (s2\<lparr>sys_running := True\<rparr>))))"

definition main_open :: "'w host_os \<Rightarrow> 'w \<Rightarrow> bool \<times> 'w node_sys" where
  "main_open os w =
     (let l = load_config_impl (os_getenv os w) (os_read_file os w) False;
          c = ld_config l;
          level = (if log_level c \<noteq> [] then parse_log_level (log_level c) else Info);
          s = (node_new c level w)\<lparr>lg_lines := map (Pair Warn) (ld_warnings l)\<rparr>
      in case node_init os s of
           (Some e, s1) \<Rightarrow> (False, log_error (''node init failed: '' @ e) s1)
         | (None, s1) \<Rightarrow> node_open os s1)"

lemma node_run_open: "node_run os s = (let (up, t) = node_open os s in (up, if up then seed_cache os t else t))"
  by (simp add: node_run_def node_open_def Let_def split_beta split: option.splits)

lemma node_main_open: "node_main os w = (let (up, t) = main_open os w in (up, if up then seed_cache os t else t))"
  unfolding node_main_def main_open_def Let_def
  by (simp add: split_beta node_run_open Let_def del: append.simps split: option.split)

lemma node_open_inv: "node_inv s \<Longrightarrow> node_inv (snd (node_open os s))"
proof -
  assume "node_inv s"
  moreover have "net_sys.more (snd (transport_start os s)) = net_sys.more s"
    by (auto simp: transport_start_def Let_def split: prod.splits option.splits)
  ultimately have "node_inv (snd (transport_start os s))"
    using node_inv_more by blast
  then show ?thesis
    by (auto simp: node_open_def Let_def fq_start_def split: prod.splits option.splits)
qed

lemma node_init_valid: "node_init os s = (None, t) \<Longrightarrow> config_valid (nd_config s)"
  by (cases "validate_config (nd_config s)") (simp_all add: node_init_def validate_config_None)

lemma main_open_inv:
  assumes "main_open os w = (True, s)"
  shows "node_inv s"
proof -
  let ?l = "load_config_impl (os_getenv os w) (os_read_file os w) False"
  let ?s0 = "(node_new (ld_config ?l) (if log_level (ld_config ?l) \<noteq> [] then parse_log_level (log_level (ld_config ?l)) else Info) w)
      \<lparr>lg_lines := map (Pair Warn) (ld_warnings ?l)\<rparr>"
  obtain s1 where init: "node_init os ?s0 = (None, s1)" and run: "node_open os s1 = (True, s)"
    using assms by (auto simp: main_open_def Let_def split: prod.splits option.splits)
  have "nd_config ?s0 = ld_config ?l"
    by (simp add: node_new_def)
  then have "config_valid (ld_config ?l)"
    using node_init_valid [OF init] by simp
  from node_new_inv [OF loaded_ints this] have "node_inv ?s0" .
  from node_init_inv [OF this, of os] have "node_inv s1"
    using init by simp
  from node_open_inv [OF this, of os] show ?thesis
    using run by simp
qed

subsection \<open>Whole rounds are one of the ways to interleave\<close>

lemma round_moves:
  "node_rounds os c t p \<Longrightarrow> (node_moves os c)\<^sup>*\<^sup>* (s, all_idle) (run_code p s, all_idle)"
  unfolding node_moves_def by (rule round_alone) (simp_all add: all_idle_def)

lemma node_step_moves:
  assumes "replies_end os" "node_step os s t" "nd_config s = c"
  shows "(node_moves os c)\<^sup>*\<^sup>* (s, all_idle) (t, all_idle) \<and> nd_config t = c"
proof -
  note frame = configured.receive_round_holds configured.worker_turn_holds configured.content_exchange_round_holds
    configured.fallback_round_holds configured.flush_round_holds configured.reload_round_holds configured.request_key_holds
  note kept = frame [unfolded configured.holds_def]
  have step: ?thesis if "node_rounds os c th p" "t = run_code p s" "nd_config (run_code p s) = c" for th p
    using round_moves [OF that(1), of s] that(2,3) by simp
  from assms(2) show ?thesis
  proof (cases rule: node_step.cases)
    case (receive received)
    then show ?thesis
      by (intro step [of Receiver "receive_code os c received"]) (auto simp: run_receive assms kept)
  next
    case work
    then show ?thesis
      by (intro step [of "Worker 0" "worker_code os"]) (simp_all add: run_worker assms kept)
  next
    case exchange
    then show ?thesis
      by (intro step [of Exchanger "exchange_code os c"]) (simp_all add: run_exchange assms kept)
  next
    case fallbacks
    then show ?thesis
      by (intro step [of Fallbacks "fallback_code os c"]) (simp_all add: run_fallback assms kept)
  next
    case flush
    then show ?thesis
      by (intro step [of Flusher "flush_code os c"]) (simp_all add: run_flush assms kept)
  next
    case reload
    then show ?thesis
      by (intro step [of Reloader "reload_code os c"]) (simp_all add: run_reload assms kept)
  next
    case (request key)
    then show ?thesis
      by (intro step [of Requester "own_request_code os c key"]) (auto simp: run_own_request assms kept)
  next
    case stop
    have "node_moves os c (s, all_idle) (s\<lparr>sys_running := False\<rparr>, all_idle)"
      unfolding node_moves_def by (rule outside) (simp add: node_stop_def)
    with stop assms(3) show ?thesis
      by auto
  qed
qed

subsection \<open>The invariant of the shared state\<close>

definition node_tables :: "config \<Rightarrow> 'w node_sys \<Rightarrow> bool" where
  "node_tables c s \<longleftrightarrow> nd_config s = c \<and> distinct (nd_local_keys s) \<and> advertised c [] (nd_content s) \<and> qt_wf (nd_query s)
     \<and> st_inv (nd_sync s) \<and> own_fallbacks (node_id c) (nd_fallback s) \<and> own_buffers (node_id c) (nd_agg s)
     \<and> length (fq_items s) \<le> fc_max_depth (fq_conf s)"

text \<open>A step adds no local key and takes no key out of the filter.\<close>

definition in_filter :: "'w node_sys \<Rightarrow> string \<Rightarrow> bool" where
  "in_filter s key \<longleftrightarrow> maybe_contains (ct_local (nd_content s)) key"

definition calm :: "'w node_sys \<Rightarrow> 'w node_sys \<Rightarrow> bool" where
  "calm s t \<longleftrightarrow> nd_local_keys t = nd_local_keys s \<and> (\<forall>key. in_filter s key \<longrightarrow> in_filter t key)"

text \<open>The guarantee of a step: keys stay in the filter, and the code that is left adds each new local key first of all.\<close>

definition hands_on :: "'w node_sys \<Rightarrow> 'w node_sys \<Rightarrow> 'w node_code \<Rightarrow> bool" where
  "hands_on s t p \<longleftrightarrow> (\<forall>key. in_filter s key \<longrightarrow> in_filter t key)
     \<and> (\<forall>key \<in> set (nd_local_keys t). key \<in> set (nd_local_keys s) \<or> (\<exists>k. p = act (advertise_key key) k))"

definition keys_in_hand :: "'w node_sys \<Rightarrow> (node_thread \<Rightarrow> 'w node_code) \<Rightarrow> bool" where
  "keys_in_hand s th \<longleftrightarrow>
     (\<forall>key \<in> set (nd_local_keys s). in_filter s key \<or> (\<exists>t k. th t = act (advertise_key key) k))"

lemma calm_hands_on: "calm s t \<Longrightarrow> hands_on s t p"
  by (simp add: calm_def hands_on_def)

lemma calm_same [simp]:
  "nd_local_keys t = nd_local_keys s \<Longrightarrow> nd_content t = nd_content s \<Longrightarrow> calm s t"
  by (simp add: calm_def in_filter_def)

abbreviation sound :: "config \<Rightarrow> 'w node_code \<Rightarrow> bool" where
  "sound c \<equiv> conforms (node_tables c) hands_on"

named_theorems sound_code

lemma sound_Done [sound_code]: "sound c Done"
  by (rule conforms_Done)

lemma sound_act:
  "(\<And>s. node_tables c s \<Longrightarrow> node_tables c (f s) \<and> calm s (f s)) \<Longrightarrow> sound c k \<Longrightarrow> sound c (act f k)"
  by (auto intro!: conforms_act calm_hands_on)

lemma sound_ask:
  "(\<And>s. node_tables c s \<Longrightarrow> node_tables c (snd (g s)) \<and> calm s (snd (g s))) \<Longrightarrow>
   (\<And>s. node_tables c s \<Longrightarrow> sound c (k (fst (g s)))) \<Longrightarrow> sound c (ask g k)"
  by (auto intro!: conforms_ask calm_hands_on)

text \<open>Updates that leave the tables alone.\<close>

lemma tables_same [simp]:
  fixes s :: "'w node_sys"
  shows "node_tables c (s\<lparr>net_world := w\<rparr>) = node_tables c s" "node_tables c (s\<lparr>net_topology := tp\<rparr>) = node_tables c s"
    "node_tables c (s\<lparr>sys_running := b\<rparr>) = node_tables c s" "node_tables c (s\<lparr>nd_counter := n\<rparr>) = node_tables c s"
    "node_tables c (s\<lparr>nd_limiter := l\<rparr>) = node_tables c s" "node_tables c (log_line lv m s) = node_tables c s"
  by (simp_all add: node_tables_def)

lemma tables_part [simp]:
  fixes s :: "'w node_sys"
  assumes "node_tables c s"
  shows "qt_wf q \<Longrightarrow> node_tables c (s\<lparr>nd_query := q\<rparr>)" "st_inv st \<Longrightarrow> node_tables c (s\<lparr>nd_sync := st\<rparr>)"
    "own_fallbacks (node_id c) fb \<Longrightarrow> node_tables c (s\<lparr>nd_fallback := fb\<rparr>)"
    "own_buffers (node_id c) ag \<Longrightarrow> node_tables c (s\<lparr>nd_agg := ag\<rparr>)"
    "advertised c [] ct \<Longrightarrow> node_tables c (s\<lparr>nd_content := ct\<rparr>)"
    "length q' \<le> fc_max_depth (fq_conf s) \<Longrightarrow> node_tables c (s\<lparr>fq_items := q'\<rparr>)"
  using assms by (simp_all add: node_tables_def)

lemma tablesD:
  assumes "node_tables c s"
  shows "nd_config s = c" "advertised c [] (nd_content s)" "qt_wf (nd_query s)" "st_inv (nd_sync s)"
    "own_fallbacks (node_id c) (nd_fallback s)" "own_buffers (node_id c) (nd_agg s)"
    "length (fq_items s) \<le> fc_max_depth (fq_conf s)"
  using assms by (simp_all add: node_tables_def)

lemma tables_more:
  fixes s t :: "'w node_sys"
  shows "net_sys.more t = net_sys.more s \<Longrightarrow> node_tables c s \<Longrightarrow> node_tables c t \<and> calm s t"
  by (cases s; cases t) (simp add: node_tables_def)

subsection \<open>The pieces are sound\<close>

lemma on_world_sound [simp]:
  "node_tables c (snd (on_world g s)) = node_tables c s" "calm s (snd (on_world g s))"
  by (simp_all add: on_world_def)

lemma sound_note [sound_code]: "sound c k \<Longrightarrow> sound c (note_code l m k)"
  unfolding note_code_def by (rule sound_act) simp_all

lemma sound_reply: "(\<And>resp. sound c (k resp)) \<Longrightarrow> sound c (ask (redis_reply os) k)"
  unfolding redis_reply_def by (rule sound_ask) simp_all

lemma sound_command:
  "(\<And>r. sound c (k r)) \<Longrightarrow> sound c (ask (redis_command os args) k)"
  unfolding redis_command_def by (rule sound_ask) simp_all

lemma sound_get: "(\<And>r. sound c (k r)) \<Longrightarrow> sound c (get_code os key k)"
  unfolding get_code_def
  by (intro sound_command) (simp only: sound_reply simp_thms split: option.split)

lemma sound_set [sound_code]: "(\<And>r. sound c (k r)) \<Longrightarrow> sound c (set_code os key v k)"
  unfolding set_code_def
  by (intro sound_command) (simp only: sound_reply simp_thms split: option.split)

lemma sound_lookup [sound_code]: "(\<And>r. sound c (k r)) \<Longrightarrow> sound c (lookup_code os key k)"
  unfolding lookup_code_def
  by (intro sound_get) (simp only: found_code_def sound_note simp_thms split: option.split)

lemma sound_record [sound_code]: "sound c k \<Longrightarrow> sound c (record_code key k)"
proof -
  assume k: "sound c k"
  have "node_tables c (advertise_key key s) \<and> calm s (advertise_key key s)" if "node_tables c s" for s :: "'a node_sys"
  proof -
    have "bloom_good (ct_local (nd_content s))" "ct_wf (nd_content s)"
      using tablesD(2) [OF that] by (simp_all add: advertised_def)
    then show ?thesis
      using that bloom_set.good_add [of "ct_local (nd_content s)" key] bloom_set.contains_mono [of "ct_local (nd_content s)"]
      by (auto simp: advertise_key_def calm_def in_filter_def add_local_key_def node_tables_def advertised_def ct_wf_def)
  qed
  then have "sound c (act (advertise_key key) k)"
    using k by (intro sound_act) simp_all
  moreover have "node_tables c (insert_local key s) \<and> hands_on s (insert_local key s) (act (advertise_key key) k)"
    if "node_tables c s" for s :: "'a node_sys"
    using that by (auto simp: insert_local_def node_tables_def hands_on_def in_filter_def distinct_insert)
  ultimately show ?thesis
    unfolding record_code_def by (rule conforms_act [rotated])
qed

lemma sound_id [sound_code]: "(\<And>rid. sound c (k rid)) \<Longrightarrow> sound c (id_code os c' k)"
  unfolding id_code_def by (intro sound_ask) (simp_all add: next_count_def)

lemma sound_stats [sound_code]: "(\<And>st. sound c (k st)) \<Longrightarrow> sound c (stats_code k)"
  unfolding stats_code_def by (intro sound_ask) simp_all

lemma sound_state [sound_code]: "sound c k \<Longrightarrow> sound c (state_code st d k)"
  unfolding state_code_def log_state_def by (intro sound_act) simp_all

lemma sound_served: "sound c k \<Longrightarrow> sound c (served_code key org line k)"
proof -
  assume k: "sound c k"
  have "node_tables c (snd (record_served_sync key org s)) \<and> calm s (snd (record_served_sync key org s))"
    if "node_tables c s" for s :: "'a node_sys"
    using that record_destination_step(1) [OF tablesD(4) [OF that]] by (simp add: record_served_sync_def split_beta)
  then show ?thesis
    unfolding served_code_def using k by (intro sound_ask) (auto intro: sound_note split: prod.split)
qed

lemma sound_success [sound_code]: "sound c k \<Longrightarrow> sound c (success_code item k)"
proof -
  have "sound c k \<Longrightarrow> sound c (ok_code cb k)" for cb
    by (cases cb) (simp_all add: sound_served del: served_line.simps)
  then show "sound c k \<Longrightarrow> sound c (success_code item k)"
    by (auto simp: success_code_def split: option.split)
qed

lemma sound_failure [sound_code]: "sound c k \<Longrightarrow> sound c (failure_code item e k)"
proof -
  have "node_tables c (node_err f e s) = node_tables c s \<and> calm s (node_err f e s)" for f and s :: "'a node_sys"
    by (cases f) simp_all
  then show "sound c k \<Longrightarrow> sound c (failure_code item e k)"
    by (auto simp: failure_code_def intro: sound_act split: option.split)
qed

lemma sound_enqueue [sound_code]: "sound c k \<Longrightarrow> sound c (enqueue_code item k)"
proof -
  assume k: "sound c k"
  have "node_tables c (snd (push_item item s)) \<and> calm s (snd (push_item item s))" if "node_tables c s" for s :: "'a node_sys"
    using that tablesD(7) [OF that] by (simp add: push_item_def queue_push_def)
  then show ?thesis
    unfolding enqueue_code_def using k by (intro sound_ask) (auto intro: sound_state sound_failure split: prod.split)
qed

lemma sound_direct [sound_code]: "sound c k \<Longrightarrow> sound c (direct_code os item k)"
proof -
  assume k: "sound c k"
  have "node_tables c (snd (Udp_Network.send_direct os a m s)) \<and> calm s (snd (Udp_Network.send_direct os a m s))"
    if "node_tables c s" for a m and s :: "'a node_sys"
    unfolding send_direct_def using that by (intro tables_more) (rule send_to_frame)
  then show ?thesis
    unfolding direct_code_def using k by (intro sound_ask) (auto intro: sound_success sound_failure split: option.split)
qed

lemma sound_spread: "sound c k \<Longrightarrow> sound c (act (Udp_Network.send_broadcast os m ex) k)"
proof (rule sound_act)
  show "node_tables c (Udp_Network.send_broadcast os m ex s) \<and> calm s (Udp_Network.send_broadcast os m ex s)"
    if "node_tables c s" for s :: "'a node_sys"
    using that by (intro tables_more) (rule send_broadcast_frame)
qed

lemma bypass_sound [simp]: "snd (bypass s) = s"
  by (simp add: bypass_def)

lemma sound_send [sound_code]: "sound c k \<Longrightarrow> sound c (send_code os a m x y k)"
  unfolding send_code_def Let_def by (intro sound_ask) (simp_all add: sound_code)

lemma sound_broadcast [sound_code]: "sound c k \<Longrightarrow> sound c (broadcast_code os m ex k)"
  unfolding broadcast_code_def Let_def by (intro sound_ask) (simp_all add: sound_code sound_spread)

lemma sound_worker: "sound c (worker_code os)"
proof -
  have "node_tables c (snd (pop_item s)) \<and> calm s (snd (pop_item s))" if "node_tables c s" for s :: "'a node_sys"
    using that tablesD(7) [OF that] by (cases "fq_items s") (simp_all add: pop_item_def queue_pop_def)
  then show ?thesis
    unfolding worker_code_def Let_def
    by (intro sound_ask) (auto intro!: sound_spread sound_code split: option.split item_kind.split)
qed

subsection \<open>The rounds are sound\<close>

lemma clock_sound [simp]:
  "node_tables c (snd (read_steady os s)) = node_tables c s" "calm s (snd (read_steady os s))"
  "node_tables c (snd (now_millis os s)) = node_tables c s" "calm s (snd (now_millis os s))"
  by (simp_all add: read_steady_def now_millis_def split_beta)

lemma dedupe_sound: "node_tables c s \<Longrightarrow> node_tables c (snd (dedupe_step os rid s)) \<and> calm s (snd (dedupe_step os rid s))"
  by (simp add: dedupe_step_def read_steady_def split_beta Let_def record_if_new_wf tablesD)

lemma sound_dedupe: "(\<And>fresh. sound c (k fresh)) \<Longrightarrow> sound c (ask (dedupe_step os rid) k)"
  by (intro sound_ask) (simp_all add: dedupe_sound)

lemma sound_serve: "sound c (serve_code os c' msg src v)"
  unfolding serve_code_def Let_def by (intro sound_code)

lemma sound_request: "sound c (request_code os c' msg src)"
proof -
  have "sound c (request_found os c' msg src val)" for val
    by (cases val) (simp_all add: request_found_def sound_serve sound_code)
  then have "sound c (if \<not> fresh then stats_code (\<lambda>st. note_code Info (request_duplicate_line msg src st) Done)
     else lookup_code os (m_key msg) (request_found os c' msg src))" for fresh
    by (cases fresh) (simp_all only: simp_thms if_True if_False sound_code)
  then show ?thesis
    unfolding request_code_def
    by (auto intro!: sound_dedupe intro: sound_note sound_Done split: option.split)
qed

lemma sound_data: "sound c (data_code os c' msg src)"
proof -
  have "node_tables c (cancel_step msg s) \<and> calm s (cancel_step msg s)" if "node_tables c s" for s :: "'a node_sys"
    using that tablesD(5) [OF that] by (simp add: cancel_step_def)
  then have cancel: "sound c k \<Longrightarrow> sound c (act (cancel_step msg) k)" for k :: "'a node_code"
    by (intro sound_act)
  show ?thesis
    unfolding data_code_def Let_def
    by (cases "dd_state (data_run c' msg)")
      (simp_all only: data_state.case sound_note sound_Done, intro sound_set,
        simp only: sound_note sound_Done cancel sound_record simp_thms split: option.split)
qed

lemma sound_content: "sound c (content_code os c' msg src)"
proof -
  have "node_tables c (update_step os src f s) \<and> calm s (update_step os src f s)" if "node_tables c s" for f and s :: "'a node_sys"
    using that advertised_update [OF tablesD(2) [OF that], of _ src f]
    by (simp add: update_step_def read_steady_def split_beta Let_def calm_def in_filter_def update_neighbor_def)
  then have "sound c (act (update_step os src f) (ask (\<lambda>s. (neighbor_count (nd_content s), s)) (\<lambda>n.
      note_code Info (content_update_line c' msg src f n) Done)))" for f
    by (intro sound_act sound_ask) (simp_all add: sound_note sound_Done)
  then show ?thesis
    unfolding content_code_def Let_def
    by (simp only: sound_note sound_Done simp_thms split: if_split option.split)
qed

lemma sound_qbf_key: "sound c k \<Longrightarrow> sound c (qbf_key_code os c' msg src age f key k)"
  unfolding qbf_key_code_def Let_def
  by (cases "maybe_contains f key")
    (simp_all only: if_True if_False simp_thms, intro sound_lookup, simp only: sound_id sound_send simp_thms split: option.split)

lemma sound_qbf_forward: "sound c (qbf_forward_code os msg src age f)"
proof -
  have "node_tables c (snd (allow_step os msg f s)) \<and> calm s (snd (allow_step os msg f s))" if "node_tables c s" for s :: "'a node_sys"
    using that by (simp add: allow_step_def read_steady_def split_beta Let_def)
  then have "(\<And>ok. sound c (k ok)) \<Longrightarrow> sound c (ask (allow_step os msg f) k)" for k
    by (intro sound_ask) simp_all
  then show ?thesis
    unfolding qbf_forward_code_def Let_def
    by (simp only: sound_note sound_broadcast sound_Done simp_thms split: if_split)
qed

lemma sound_qbf: "sound c (qbf_code os c' msg src)"
proof -
  have "node_tables c (snd (qbf_accept os msg src s)) \<and> calm s (snd (qbf_accept os msg src s))" if "node_tables c s" for s :: "'a node_sys"
    using that by (simp add: qbf_accept_def Let_def split_beta split: option.splits)
  moreover have "sound c (ask (\<lambda>s. (nd_local_keys s, s)) (\<lambda>keys. each (qbf_key_code os c' msg src age f) keys (qbf_forward_code os msg src age f)))"
    for age f
    by (intro sound_ask conforms_each) (simp_all add: sound_qbf_key sound_qbf_forward)
  ultimately show ?thesis
    unfolding qbf_code_def
    by (intro sound_ask) (simp_all add: sound_note sound_Done split: sum.split prod.split)
qed

lemma sound_receive: "sound c (receive_code os c' received)"
proof -
  have "sound c (wire_code os c' wire src)" for wire src
    unfolding wire_code_def
    by (simp only: sound_note sound_Done sound_request sound_data sound_content sound_qbf simp_thms
        split: option.split message_type.split)
  then show ?thesis
    by (simp add: receive_code_def sound_Done split: option.split prod.split)
qed

lemma sound_exchange: "sound c (exchange_code os c')"
  unfolding exchange_code_def by (intro sound_ask) (simp_all add: sound_note sound_broadcast sound_Done)

lemma sound_aggregate: "org = node_id c \<Longrightarrow> sound c k \<Longrightarrow> sound c (aggregate_code os c' org key k)"
proof -
  have "node_tables c (snd (node_add_key os (node_id c) key s)) \<and> calm s (snd (node_add_key os (node_id c) key s))"
    if "node_tables c s" for s :: "'a node_sys"
    using that tablesD(6) [OF that] by (simp add: node_add_key_def read_steady_def split_beta Let_def)
  then show "org = node_id c \<Longrightarrow> sound c k \<Longrightarrow> sound c (aggregate_code os c' org key k)"
    unfolding aggregate_code_def by (intro sound_ask) (simp_all add: sound_note)
qed

lemma sound_fallback: "sound c (fallback_code os c')"
  unfolding fallback_code_def
proof (rule sound_ask)
  fix s :: "'a node_sys" assume s: "node_tables c s"
  show "node_tables c (snd (take_due_step os s)) \<and> calm s (snd (take_due_step os s))"
    using s tablesD(5) [OF s] by (simp add: take_due_step_def read_steady_def split_beta Let_def)
  have "list_all (\<lambda>e. snd e = node_id c) (fst (take_due_step os s))"
    using own_fallbacks_due [OF tablesD(5) [OF s]] by (simp add: take_due_step_def read_steady_def split_beta Let_def)
  then show "sound c (each (fallback_key_code os c') (fst (take_due_step os s)) Done)"
    by (intro conforms_each) (auto simp: fallback_key_code_def list_all_iff sound_aggregate sound_note sound_Done split: prod.split)
qed

lemma sound_flush: "sound c (flush_code os c')"
proof -
  have "node_tables c (snd (node_flush_due os s)) \<and> calm s (snd (node_flush_due os s))" if "node_tables c s" for s :: "'a node_sys"
    using that own_buffers_flush(1) [OF tablesD(6) [OF that]] by (simp add: node_flush_due_def read_steady_def split_beta Let_def)
  moreover have "sound c (each (batch_code os c' now) bs Done)" for now bs
    by (intro conforms_each) (simp_all add: batch_code_def sound_note sound_broadcast sound_Done)
  ultimately show ?thesis
    unfolding flush_code_def by (intro sound_ask) simp_all
qed

lemma sound_reload: "sound c (reload_code os c')"
proof -
  have topology: "sound c (act (set_topology tp) k)" if "sound c k" for tp and k :: "'a node_code"
    using that by (intro sound_act) (simp_all add: set_topology_def)
  show ?thesis
    unfolding reload_code_def
    by (cases "topology_reload_ms c' \<le> 0")
      (auto intro!: sound_ask conforms_each sound_note topology simp: sound_Done)
qed

lemma sound_own_request: "sound c (own_request_code os c key)"
proof -
  have "node_tables c (snd (select_step os k s)) \<and> calm s (snd (select_step os k s))" if "node_tables c s" for k and s :: "'a node_sys"
  proof -
    have "ct_local (snd (select_neighbor now k ct)) = ct_local ct" for now ct
      by (simp add: select_neighbor_def content_prune_def Let_def)
    then show ?thesis
      using that advertised_select [OF tablesD(2) [OF that]]
      by (simp add: select_step_def read_steady_def split_beta Let_def calm_def in_filter_def)
  qed
  then have select: "(\<And>n. sound c (k n)) \<Longrightarrow> sound c (ask (select_step os key') k)" for k key'
    by (intro sound_ask) simp_all
  have "node_tables c (schedule_step os req s) \<and> calm s (schedule_step os req s)"
    if "m_origin req = node_id c" "node_tables c s" for req and s :: "'a node_sys"
    using that tablesD(5) [OF that(2)] by (simp add: schedule_step_def read_steady_def split_beta Let_def)
  then have schedule: "m_origin req = node_id c \<Longrightarrow> sound c (act (schedule_step os req) Done)" for req
    by (intro sound_act sound_Done)
  have "sound c (ask_neighbor_code os c req)" if "m_origin req = node_id c" for req
    unfolding ask_neighbor_code_def
    by (intro select) (simp only: sound_note sound_send sound_aggregate sound_Done schedule that simp_thms split: option.split)
  then show ?thesis
    unfolding own_request_code_def own_request_found_def Let_def
    by (intro sound_lookup) (simp add: sound_record sound_stats sound_id sound_note sound_Done sound_dedupe split: option.split)
qed

lemma sound_seed: "sound c (seed_code os kv)"
  unfolding seed_code_def
  by (intro sound_set) (simp only: sound_note sound_Done sound_record simp_thms split: option.split)

lemma node_rounds_sound: "node_rounds os c t p \<Longrightarrow> sound c p"
  by (cases t) (auto simp: sound_seed sound_receive sound_worker sound_exchange sound_fallback sound_flush sound_reload
      sound_own_request)

subsection \<open>The threads respect the shared state\<close>

interpretation node_threads: shared_state "node_tables c" hands_on "node_rounds os c" node_stop keys_in_hand for os c
proof
  show "node_rounds os c t p \<Longrightarrow> sound c p" for t p
    by (rule node_rounds_sound)
  show "node_tables c s \<Longrightarrow> node_stop s s' \<Longrightarrow> node_tables c s'" for s s' :: "'a node_sys"
    by (simp add: node_stop_def)
  show "keys_in_hand s (th(t := p))" if "keys_in_hand s th" "th t = Done" for s :: "'a node_sys" and th t p
  proof -
    have "t' \<noteq> t" if "th t' = act (advertise_key key) k" for t' key k
      using that \<open>th t = Done\<close> by (auto simp: act_def)
    then have "\<exists>t' k. (th(t := p)) t' = act (advertise_key key) k" if "th t' = act (advertise_key key) k" for t' key k
      using that by (intro exI [of _ t'] exI [of _ k]) simp
    then show ?thesis
      using \<open>keys_in_hand s th\<close> unfolding keys_in_hand_def by blast
  qed
  show "keys_in_hand s' th" if "keys_in_hand s th" "node_tables c s" "node_stop s s'" for s s' :: "'a node_sys" and th
    using that by (simp add: keys_in_hand_def node_stop_def in_filter_def)
  show "keys_in_hand (fst (f s)) (th(t := snd (f s)))"
    if pend: "keys_in_hand s th" and s: "node_tables c s" and t: "th t = Step f" and g: "hands_on s (fst (f s)) (snd (f s))"
    for s :: "'a node_sys" and th t f
    unfolding keys_in_hand_def
  proof
    fix key assume key: "key \<in> set (nd_local_keys (fst (f s)))"
    consider (filter) "in_filter s key" | (own) k where "th t = act (advertise_key key) k"
      | (other) t' k where "t' \<noteq> t" "th t' = act (advertise_key key) k" | (new) k where "snd (f s) = act (advertise_key key) k"
      using key g pend by (fastforce simp: hands_on_def keys_in_hand_def)
    then show "in_filter (fst (f s)) key \<or> (\<exists>t' k. (th(t := snd (f s))) t' = act (advertise_key key) k)"
    proof cases
      case filter
      then show ?thesis using g by (simp add: hands_on_def)
    next
      case own
      then have "fst (f s) = advertise_key key s"
        using t by (simp add: act_def)
      moreover have "bloom_good (ct_local (nd_content s))"
        using tablesD(2) [OF s] by (simp add: advertised_def)
      ultimately show ?thesis
        by (simp add: in_filter_def advertise_key_def add_local_key_def bloom_set.contains_add)
    next
      case other
      then show ?thesis by (intro disjI2 exI [of _ t']) auto
    next
      case new
      then show ?thesis by (intro disjI2 exI [of _ t]) auto
    qed
  qed
qed

lemma node_inv_tables:
  "node_inv s \<longleftrightarrow> node_tables (nd_config s) s \<and> list_all (in_filter s) (nd_local_keys s)"
  by (auto simp: node_inv_def node_tables_def advertised_def in_filter_def [abs_def])

lemma moves_fine:
  assumes "main_open os w = (True, s0)" "(node_moves os (nd_config s0))\<^sup>*\<^sup>* (s0, all_idle) (s, th)"
  shows "node_tables (nd_config s0) s \<and> keys_in_hand s th"
proof -
  have "node_tables (nd_config s0) s0 \<and> keys_in_hand s0 all_idle"
    using main_open_inv [OF assms(1)] node_inv_tables [of s0] by (auto simp: keys_in_hand_def list_all_iff)
  then show ?thesis
    using node_threads.interleaved.reachable_inv [of "nd_config s0" "(s0, all_idle)" os "(s, th)"] assms(2)
    by (simp add: node_moves_def node_threads.fine_def all_idle_def)
qed

subsection \<open>Properties\<close>

text \<open>C16. Runs of whole rounds are runs of the threads. When the reading of a reply ends, every sequence of whole
  rounds, which is what the other properties of a node are about, is one of the interleavings of the threads, in
  which every round has the same effect step by step as the function that models it.\<close>

theorem rounds_interleave:
  assumes "replies_end os" "(node_step os)\<^sup>*\<^sup>* s t"
  shows "(node_moves os (nd_config s))\<^sup>*\<^sup>* (s, all_idle) (t, all_idle)"
proof -
  from assms(2) have "(node_moves os (nd_config s))\<^sup>*\<^sup>* (s, all_idle) (t, all_idle) \<and> nd_config t = nd_config s"
  proof (induction rule: rtranclp_induct)
    case (step t u)
    then show ?case
      using node_step_moves [OF assms(1) step.hyps(2)] by (metis rtranclp_trans)
  qed simp
  then show ?thesis ..
qed

text \<open>A host whose Redis has gone ends every reply.\<close>

lemma quiet_replies_end: "replies_end quiet_host"
  by (simp add: replies_end_def read_resp_def read_line.simps quiet_host_def)

theorem rounds_interleave_witness:
  "let s = node_new (config_of (\<lambda>_. None) [] []) Info ()
   in (node_moves quiet_host (nd_config s))\<^sup>*\<^sup>* (s, all_idle) (flush_round quiet_host (content_exchange_round quiet_host s), all_idle)"
proof -
  let ?s = "node_new (config_of (\<lambda>_. None) [] []) Info ()"
  have "node_step quiet_host ?s (content_exchange_round quiet_host ?s)"
    "node_step quiet_host (content_exchange_round quiet_host ?s) (flush_round quiet_host (content_exchange_round quiet_host ?s))"
    by (rule node_step.exchange, rule node_step.flush)
  then have "(node_step quiet_host)\<^sup>*\<^sup>* ?s (flush_round quiet_host (content_exchange_round quiet_host ?s))"
    by (rule converse_rtranclp_into_rtranclp [OF _ r_into_rtranclp])
  from rounds_interleave [OF quiet_replies_end this] show ?thesis
    by (simp only: Let_def)
qed

text \<open>C4. The invariant under every interleaving. From the moment that the receive loop of a started node runs, whatever
  the threads do and however their steps mix, the tables keep their invariants: the filter has the
  configured shape, summaries are stored under their own addresses, the tables are well formed, counted and
  within their bounds, and fallbacks and buffers are the node's own. Every local key is in the advertised filter, or
  a thread is about to put it there with its very next step; when no round is under way the whole
  invariant of a node holds.\<close>

theorem interleaved_invariant:
  assumes "main_open os w = (True, s0)" "(node_moves os (nd_config s0))\<^sup>*\<^sup>* (s0, all_idle) (s, th)"
  shows "node_tables (nd_config s0) s
    \<and> (\<forall>key \<in> set (nd_local_keys s). in_filter s key \<or> (\<exists>t k. th t = act (advertise_key key) k))
    \<and> (th = all_idle \<longrightarrow> node_inv s)"
proof -
  have fine: "node_tables (nd_config s0) s" "keys_in_hand s th"
    using moves_fine [OF assms] by simp_all
  moreover have "node_inv s" if "th = all_idle"
    using fine that tablesD(1) [OF fine(1)] node_inv_tables [of s]
    by (auto simp: keys_in_hand_def list_all_iff all_idle_def act_def)
  ultimately show ?thesis
    by (simp add: keys_in_hand_def)
qed

lemma quiet_open:
  assumes "tp_bind_ip (net_transport s) = ''0.0.0.0''"
  shows "\<exists>s1. node_open quiet_host s = (True, s1)"
proof -
  have "fst (transport_start quiet_host s) = None"
    by (simp add: transport_start_def quiet_host_def assms)
  then show ?thesis
    by (cases "transport_start quiet_host s") (simp add: node_open_def Let_def)
qed

text \<open>A node starts, its exchange thread begins a round, and the node is stopped while the thread is in it.\<close>

theorem interleaved_invariant_witness:
  "\<exists>s0. main_open quiet_host () = (True, s0) \<and> node_tables (nd_config s0) (s0\<lparr>sys_running := False\<rparr>)"
proof -
  let ?c = "config_of (\<lambda>_. None) [] ''env''"
  obtain s1 where s1: "node_init quiet_host ((node_new ?c (if log_level ?c \<noteq> [] then parse_log_level (log_level ?c) else Info) ())
        \<lparr>lg_lines := []\<rparr>) = (None, s1)" "tp_bind_ip (net_transport s1) = ''0.0.0.0''"
    using quiet_default_init by blast
  obtain s0 where "node_open quiet_host s1 = (True, s0)"
    using quiet_open [OF s1(2)] by blast
  then have s0: "main_open quiet_host () = (True, s0)"
    using s1(1) by (cases "log_level ?c = []") (simp_all add: main_open_def quiet_load Let_def)
  let ?th = "all_idle(Exchanger := exchange_code quiet_host (nd_config s0))"
  have "node_moves quiet_host (nd_config s0) (s0, all_idle) (s0, ?th)"
    unfolding node_moves_def by (rule fresh) (simp_all add: all_idle_def)
  moreover have "node_moves quiet_host (nd_config s0) (s0, ?th) (s0\<lparr>sys_running := False\<rparr>, ?th)"
    unfolding node_moves_def by (rule outside) (simp add: node_stop_def)
  ultimately have "(node_moves quiet_host (nd_config s0))\<^sup>*\<^sup>* (s0, all_idle) (s0\<lparr>sys_running := False\<rparr>, ?th)"
    by (rule converse_rtranclp_into_rtranclp [OF _ r_into_rtranclp])
  from interleaved_invariant [OF s0 this] s0 show ?thesis
    by blast
qed

end
