(* ===== verification/Redis_Race.thy ===== *)
theory Redis_Race
  imports Node_Interleaving Redis_Server Node_Exchange
begin

text \<open>
  Two threads at the one socket of \<^verbatim>\<open>RedisClient\<close>. The receive loop looks keys up for requests that arrive and the
  request thread does so for the node's own keys, both through \<^verbatim>\<open>redis_\<close>, and nothing keeps a command and its reply
  together. Redis answers the commands of a connection in their order, so whoever reads first gets the reply to
  the command that was sent first.
\<close>

text \<open>What Redis and the clock promise: a GET is accepted, and its reply follows those that are still to come.\<close>

definition ordered_replies :: "('w, 'y) node_os_scheme \<Rightarrow> redis_client \<Rightarrow> ('w \<Rightarrow> string) \<Rightarrow> ('w \<Rightarrow> string \<Rightarrow> string option) \<Rightarrow> bool" where
  "ordered_replies os rc incoming store \<longleftrightarrow>
     stream_recv (os_redis_recv os) incoming
     \<and> (\<forall>key w. case send_command (os_redis_send os) rc [''GET'', key] w of (err, w') \<Rightarrow> err = None \<and> store w' = store w
          \<and> incoming w' = incoming w @ reply_bytes (case store w key of Some v \<Rightarrow> Bulk v | None \<Rightarrow> NullBulk))
     \<and> (\<forall>w key v. store w key = Some v \<longrightarrow> Redis_Client.reply_ok (Bulk v))
     \<and> (\<forall>w. incoming (snd (os_steady os w)) = incoming w \<and> store (snd (os_steady os w)) = store w)"

lemma ordered_get:
  assumes "ordered_replies os rc incoming store" "store w key = Some v"
  obtains w' where "send_command (os_redis_send os) rc [''GET'', key] w = (None, w')"
    "incoming w' = incoming w @ reply_bytes (Bulk v)" "store w' = store w"
proof -
  have "case send_command (os_redis_send os) rc [''GET'', key] w of (err, w') \<Rightarrow> err = None \<and> store w' = store w
          \<and> incoming w' = incoming w @ reply_bytes (case store w key of Some v \<Rightarrow> Bulk v | None \<Rightarrow> NullBulk)"
    using assms(1) by (simp add: ordered_replies_def)
  then show thesis
    using that assms(2) by (auto split: prod.splits)
qed

lemma ordered_reply:
  assumes "ordered_replies os rc incoming store" "store w' key = Some v" "incoming w = reply_bytes (Bulk v) @ rest"
  obtains u where "read_resp (os_redis_recv os) w = Some (Inr (reply_value (Bulk v)), u)" "incoming u = rest"
proof -
  have law: "stream_recv (os_redis_recv os) incoming" "Redis_Client.reply_ok (Bulk v)"
    using assms(1,2) unfolding ordered_replies_def by blast+
  show thesis
    using read_resp_reply [OF law(1,2) assms(3)] that by blast
qed

lemma get_result_bulk: "get_result (Inr (reply_value (Bulk v))) = (Some v, None)"
  by (simp add: get_result_def)

lemma unseen_fresh: "map_of (qt_table qt) rid = None \<Longrightarrow> qt_wf qt \<Longrightarrow> fst (record_if_new now stamp rid qt)"
  by (auto simp: record_if_new_def query_prune_def query_prune_loop_eq Let_def map_of_prune qt_wf_def split: option.splits)

text \<open>One step of a thread, and a thread that begins.\<close>

lemma ask_moves:
  assumes "g s = (x, s')" "th t = ask g k" "th' = th(t := k x)"
  shows "node_moves os c (s, th) (s', th')"
  unfolding node_moves_def assms(3) using assms(1,2)
  by (intro advance [where f = "\<lambda>s. (snd (g s), k (fst (g s)))"]) (simp_all add: ask_def)

lemma begin_moves: "th t = Done \<Longrightarrow> node_rounds os c t p \<Longrightarrow> node_moves os c (s, th) (s, th(t := p))"
  unfolding node_moves_def by (rule fresh)

lemma finish_moves: "(node_moves os c)\<^sup>*\<^sup>* (s, th) (run_code (th t) s, th(t := Done))"
  unfolding node_moves_def by (rule run_alone) simp

text \<open>The code of a lookup: a command, and a reply that the rest depends on.\<close>

lemma lookup_steps:
  "lookup_code os key k = ask (redis_command os [''GET'', key])
     (\<lambda>r. case r of Some e \<Rightarrow> found_code k (None, Some e) | None \<Rightarrow> ask (redis_reply os) (\<lambda>resp. found_code k (get_result resp)))"
  by (simp only: lookup_code_def get_code_def)

lemma request_steps:
  assumes "request_ok msg"
  shows "request_code os c msg src = ask (dedupe_step os (m_request_id msg)) (\<lambda>fresh.
              if \<not> fresh then stats_code (\<lambda>st. note_code Info (request_duplicate_line msg src st) Done)
              else lookup_code os (m_key msg) (request_found os c msg src))"
proof -
  have "validate_fields msg = None" "validate_ttl msg = None"
    using assms by (auto simp: request_ok_def validate_fields_def validate_request_fields_def validate_ttl_def)
  then show ?thesis
    by (simp add: request_code_def)
qed

text \<open>What the request thread does with a value that it found leaves the network alone.\<close>

lemma own_found_net:
  assumes "nd_config s = c"
  shows "same_net s (run_code (own_request_found os c a (Some v)) s)"
    "nd_config (run_code (own_request_found os c a (Some v)) s) = c"
proof -
  have "nd_config (record_local_key a s) = c"
    using assms by (simp add: record_local_key_def)
  then have "run_code (own_request_found os c a (Some v)) s =
      (let (rid, t) = make_request_id os (record_local_key a s)
       in log_info (own_local_line c rid a (query_stats_of (nd_query (record_local_key a s)))) t)"
    by (simp add: own_request_found_def run_id split_beta Let_def)
  moreover have "nd_config (snd (make_request_id os (record_local_key a s))) = c"
    using assms by (simp add: make_request_id_def record_local_key_def split_beta Let_def)
  ultimately show "same_net s (run_code (own_request_found os c a (Some v)) s)"
    "nd_config (run_code (own_request_found os c a (Some v)) s) = c"
    using same_net_trans [OF record_local_key_net make_request_id_net] by (simp_all add: split_beta Let_def)
qed

text \<open>The steps of a lookup as functions.\<close>

lemma command_step:
  "send_command (os_redis_send os) (nd_redis s) args (net_world s) = (r, w) \<Longrightarrow> redis_command os args s = (r, s\<lparr>net_world := w\<rparr>)"
  by (simp add: redis_command_def on_world_def)

lemma reply_step:
  "read_resp (os_redis_recv os) (net_world s) = Some (r, w) \<Longrightarrow> redis_reply os s = (r, s\<lparr>net_world := w\<rparr>)"
  by (simp add: redis_reply_def on_world_def)

lemma dedupe_step_fresh:
  assumes "map_of (qt_table (nd_query s)) rid = None" "qt_wf (nd_query s)"
  obtains qt where "dedupe_step os rid s = (True, s\<lparr>nd_query := qt, net_world := snd (os_steady os (snd (os_steady os (net_world s))))\<rparr>)"
proof -
  let ?w = "snd (os_steady os (net_world s))"
  have "fst (record_if_new now stamp rid (nd_query s))" for now stamp
    by (rule unseen_fresh [OF assms])
  then show thesis
    by (intro that [of "snd (record_if_new (fst (os_steady os (net_world s))) (fst (os_steady os ?w)) rid (nd_query s))"])
      (simp add: dedupe_step_def read_steady_def split_beta Let_def)
qed

lemma from_wire_Nil: "from_wire [] = None"
  by (simp add: from_wire_def split_keep)

lemma alone_found:
  assumes redis: "ordered_replies os (nd_redis s) incoming store" "incoming (net_world s) = []" "store (net_world s) (m_key msg) = Some v"
    and "net_ready os s" "request_ok msg" "map_of (qt_table (nd_query s)) (m_request_id msg) = None" "qt_wf (nd_query s)"
  shows "handed_over (Direct, request_reply (nd_config s) msg v, src, None) s (handle_request os msg src s)"
proof -
  obtain now w2 where 1: "os_steady os (net_world s) = (now, w2)"
    by fastforce
  obtain stamp w3 where 2: "os_steady os w2 = (stamp, w3)"
    by fastforce
  have "incoming w2 = incoming (net_world s) \<and> store w2 = store (net_world s)" "incoming w3 = incoming w2 \<and> store w3 = store w2"
    using redis(1) 1 2 unfolding ordered_replies_def by (metis snd_conv)+
  then have clock: "incoming w3 = []" "store w3 (m_key msg) = Some v"
    using redis(2,3) by simp_all
  obtain w4 where w4: "send_command (os_redis_send os) (nd_redis s) [''GET'', m_key msg] w3 = (None, w4)"
      "incoming w4 = reply_bytes (Bulk v) @ []"
    using ordered_get [OF redis(1) clock(2)] clock(1) by (metis append_Nil append_Nil2)
  obtain u where "read_resp (os_redis_recv os) w4 = Some (Inr (reply_value (Bulk v)), u)"
    using ordered_reply [OF redis(1) clock(2) w4(2)] by blast
  then have "fst (fst (cache_get os (nd_redis s) (m_key msg) w3)) = Some v"
    using w4(1) by (simp add: cache_get_def redis_get_def)
  with handle_request_outcome [OF assms(4) 1 2, of msg src] show ?thesis
    using unseen_fresh [OF assms(6,7), of now stamp] assms(5) by (simp add: split_beta Let_def)
qed

text \<open>The interleaving: the request thread sends its command; the receive loop begins, sends its own, and reads; then the
  request thread reads and ends its round, and last the receive loop ends its own.\<close>

lemma crossing_moves:
  assumes wire: "take recv_limit wire \<noteq> []"
    and request: "from_wire (take recv_limit wire) = Some msg" "m_type msg = Request" "request_ok msg"
    and steps: "redis_command os [''GET'', a] s = (None, s1)" "dedupe_step os (m_request_id msg) s1 = (True, s2)"
      "redis_command os [''GET'', m_key msg] s2 = (None, s3)"
      "redis_reply os s3 = (Inr (reply_value (Bulk va)), s4)" "redis_reply os s4 = (Inr (reply_value (Bulk vb)), s5)"
  shows "(node_moves os c)\<^sup>*\<^sup>* (s, all_idle)
    (run_code (request_found os c msg src (Some va)) (run_code (own_request_found os c a (Some vb)) s5), all_idle)"
proof -
  let ?own = "own_request_found os c a" and ?found = "request_found os c msg src"
  let ?reply = "\<lambda>k. ask (redis_reply os) (\<lambda>resp. found_code k (get_result resp))"
  let ?m = "node_moves os c"
  have found: "found_code k (get_result (Inr (reply_value (Bulk v)))) = k (Some v)" for k :: "string option \<Rightarrow> 'a node_code" and v
    by (simp add: get_result_bulk found_code_def del: reply_value.simps)
  have "?m (s, all_idle) (s, all_idle(Requester := own_request_code os c a))"
    by (rule begin_moves) (auto simp: all_idle_def)
  moreover have "?m (s, all_idle(Requester := own_request_code os c a)) (s1, all_idle(Requester := ?reply ?own))"
    by (rule ask_moves [where g = "redis_command os [''GET'', a]" and t = Requester, OF steps(1)])
      (simp add: own_request_code_def lookup_steps, simp)
  moreover have "?m (s1, all_idle(Requester := ?reply ?own)) (s1, all_idle(Requester := ?reply ?own, Receiver := request_code os c msg src))"
    using wire request(1,2)
    by (intro begin_moves) (auto simp: all_idle_def receive_code_def wire_code_def intro!: exI [of _ "Some (wire, src)"])
  moreover have "?m (s1, all_idle(Requester := ?reply ?own, Receiver := request_code os c msg src))
      (s2, all_idle(Requester := ?reply ?own, Receiver := lookup_code os (m_key msg) ?found))"
    by (rule ask_moves [where g = "dedupe_step os (m_request_id msg)" and t = Receiver, OF steps(2)])
      (simp add: request_steps [OF request(3)], simp)
  moreover have "?m (s2, all_idle(Requester := ?reply ?own, Receiver := lookup_code os (m_key msg) ?found))
      (s3, all_idle(Requester := ?reply ?own, Receiver := ?reply ?found))"
    by (rule ask_moves [where g = "redis_command os [''GET'', m_key msg]" and t = Receiver, OF steps(3)])
      (simp add: lookup_steps, simp)
  moreover have "?m (s3, all_idle(Requester := ?reply ?own, Receiver := ?reply ?found))
      (s4, all_idle(Requester := ?reply ?own, Receiver := ?found (Some va)))"
    by (rule ask_moves [where g = "redis_reply os" and t = Receiver, OF steps(4)])
      (simp, simp add: found del: reply_value.simps)
  moreover have "?m (s4, all_idle(Requester := ?reply ?own, Receiver := ?found (Some va)))
      (s5, all_idle(Receiver := ?found (Some va), Requester := ?own (Some vb)))"
    by (rule ask_moves [where g = "redis_reply os" and t = Requester, OF steps(5)])
      (simp, simp add: found fun_upd_twist [of Requester Receiver] del: reply_value.simps)
  moreover have "?m\<^sup>*\<^sup>* (s5, all_idle(Receiver := ?found (Some va), Requester := ?own (Some vb)))
      (run_code (?own (Some vb)) s5, all_idle(Receiver := ?found (Some va)))"
    using finish_moves [of os c s5 "all_idle(Receiver := ?found (Some va), Requester := ?own (Some vb))" Requester]
    by (simp add: fun_upd_idem all_idle_def)
  moreover have "?m\<^sup>*\<^sup>* (run_code (?own (Some vb)) s5, all_idle(Receiver := ?found (Some va)))
      (run_code (?found (Some va)) (run_code (?own (Some vb)) s5), all_idle)"
    using finish_moves [of os c "run_code (?own (Some vb)) s5" "all_idle(Receiver := ?found (Some va))" Receiver]
    by (simp add: fun_upd_idem all_idle_def)
  ultimately show ?thesis
    by (meson converse_rtranclp_into_rtranclp rtranclp_trans)
qed

subsection \<open>Property\<close>

text \<open>C15. Replies of Redis are crossed. The cache holds the value va under the key a and vb under the key of a request that
  arrives. When the request is handled on its own, it is answered with vb. But let the node look up a as one of
  its own keys, and let the request thread be interrupted between its command and its reply: then the
  receive loop sends its own command, reads the reply to the other one, and answers the request
  for the one key with the value of the other.\<close>

theorem crossed_reply_served:
  assumes redis: "ordered_replies os (nd_redis s) incoming store" "incoming (net_world s) = []"
    and held: "store (net_world s) a = Some va" "store (net_world s) (m_key msg) = Some vb"
    and request: "from_wire (take recv_limit wire) = Some msg" "m_type msg = Request" "request_ok msg"
    and up: "net_ready os s" "qt_wf (nd_query s)" "map_of (qt_table (nd_query s)) (m_request_id msg) = None"
  shows "handed_over (Direct, request_reply (nd_config s) msg vb, src, None) s
      (receive_round (handle_wire_message os) (Some (wire, src)) s)
    \<and> (\<exists>t. (node_moves os (nd_config s))\<^sup>*\<^sup>* (s, all_idle) (t, all_idle)
      \<and> handed_over (Direct, request_reply (nd_config s) msg va, src, None) s t)"
proof
  have wire: "take recv_limit wire \<noteq> []"
    using request(1) from_wire_Nil by fastforce
  show "handed_over (Direct, request_reply (nd_config s) msg vb, src, None) s
      (receive_round (handle_wire_message os) (Some (wire, src)) s)"
    using alone_found [OF redis held(2) up(1) request(3) up(3,2)] wire request(1,2)
    by (simp add: receive_round_def handle_wire_message_def)
  let ?c = "nd_config s" and ?rc = "nd_redis s"
  obtain w1 where w1: "send_command (os_redis_send os) ?rc [''GET'', a] (net_world s) = (None, w1)"
      "incoming w1 = reply_bytes (Bulk va)" "store w1 = store (net_world s)"
    using ordered_get [OF redis(1) held(1)] redis(2) by (metis append_Nil)
  define s1 where "s1 = s\<lparr>net_world := w1\<rparr>"
  have command1: "redis_command os [''GET'', a] s = (None, s1)"
    using command_step [of os s] w1(1) by (simp add: s1_def)
  let ?w2 = "snd (os_steady os (snd (os_steady os w1)))"
  obtain qt where "dedupe_step os (m_request_id msg) s1 = (True, s1\<lparr>nd_query := qt, net_world := snd (os_steady os (snd (os_steady os (net_world s1))))\<rparr>)"
    by (rule dedupe_step_fresh [of s1 "m_request_id msg" os]) (use up in \<open>simp_all add: s1_def\<close>)
  then obtain s2 where fresh: "dedupe_step os (m_request_id msg) s1 = (True, s2)"
    and s2: "same_net s s2" "nd_config s2 = ?c" "nd_redis s2 = ?rc" "net_world s2 = ?w2"
    by (simp add: s1_def same_net_def)
  have w2: "incoming ?w2 = reply_bytes (Bulk va)" "store ?w2 (m_key msg) = Some vb" "store ?w2 a = Some va"
    using redis(1) w1(2,3) held by (simp_all add: ordered_replies_def)
  obtain w3 where w3: "send_command (os_redis_send os) ?rc [''GET'', m_key msg] ?w2 = (None, w3)"
      "incoming w3 = reply_bytes (Bulk va) @ reply_bytes (Bulk vb)"
    using ordered_get [OF redis(1) w2(2)] w2(1) by metis
  define s3 where "s3 = s2\<lparr>net_world := w3\<rparr>"
  have command2: "redis_command os [''GET'', m_key msg] s2 = (None, s3)"
    using command_step [of os s2] w3(1) s2 by (simp add: s3_def)
  obtain w4 where w4: "read_resp (os_redis_recv os) w3 = Some (Inr (reply_value (Bulk va)), w4)" "incoming w4 = reply_bytes (Bulk vb) @ []"
    using ordered_reply [OF redis(1) w2(3) w3(2)] by (metis append_Nil2)
  obtain w5 where w5: "read_resp (os_redis_recv os) w4 = Some (Inr (reply_value (Bulk vb)), w5)"
    using ordered_reply [OF redis(1) w2(2) w4(2)] by blast
  define s4 where "s4 = s3\<lparr>net_world := w4\<rparr>"
  define s5 where "s5 = s4\<lparr>net_world := w5\<rparr>"
  have reply1: "redis_reply os s3 = (Inr (reply_value (Bulk va)), s4)"
    using reply_step [of os s3] w4(1) by (simp add: s3_def s4_def)
  have reply2: "redis_reply os s4 = (Inr (reply_value (Bulk vb)), s5)"
    using reply_step [of os s4] w5(1) by (simp add: s4_def s5_def)
  let ?own = "own_request_found os ?c a" and ?found = "request_found os ?c msg src"
  let ?s6 = "run_code (?own (Some vb)) s5"
  have s5: "nd_config s5 = ?c" "same_net s s5"
    using s2 by (simp_all add: s5_def s4_def s3_def same_net_def)
  have s6: "nd_config ?s6 = ?c" "same_net s ?s6"
    by (rule own_found_net(2) [OF s5(1)], rule same_net_trans [OF s5(2) own_found_net(1) [OF s5(1)]])
  have "(node_moves os ?c)\<^sup>*\<^sup>* (s, all_idle) (run_code (?found (Some va)) ?s6, all_idle)"
    by (rule crossing_moves [OF wire request command1 fresh command2 reply1 reply2])
  moreover have "run_code (?found (Some va)) ?s6 = serve_request os msg src (Some va) ?s6"
    using run_serve [OF s6(1)] by (simp add: request_found_def)
  moreover have "handed_over (Direct, request_reply ?c msg va, src, None) s (serve_request os msg src (Some va) ?s6)"
    using handed_over_before [OF _ s6(2)] serve_request_outcome [OF net_ready_same [OF up(1) s6(2)]] s6(1) by metis
  ultimately show "\<exists>t. (node_moves os ?c)\<^sup>*\<^sup>* (s, all_idle) (t, all_idle)
      \<and> handed_over (Direct, request_reply ?c msg va, src, None) s t"
    by metis
qed

text \<open>A Redis that queues its replies, as one that gets the commands of two threads does, and a node with two keys.\<close>

definition queue_send :: "server sender" where
  "queue_send bytes w = (let (reply, content) = serve_command (read_command bytes) w
     in (SentBytes (length bytes - 1), (content, snd w @ reply_bytes reply)))"

definition race_host :: "server host_os" where
  "race_host = store_host\<lparr>os_redis_send := queue_send\<rparr>"

definition race_node :: "server node_sys" where
  "race_node = (node_new demo_config Info (map_of [(''a'', ''x''), (''k'', ''y'')], []))
     \<lparr>net_transport := \<lparr>tp_bind_ip = ''0.0.0.0'', tp_bind_port = 9000, tp_open = True, tp_running = True\<rparr>,
      nd_redis := \<lparr>rc_path = ''/r'', rc_connected = True\<rparr>\<rparr>"

lemma queue_get:
  assumes "rc_connected rc"
  shows "send_command queue_send rc [''GET'', key] w =
    (None, (fst w, snd w @ reply_bytes (case stored w key of Some v \<Rightarrow> Bulk v | None \<Rightarrow> NullBulk)))"
proof -
  obtain c cs where "resp_command [''GET'', key] = c # cs"
    by (simp add: resp_command_def)
  then show ?thesis
    using assms read_command_read [of "[''GET'', key]"]
    by (simp add: send_command_def send_loop.simps [of _ "_ # _"] send_loop.simps [of _ "[]"] queue_send_def serve_command_def
        del: reply_bytes.simps)
qed

lemma race_host_ordered: "rc_connected rc \<Longrightarrow> ordered_replies race_host rc snd stored"
  unfolding ordered_replies_def
  by (auto simp: race_host_def store_host_def queue_get server_recv_stream intro: stored_content
      dest!: stored_ok simp del: reply_bytes.simps)

theorem crossed_reply_served_witness:
  "net_sent (receive_round (handle_wire_message race_host) (Some (to_wire demo_request, demo_addr 7)) race_node) =
     [(demo_addr 7, to_wire (request_reply demo_config demo_request ''y''))]
   \<and> (\<exists>t. (node_moves race_host demo_config)\<^sup>*\<^sup>* (race_node, all_idle) (t, all_idle)
     \<and> net_sent t = [(demo_addr 7, to_wire (request_reply demo_config demo_request ''x''))])"
proof -
  have fields: "nd_config race_node = demo_config" "rc_connected (nd_redis race_node)" "snd (net_world race_node) = []"
    "stored (net_world race_node) ''a'' = Some ''x''" "stored (net_world race_node) (m_key demo_request) = Some ''y''"
    "qt_wf (nd_query race_node)" "map_of (qt_table (nd_query race_node)) (m_request_id demo_request) = None"
    "net_ready race_host race_node" "\<not> (fc_enabled (fq_conf race_node) \<and> fq_started race_node)" "net_sent race_node = []"
    by (simp_all add: race_node_def node_new_def stored_def demo_request_def query_table_new_def net_ready_def sends_ok_def
        race_host_def store_host_def transport_new_def qt_wf_def)
  have demo: "m_type demo_request = Request"
    by (simp add: demo_request_def)
  show ?thesis
    using crossed_reply_served [OF race_host_ordered [OF fields(2)] fields(3-5) demo_request_parsed demo demo_request_ok
        fields(8,6,7), of "demo_addr 7"] fields(1,9,10)
    by (auto simp: handed_over_def)
qed

end
