(* ===== verification/Node_Pull.thy ===== *)
theory Node_Pull
  imports Node_Exchange
begin

text \<open>
  The way of a wanted key that no neighbour is known to have: \<^verbatim>\<open>schedule_requests\<close> gives it to the aggregator, the flush thread
  sends the batch it is in to the neighbours, a neighbour that holds the key answers, and the answer is stored.
\<close>

subsection \<open>Sizes\<close>

lemma show_nat_length: "n < 10 ^ k \<Longrightarrow> 0 < k \<Longrightarrow> length (show_nat n) \<le> k"
proof (induction k arbitrary: n)
  case (Suc k)
  show ?case
  proof (cases "n < 10")
    case False
    then have "0 < k" "n div 10 < 10 ^ k"
      using Suc.prems by (cases k; simp add: less_mult_imp_div_less mult.commute)+
    from Suc.IH [OF this(2,1)] show ?thesis
      using False by (subst show_nat.simps) simp
  qed (subst show_nat.simps, simp)
qed simp

lemma show_u64_length: "length (show_u64 w) \<le> 20"
proof -
  have "unat w < 2 ^ LENGTH(64)"
    by (rule unsigned_less)
  then have "unat w < 10 ^ 20"
    by simp
  then show ?thesis
    by (simp add: show_u64_def show_nat_length)
qed

lemma show_int_length: "\<bar>i\<bar> < 10 ^ k \<Longrightarrow> 0 < k \<Longrightarrow> length (show_int i) \<le> k + 1"
  using show_nat_length [of "nat \<bar>i\<bar>" k] by (auto simp: show_int_def nat_less_iff)

lemma show_ttl_length: "in_int32 i \<Longrightarrow> length (show_int i) \<le> 11"
  using show_int_length [of i 10] by (auto simp: in_int32_def)

lemma show_free: "bar_free (show_nat n)" "bar_free (show_u64 w)" "bar_free (show_int i)"
proof -
  show n: "bar_free (show_nat n)" for n
    using show_nat_digits [of n] by (auto simp: bar_free_def list_all_iff is_digit_def)
  show "bar_free (show_u64 w)" "bar_free (show_int i)"
    using n by (auto simp: show_u64_def show_int_def bar_free_def)
qed

text \<open>The clock of the other node counts milliseconds in 64 bits.\<close>

definition wall_fits :: "('w, 'y) node_os_scheme \<Rightarrow> bool" where
  "wall_fits os \<longleftrightarrow> (\<forall>w. \<bar>fst (os_wall_ms os w)\<bar> < 2 ^ 63)"

lemma made_id_length:
  assumes "made_id os c rid" "wall_fits os"
  shows "length rid \<le> length (node_id c) + 42"
proof -
  obtain w n where rid: "rid = node_id c @ ''-'' @ show_int (fst (os_wall_ms os w)) @ ''-'' @ show_u64 n"
    using assms(1) by (auto simp: made_id_def)
  have "\<bar>fst (os_wall_ms os w)\<bar> < 2 ^ 63"
    using assms(2) by (simp add: wall_fits_def)
  then have "length (show_int (fst (os_wall_ms os w))) \<le> 20"
    using show_int_length [of "fst (os_wall_ms os w)" 19] by simp
  then show ?thesis
    using show_u64_length [of n] by (simp add: rid)
qed

lemma made_id_free: "made_id os c rid \<Longrightarrow> bar_free (node_id c) \<Longrightarrow> bar_free rid \<and> rid \<noteq> []"
  using show_free by (auto simp: made_id_def bar_free_def)

lemma batch_fits:
  assumes "shaped ag (qb_filter q)" "qb_batch_id q = make_batch_id (qb_origin q) (qb_created_ms q)" "in_int32 (request_ttl c)"
    and "2 * length (qb_origin q) + 2 * unat (byte_size (ag_bits ag)) + 64 \<le> recv_limit"
  shows "length (to_wire (batch_message c q)) \<le> recv_limit"
proof -
  have "length (to_hex (qb_filter q)) = 2 * unat (byte_size (ag_bits ag))"
    using assms(1) by (simp add: length_to_hex shaped_def bloom_good_def bloom_wf_def)
  moreover have "length (qb_batch_id q) \<le> length (qb_origin q) + 25"
    using show_u64_length [of "qb_created_ms q"] by (simp add: assms(2) make_batch_id_def show_u64_def)
  ultimately show ?thesis
    using show_ttl_length [OF assms(3)] show_u64_length [of "qb_created_ms q"] assms(4)
    by (simp add: to_wire_def batch_message_def)
qed

lemma reply_fits:
  assumes "made_id os c rid" "wall_fits os" "in_int32 (request_ttl c)"
    and "length (node_id c) + length (m_origin msg) + length key + length v + 62 \<le> recv_limit"
  shows "length (to_wire (qbf_reply c msg rid (key, v))) \<le> recv_limit"
  using made_id_length [OF assms(1,2)] show_ttl_length [OF assms(3)] assms(4)
  by (simp add: to_wire_def qbf_reply_def)

subsection \<open>The key goes to the aggregator\<close>

text \<open>No neighbour's summary covers the key.\<close>

definition uncovered :: "string \<Rightarrow> 'w node_sys \<Rightarrow> bool" where
  "uncovered key s \<longleftrightarrow> list_all (\<lambda>e. \<not> maybe_contains (ne_filter (snd e)) key) (ct_neighbors (nd_content s))"

lemma request_key_aggregated:
  assumes "cache_is os (nd_redis s) store" "store key = None" "uncovered key s"
  shows "same_net s (request_key os key s) \<and> nd_config (request_key os key s) = nd_config s
    \<and> (\<exists>now ms. nd_agg (request_key os key s) = snd (add_key now ms (node_id (nd_config s)) key (nd_agg s)))"
proof -
  obtain w where get: "cache_get os (nd_redis s) key (net_world s) = ((None, None), w)"
    using assms(1,2) unfolding cache_is_def by (metis prod.collapse)
  let ?s2 = "s\<lparr>net_world := w\<rparr>"
  obtain millis w1 seen w2 stamp w3 now w4 where clock: "os_wall_ms os (net_world ?s2) = (millis, w1)"
      "os_steady os w1 = (seen, w2)" "os_steady os w2 = (stamp, w3)" "os_steady os w3 = (now, w4)"
    by (metis surj_pair)
  obtain req nb t where o: "originate os key ?s2 = (req, nb, t)"
    by (metis surj_pair)
  note out = originate_outcome [OF clock o]
  have "nb = None"
    using assms(3) by (auto simp: out(2) select_neighbor_None live_def uncovered_def list_all_iff)
  then have "request_key os key s = request_aggregated os req t"
    using get o by (simp add: request_key_def Let_def)
  moreover have "m_key req = key" "m_origin req = node_id (nd_config s)" "nd_agg t = nd_agg s" "nd_config t = nd_config s"
    using out(1,5,8) by (simp_all add: own_request_def)
  moreover have "same_net s t"
    by (rule same_net_trans [OF _ out(3)]) (simp add: same_net_def)
  moreover have "nd_config (aggregate_key os org key' t) = nd_config t" for org key'
    by (simp add: aggregate_key_def node_add_key_def read_steady_def split_beta Let_def)
  ultimately show ?thesis
    using aggregate_key_outcome [of t os "m_origin req" "m_key req"] same_net_trans [of s t]
    by (auto simp: request_aggregated_def)
qed

subsection \<open>The flush\<close>

lemma fq_send_broadcast_frame:
  fixes s :: "'w node_sys"
  assumes "net_ready os s"
  shows "same_frame s (snd (fq_send_broadcast os node_err msg ex s))"
  using fq_send_broadcast_tables [of s os msg ex] fq_send_broadcast_topology [OF assms, of msg ex]
    nq.fq_send_broadcast_outputs [of "\<lambda>_. True" msg ex s os]
  by (simp add: same_frame_def same_tables_def outputs_def)

lemma send_batches_outcome:
  assumes "net_ready os s"
  shows "handed_all (map (\<lambda>q. (Broadcast, batch_message (nd_config s) q, zero_addr, None)) bs) s (fold (send_batch os now_ms) bs s)
    \<and> same_frame s (fold (send_batch os now_ms) bs s)"
  using assms
proof (induction bs arbitrary: s)
  case Nil
  then show ?case
    by (simp add: same_net_handed_all same_frame_def)
next
  case (Cons q bs)
  let ?t = "send_batch os now_ms q s"
  have one: "handed_over (Broadcast, batch_message (nd_config s) q, zero_addr, None) s ?t" "same_frame s ?t"
    unfolding send_batch_def Let_def
    by (intro handed_over_before [OF nq.fq_send_broadcast_handed_over], simp_all add: Cons.prems)
      (intro same_frame_trans [OF _ fq_send_broadcast_frame], simp_all add: Cons.prems same_frame_def)
  have "net_ready os ?t" "nd_config ?t = nd_config s"
    using one(2) Cons.prems by (simp_all add: same_frame_def net_ready_def)
  then show ?case
    using Cons.IH [of ?t] handed_all_append [OF handed_over_all [OF one(1)] _ one(2)] same_frame_trans [OF one(2)] by auto
qed

lemma flush_round_outcome:
  assumes "net_ready os s"
  shows "\<exists>ms. handed_all (map (\<lambda>q. (Broadcast, batch_message (nd_config s) q, zero_addr, None))
      (fst (flush_due (fst (os_steady os (net_world s))) ms (nd_agg s)))) s (flush_round os s)
    \<and> same_frame s (flush_round os s)"
proof -
  obtain bs s1 where flush: "node_flush_due os s = (bs, s1)"
    by fastforce
  obtain ms where bs: "bs = fst (flush_due (fst (os_steady os (net_world s))) ms (nd_agg s))"
    using flush by (auto simp: node_flush_due_def read_steady_def split_beta Let_def)
  let ?s2 = "snd (now_millis os s1)"
  have "same_net s s1" "same_frame s s1"
    using flush by (auto simp: node_flush_due_def read_steady_def split_beta Let_def same_net_def same_frame_def)
  then have frame: "same_frame s ?s2" and net: "same_net s ?s2"
    by (simp_all add: now_millis_def split_beta same_frame_def same_net_def)
  moreover have "net_ready os ?s2" "nd_config ?s2 = nd_config s"
    using frame assms by (simp_all add: same_frame_def net_ready_def)
  ultimately have "handed_all (map (\<lambda>q. (Broadcast, batch_message (nd_config s) q, zero_addr, None)) bs) s (flush_round os s)
      \<and> same_frame s (flush_round os s)"
    using send_batches_outcome [of os ?s2 bs "fst (now_millis os s1)"]
      handed_all_append [OF same_net_handed_all [OF net] _ frame] same_frame_trans [OF frame] flush
    by (simp add: flush_round_def split_beta)
  then show ?thesis
    unfolding bs by blast
qed

text \<open>The window of the node's own buffer is over.\<close>

definition window_over :: "('w, 'y) node_os_scheme \<Rightarrow> 'w node_sys \<Rightarrow> bool" where
  "window_over os s \<longleftrightarrow> (case map_of (ag_buffers (nd_agg s)) (node_id (nd_config s)) of None \<Rightarrow> True
     | Some b \<Rightarrow> ag_window (nd_agg s) \<le> 0 \<or> ms_ns (ag_window (nd_agg s)) \<le> fst (os_steady os (net_world s)) - bu_created_at b)"

lemma wanted_key_sent:
  assumes inv: "node_inv a" and missing: "cache_is os (nd_redis a) store" "store key = None" "uncovered key a"
    and later: "nd_agg a1 = nd_agg (request_key os key a)" "nd_config a1 = nd_config a" "window_over os a1"
    and up: "net_ready os a1" "room_for (length (ag_pending (nd_agg a1)) + length (ag_buffers (nd_agg a1))) a1"
    and n: "n \<in> set (net_topology a1)"
  obtains q where "(na_addr n, to_wire (batch_message (nd_config a) q)) \<in> set (net_sent (drained os (flush_round os a1)))"
    "qb_origin q = node_id (nd_config a)" "shaped (nd_agg a) (qb_filter q)" "maybe_contains (qb_filter q) key"
    "qb_batch_id q = make_batch_id (qb_origin q) (qb_created_ms q)"
proof -
  let ?id = "node_id (nd_config a)" and ?ag1 = "nd_agg a1" and ?now = "fst (os_steady os (net_world a1))"
  have own: "agg_shaped (nd_agg a)" "agg_bounded (nd_agg a)" "wf_tbl (ag_buffers (nd_agg a))"
    using node_invD(5) [OF inv] by (simp_all add: own_buffers_def)
  obtain now ms where add: "?ag1 = snd (add_key now ms ?id key (nd_agg a))"
    using request_key_aggregated [OF missing] later(1) by auto
  obtain ms1 where handed: "handed_all (map (\<lambda>q. (Broadcast, batch_message (nd_config a) q, zero_addr, None))
      (fst (flush_due ?now ms1 ?ag1))) a1 (flush_round os a1)" and frame: "same_frame a1 (flush_round os a1)"
    using flush_round_outcome [OF up(1)] later(2) by auto
  have window: "ag_window ?ag1 \<le> 0 \<or> ms_ns (ag_window ?ag1) \<le> ?now - bu_created_at b" if "map_of (ag_buffers ?ag1) ?id = Some b" for b
    using later(2,3) that by (simp add: window_over_def)
  obtain q where q: "q \<in> set (fst (flush_due ?now ms1 ?ag1))" "qb_origin q = ?id" "shaped (nd_agg a) (qb_filter q)"
      "maybe_contains (qb_filter q) key" "qb_batch_id q = make_batch_id ?id (qb_created_ms q)"
    by (rule added_key_flushed [OF own add window])
  have "length (fst (flush_loop t m ag bs)) \<le> length bs" for t m ag bs
    by (induction t m ag bs rule: flush_loop.induct) (simp_all add: split_beta Let_def)
  then have "length (fst (flush_due ?now ms1 ?ag1)) \<le> length (ag_pending ?ag1) + length (ag_buffers ?ag1)"
    by (simp add: flush_due_def split_beta)
  then have room: "room_for (length (fst (flush_due ?now ms1 ?ag1))) a1"
    using up(2) by (auto simp: room_for_def)
  have "set (puts (net_topology a1) (Broadcast, batch_message (nd_config a) q, zero_addr, None))
      \<subseteq> set (net_sent (drained os (flush_round os a1)))"
    using frame q(1) by (intro handed_all_delivered [OF handed up(1)]) (simp_all add: room same_frame_def)
  then have "(na_addr n, to_wire (batch_message (nd_config a) q)) \<in> set (net_sent (drained os (flush_round os a1)))"
    using n by (auto simp: excluded_def)
  then show thesis
    by (rule that [OF _ q(2-4)]) (simp only: q(2,5))
qed

subsection \<open>Property\<close>

text \<open>C11. A wanted key is fetched from a neighbour. Let a node want a key that its cache does not hold and that no summary of
  a neighbour covers, and let a later flush come when the window of its aggregation is over. Then the flush sends,
  to every neighbour, a batch. If it reaches a neighbour that holds the key before it is too old, that neighbour
  sends an answer, and when the answer arrives at the node, whose cache takes the value, the node has
  stored the value up to its first bar, counts the key as local, and waits for no fallback for it. The
  messages fit a datagram by the lengths of the ids, the filter and the value alone.\<close>

theorem wanted_key_fetched:
  assumes wants: "node_inv a" "cache_is osA (nd_redis a) storeA" "storeA key = None" "uncovered key a"
    and flush: "nd_agg a1 = nd_agg (request_key osA key a)" "nd_config a1 = nd_config a" "window_over osA a1"
    and upA: "net_ready osA a1" "room_for (length (ag_pending (nd_agg a1)) + length (ag_buffers (nd_agg a1))) a1"
      "n \<in> set (net_topology a1)"
    and asker: "node_id (nd_config a) \<noteq> []" "bar_free (node_id (nd_config a))" "0 < request_ttl (nd_config a)"
      "in_int32 (request_ttl (nd_config a))"
    and holder: "cache_is osB (nd_redis b) storeB" "storeB key = Some v" "key \<in> set (nd_local_keys b)" "wall_fits osB"
    and upB: "net_ready osB b" "room_for (length (nd_local_keys b) + 1) b"
    and config: "ag_bits (nd_agg a) = size_of (query_bf_bits (nd_config b))" "ag_hashes (nd_agg a) = size_of (query_bf_hashes (nd_config b))"
      "bar_free (node_id (nd_config b))" "0 < request_ttl (nd_config b)" "in_int32 (request_ttl (nd_config b))"
    and key: "key \<noteq> []" "bar_free key"
    and fits: "2 * length (node_id (nd_config a)) + 2 * unat (byte_size (ag_bits (nd_agg a))) + 64 \<le> recv_limit"
      "length (node_id (nd_config b)) + length (node_id (nd_config a)) + length key + length v + 62 \<le> recv_limit"
    and stored: "nd_config a2 = nd_config a"
      "cache_set osA (nd_redis a2) key (takeWhile (\<lambda>c. c \<noteq> CHR ''|'') v) (net_world a2) = (None, w)"
  shows "\<exists>q. let batch = to_wire (batch_message (nd_config a) q) in
    (na_addr n, batch) \<in> set (net_sent (drained osA (flush_round osA a1))) \<and>
    (qbf_age (word_of_int (fst (os_wall_ms osB (net_world b)))) (qb_created_ms q) \<le> size_of (query_bf_ttl_ms (nd_config b)) \<longrightarrow>
      (\<exists>answer. (srcA, answer) \<in> set (net_sent (drained osB (arrives osB batch srcA b))) \<and>
        (let a' = arrives osA answer srcB a2
         in net_world a' = w \<and> key \<in> set (nd_local_keys a')
            \<and> map_of (fb_entries (nd_fallback a')) (make_key (node_id (nd_config a)) key) = None)))"
proof -
  let ?id = "node_id (nd_config a)"
  obtain q where sent: "(na_addr n, to_wire (batch_message (nd_config a) q)) \<in> set (net_sent (drained osA (flush_round osA a1)))"
    and q: "qb_origin q = ?id" "shaped (nd_agg a) (qb_filter q)" "maybe_contains (qb_filter q) key"
      "qb_batch_id q = make_batch_id (qb_origin q) (qb_created_ms q)"
    by (rule wanted_key_sent [OF wants flush upA])
  let ?m = "batch_message (nd_config a) q"
  have "bar_free (qb_batch_id q)"
    using show_free(1) [of "unat (qb_created_ms q)"] asker(2) unfolding q(4) by (simp add: q(1) make_batch_id_def bar_free_def)
  moreover have "length (qbf_hits storeB f ks) \<le> length ks" for f ks
    by (induction ks) (auto split: option.splits)
  then have "room_for (length (qbf_hits storeB (qb_filter q) (nd_local_keys b)) + 1) b"
    using upB(2) unfolding room_for_def by (meson add_le_mono le_refl order_trans)
  moreover have "length (to_wire ?m) \<le> recv_limit"
    using q fits(1) asker(4) by (intro batch_fits) simp_all
  ultimately have answered: "\<exists>rid. made_id osB (nd_config b) rid
      \<and> (srcA, to_wire (qbf_reply (nd_config b) ?m rid (key, v))) \<in> set (net_sent (drained osB (arrives osB (to_wire ?m) srcA b)))"
    if "qbf_age (word_of_int (fst (os_wall_ms osB (net_world b)))) (qb_created_ms q) \<le> size_of (query_bf_ttl_ms (nd_config b))"
    using q asker config(1,2) holder(1-3) upB(1) that
    by (intro batch_answered) (simp_all add: shaped_def)
  have stored': "let a' = arrives osA (to_wire (qbf_reply (nd_config b) ?m rid (key, v))) srcB a2
     in net_world a' = w \<and> key \<in> set (nd_local_keys a') \<and> map_of (fb_entries (nd_fallback a')) (make_key ?id key) = None"
    if made: "made_id osB (nd_config b) rid" for rid
  proof -
    let ?r = "qbf_reply (nd_config b) ?m rid (key, v)"
    have r: "m_type ?r = Data" "m_origin ?r = ?id" "m_key ?r = key" "m_value ?r = v"
      by (simp_all add: qbf_reply_def batch_message_def q(1))
    have "header_ok ?r" "data_ok ?r"
      using made_id_free [OF made config(3)] asker(1,2) config(4,5) key
      by (simp_all add: header_ok_def data_ok_def qbf_reply_def batch_message_def q(1))
    moreover have "length (to_wire ?r) \<le> recv_limit"
      using made holder(4) config(5) fits(2) by (intro reply_fits) (simp_all add: batch_message_def q(1))
    ultimately show ?thesis
      using reply_stored [of ?r a2 osA w srcB] stored by (simp add: r)
  qed
  show ?thesis
    using sent answered stored' by (intro exI [of _ q]) (auto simp: Let_def)
qed

text \<open>A node that flushes at once and has nothing in its cache, and a neighbour that holds the key.\<close>

definition pull_node :: "(string \<times> string) node_sys" where
  "pull_node = (demo_node [])\<lparr>nd_agg := aggregator_new 8 4 0 0 (DFin 0) 0\<rparr>"

lemma pull_node_inv: "node_inv pull_node"
proof -
  have "agg_shaped (aggregator_new 8 4 0 0 (DFin 0) 0)"
    by (simp add: agg_shaped_def shaped_def aggregator_new_def bloom_good_def bloom_wf_new)
  then have "own_buffers self (aggregator_new 8 4 0 0 (DFin 0) 0)" for self
    using bounded_new [of 8 4 0 0 "DFin 0" 0] by (simp add: own_buffers_def aggregator_new_def)
  then show ?thesis
    by (simp add: pull_node_def demo_node_inv)
qed

lemma answer_set:
  assumes "Redis_Client.reply_ok r" "\<And>e. r \<noteq> ErrorReply e"
  shows "\<exists>w'. cache_set (answer_host r) \<lparr>rc_path = ''/r'', rc_connected = True\<rparr> key val w = (None, w')"
proof -
  have "stream_recv (os_redis_recv (answer_host r)) snd"
    by (simp add: answer_host_def demo_host_def pipe_recv_stream)
  from read_resp_reply [OF this assms(1), of "(resp_command [''SET'', key, val], reply_bytes r)" "[]"] obtain u where
    "read_resp (os_redis_recv (answer_host r)) (resp_command [''SET'', key, val], reply_bytes r) = Some (Inr (reply_value r), u)"
    by auto
  then show ?thesis
    using assms(2) by (cases r) (auto simp: cache_set_def redis_set_def answer_send)
qed

theorem wanted_key_fetched_witness:
  "\<exists>batch answer. (demo_addr 7, batch) \<in> set (net_sent (drained (answer_host NullBulk)
      (flush_round (answer_host NullBulk) (request_key (answer_host NullBulk) ''k'' pull_node))))
    \<and> (demo_addr 9, answer) \<in> set (net_sent (drained server_host (arrives server_host batch (demo_addr 9)
        ((demo_node [])\<lparr>nd_local_keys := [''k'']\<rparr>))))
    \<and> ''k'' \<in> set (nd_local_keys (arrives (answer_host NullBulk) answer (demo_addr 7) pull_node))"
proof -
  let ?os = "answer_host NullBulk" and ?rc = "\<lparr>rc_path = ''/r'', rc_connected = True\<rparr>"
  let ?a1 = "request_key ?os ''k'' pull_node" and ?b = "(demo_node [])\<lparr>nd_local_keys := [''k'']\<rparr>"
  let ?n = "\<lparr>na_host = ''a'', na_port = 9000, na_addr = demo_addr 7\<rparr>"
  have fields: "nd_config pull_node = demo_config" "nd_redis pull_node = ?rc" "ct_neighbors (nd_content pull_node) = []"
      "?n \<in> set (net_topology pull_node)" "\<not> fc_enabled (fq_conf pull_node)"
      "ag_bits (nd_agg pull_node) = 8" "ag_hashes (nd_agg pull_node) = 4" "ag_window (nd_agg pull_node) = 0"
    by (simp_all add: pull_node_def demo_node_def node_new_def content_table_new_def aggregator_new_def demo_config_def)
  have miss: "cache_is ?os (nd_redis pull_node) (\<lambda>_. None)"
    by (simp add: cache_is_def fields answer_cache)
  have un: "uncovered ''k'' pull_node"
    by (simp add: uncovered_def fields)
  obtain now ms where a1: "same_net pull_node ?a1" "nd_config ?a1 = nd_config pull_node"
      "nd_agg ?a1 = snd (add_key now ms (node_id (nd_config pull_node)) ''k'' (nd_agg pull_node))"
    using request_key_aggregated [OF miss _ un] by auto
  have "ag_window (nd_agg ?a1) = 0"
    using a1(3) fields(8) same_params_step [of "AddKey now ms (node_id (nd_config pull_node)) ''k''" "nd_agg pull_node"]
    by (simp add: same_params_def)
  then have over: "window_over ?os ?a1"
    by (simp add: window_over_def split: option.split)
  have "net_ready ?os pull_node"
    using demo_net_ready [of "[]"] by (simp add: net_ready_def sends_ok_def answer_host_def demo_host_def pull_node_def)
  then have up: "net_ready ?os ?a1" "room_for (length (ag_pending (nd_agg ?a1)) + length (ag_buffers (nd_agg ?a1))) ?a1"
      "?n \<in> set (net_topology ?a1)"
    using a1(1) fields(4,5) by (simp_all add: net_ready_def room_for_def same_net_def)
  have nums: "size_of (query_bf_bits demo_config) = 8" "size_of (query_bf_hashes demo_config) = 4"
    by (simp_all add: demo_config_def config_of_def Let_def size_of_def get_setting_int_def get_setting_def)
  have ready: "net_ready server_host ?b"
    using demo_net_ready [of "[]"] by (simp add: net_ready_def sends_ok_def answer_host_def demo_host_def)
  have wall: "wall_fits server_host" "qbf_age (word_of_int (fst (os_wall_ms server_host (net_world ?b)))) x \<le> y" for x y
    by (simp_all add: wall_fits_def qbf_age_def answer_host_def demo_host_def)
  obtain w where set: "cache_set ?os (nd_redis pull_node) ''k'' (takeWhile (\<lambda>c. c \<noteq> CHR ''|'') ''v'') (net_world pull_node) = (None, w)"
    using answer_set [of NullBulk "''k''" "''v''" "net_world pull_node"] by (auto simp: fields)
  have cache: "cache_is server_host (nd_redis ?b) (\<lambda>_. Some ''v'')"
    by (simp add: server_cache)
  have small: "2 * length (node_id (nd_config pull_node)) + 2 * unat (byte_size (ag_bits (nd_agg pull_node))) + 64 \<le> recv_limit"
      "length (node_id (nd_config ?b)) + length (node_id (nd_config pull_node)) + length ''k'' + length ''v'' + 62 \<le> recv_limit"
    by (simp_all add: fields demo_config_values byte_size_def recv_limit_def)
  from wanted_key_fetched [OF pull_node_inv miss _ un _ a1(2) over up _ _ _ _ cache _ _ wall(1) ready _ _ _ _ _ _ _ _ small _ set,
      of "demo_addr 9" "demo_addr 7"] wall(2)
  show ?thesis
    by (auto simp: fields demo_config_values nums bar_free_def in_int32_def room_for_def Let_def)
qed

end
