(* ===== verification/Log_Output.thy ===== *)
theory Log_Output
  imports Logger C_Strings
begin

text \<open>
  The text that \<^verbatim>\<open>core/logger.cpp\<close> writes for a line: time stamp, level and message. What \<^verbatim>\<open>localtime_r\<close> makes of the
  system clock is a broken-down time, which is an argument.
\<close>

subsection \<open>The time stamp\<close>

text \<open>\<^verbatim>\<open>struct tm\<close>, as far as the format uses it: the year counts from 1900 and the month from 0.\<close>

record tm =
  tm_year :: int
  tm_mon :: int
  tm_mday :: int
  tm_hour :: int
  tm_min :: int
  tm_sec :: int

definition tm_ok :: "tm \<Rightarrow> bool" where
  "tm_ok t \<longleftrightarrow> tm_mon t \<in> {0..11} \<and> tm_mday t \<in> {1..31} \<and> tm_hour t \<in> {0..23} \<and> tm_min t \<in> {0..59} \<and> tm_sec t \<in> {0..60}"

text \<open>Two digits, as the conversions of \<^verbatim>\<open>put_time\<close> other than the year write them.\<close>

definition two_digits :: "int \<Rightarrow> string" where
  "two_digits n = (if 0 \<le> n \<and> n < 10 then ''0'' @ show_int n else show_int n)"

definition now_timestamp :: "tm \<Rightarrow> string" where
  "now_timestamp t = show_int (1900 + tm_year t) @ ''-'' @ two_digits (1 + tm_mon t) @ ''-'' @ two_digits (tm_mday t) @ '' ''
     @ two_digits (tm_hour t) @ '':'' @ two_digits (tm_min t) @ '':'' @ two_digits (tm_sec t)"

definition log_output :: "tm \<Rightarrow> log_level \<Rightarrow> string \<Rightarrow> string" where
  "log_output t l message = now_timestamp t @ '' ['' @ level_label l @ ''] '' @ message @ [CHR 0x0A]"

subsection \<open>Reading a line back\<close>

lemma two_digits_inj:
  assumes "0 \<le> m" "0 \<le> n" "two_digits m = two_digits n"
  shows "m = n"
proof -
  have val: "digits_val (two_digits k) = nat k" if "0 \<le> k" for k
  proof (cases "k < 10")
    case True
    have "digits_val (''0'' @ show_nat (nat k)) = digits_val (show_nat (nat k))"
      by (simp add: digits_val_def digit_val_def)
    with True that show ?thesis
      by (simp add: two_digits_def show_int_def)
  qed (use that in \<open>simp add: two_digits_def show_int_def\<close>)
  show ?thesis
    using val [OF assms(1)] val [OF assms(2)] assms by simp
qed

lemma two_digits_set: "0 \<le> n \<Longrightarrow> c \<in> set (two_digits n) \<Longrightarrow> is_digit c"
  by (auto simp: two_digits_def show_int_def is_digit_def dest: show_nat_set split: if_splits)

text \<open>A number ends at the first character that is no digit.\<close>

lemma two_digits_prefix:
  assumes "0 \<le> m" "0 \<le> n" "\<not> is_digit d"
  shows "two_digits m @ d # x = two_digits n @ d # y \<longleftrightarrow> m = n \<and> x = y"
proof -
  have "d \<notin> set (two_digits m)" "d \<notin> set (two_digits n)"
    using two_digits_set assms by blast+
  then show ?thesis
    using two_digits_inj [OF assms(1,2)] sep_prefix_inj [of d "two_digits m" "two_digits n" x y] by auto
qed

lemma show_year_prefix:
  assumes "0 \<le> m" "0 \<le> n"
  shows "show_int m @ CHR ''-'' # x = show_int n @ CHR ''-'' # y \<longleftrightarrow> m = n \<and> x = y"
proof -
  have "CHR ''-'' \<notin> set (show_nat k)" for k
    by (auto simp: is_digit_def dest!: show_nat_set)
  then have "show_int m @ CHR ''-'' # x = show_int n @ CHR ''-'' # y \<longleftrightarrow> show_nat (nat m) = show_nat (nat n) \<and> x = y"
    using assms sep_prefix_inj [of "CHR ''-''" "show_nat (nat m)" "show_nat (nat n)" x y] by (auto simp: show_int_def)
  then show ?thesis
    using assms by (auto simp: show_nat_inj)
qed

lemma level_label_prefix: "level_label l @ CHR '']'' # x = level_label k @ CHR '']'' # y \<longleftrightarrow> l = k \<and> x = y"
  by (cases l; cases k) simp_all

text \<open>A line of the log says when, how serious and what. From the text of one line, with the year 1900 or later, the
  time, the level and the message can be told: two lines with the same text agree in all of them.\<close>

theorem log_lines_identify:
  assumes "tm_ok t" "tm_ok u" "0 \<le> tm_year t" "0 \<le> tm_year u"
  shows "log_output t l message = log_output u k message' \<longleftrightarrow> t = u \<and> l = k \<and> message = message'"
proof -
  have ok: "0 \<le> 1900 + tm_year t" "0 \<le> 1900 + tm_year u" "0 \<le> 1 + tm_mon t" "0 \<le> 1 + tm_mon u" "0 \<le> tm_mday t" "0 \<le> tm_mday u"
    "0 \<le> tm_hour t" "0 \<le> tm_hour u" "0 \<le> tm_min t" "0 \<le> tm_min u" "0 \<le> tm_sec t" "0 \<le> tm_sec u"
    using assms by (simp_all add: tm_ok_def)
  have sep: "\<not> is_digit (CHR ''-'')" "\<not> is_digit (CHR '' '')" "\<not> is_digit (CHR '':'')"
    by (simp_all add: is_digit_def)
  note fields = show_year_prefix [OF ok(1,2)] two_digits_prefix [OF ok(3,4) sep(1)] two_digits_prefix [OF ok(5,6) sep(2)]
    two_digits_prefix [OF ok(7,8) sep(3)] two_digits_prefix [OF ok(9,10) sep(3)] two_digits_prefix [OF ok(11,12) sep(2)]
  have "log_output t l message = log_output u k message' \<longleftrightarrow>
      tm_year t = tm_year u \<and> tm_mon t = tm_mon u \<and> tm_mday t = tm_mday u \<and> tm_hour t = tm_hour u \<and> tm_min t = tm_min u
      \<and> tm_sec t = tm_sec u \<and> l = k \<and> message = message'"
    by (simp add: log_output_def now_timestamp_def fields level_label_prefix)
  then show ?thesis
    by (auto intro: tm.equality)
qed

theorem log_lines_identify_witness:
  "log_output \<lparr>tm_year = 126, tm_mon = 0, tm_mday = 2, tm_hour = 3, tm_min = 4, tm_sec = 5\<rparr> Info ''[WARN] x''
   \<noteq> log_output \<lparr>tm_year = 126, tm_mon = 0, tm_mday = 2, tm_hour = 3, tm_min = 4, tm_sec = 5\<rparr> Warn ''x''"
  by (subst log_lines_identify) (simp_all add: tm_ok_def)

end
