(* ===== verification/Core_Smoke.thy ===== *)
theory Core_Smoke
  imports Wire_Message Config_Validation
begin

text \<open>
  \<^verbatim>\<open>tests/core_smoke.cpp\<close>: the test program of the core library, with its two checking helpers, run on the model. The
  state of the program is what it has written to its error stream, one text for each check that failed.
\<close>

subsection \<open>The checks\<close>

definition expect :: "bool \<Rightarrow> string \<Rightarrow> string list \<Rightarrow> string list" where
  "expect condition label fails = (if condition then fails else fails @ [''FAIL: '' @ label @ [CHR 0x0A]])"

definition expect_eq :: "string \<Rightarrow> string \<Rightarrow> string \<Rightarrow> string list \<Rightarrow> string list" where
  "expect_eq actual expected label fails =
     (if actual = expected then fails
      else fails @ [''FAIL: '' @ label @ '' (expected '' @ [CHR 0x27] @ expected @ [CHR 0x27]
             @ '', got '' @ [CHR 0x27] @ actual @ [CHR 0x27] @ '')'' @ [CHR 0x0A]])"

subsection \<open>The test cases\<close>

definition smoke_strings :: "string list \<Rightarrow> string list" where
  "smoke_strings f0 =
     (let f1 = expect_eq (trim ''  alpha  '') ''alpha'' ''trim strips whitespace'' f0;
          keep = split ''a,,b'' (CHR '','') False;
          f2 = expect (length keep = 3) ''split keeps empty tokens'' f1;
          f3 = expect_eq (keep ! 0) ''a'' ''split keeps token a'' f2;
          f4 = expect_eq (keep ! 1) [] ''split keeps empty token'' f3;
          f5 = expect_eq (keep ! 2) ''b'' ''split keeps token b'' f4;
          skip = split ''a,,b'' (CHR '','') True;
          f6 = expect (length skip = 2) ''split skips empty tokens'' f5;
          f7 = expect_eq (skip ! 0) ''a'' ''split skips token a'' f6
      in expect_eq (skip ! 1) ''b'' ''split skips token b'' f7)"

definition smoke_request :: message where
  "smoke_request = empty_message\<lparr>m_type := Request, m_request_id := ''rid'', m_origin := ''node1'', m_ttl := 3, m_key := ''alpha''\<rparr>"

definition smoke_messages :: "string list \<Rightarrow> string list" where
  "smoke_messages f0 =
     (let req_parsed = from_wire (to_wire smoke_request);
          f1 = expect (req_parsed \<noteq> None) ''request roundtrip parses'' f0;
          f2 = (case req_parsed of None \<Rightarrow> f1 | Some m \<Rightarrow>
                  let g1 = expect (m_type m = Request) ''request roundtrip type'' f1;
                      g2 = expect_eq (m_request_id m) ''rid'' ''request roundtrip id'' g1;
                      g3 = expect_eq (m_origin m) ''node1'' ''request roundtrip origin'' g2;
                      g4 = expect (m_ttl m = 3) ''request roundtrip ttl'' g3;
                      g5 = expect_eq (m_key m) ''alpha'' ''request roundtrip key'' g4
                  in expect_eq (m_value m) [] ''request roundtrip empty value'' g5);
          req_min = from_wire ''REQ|rid2|node2|2|beta'';
          f3 = expect (req_min \<noteq> None) ''request minimal wire parses'' f2;
          f4 = (case req_min of None \<Rightarrow> f3 | Some m \<Rightarrow> expect (m_value m = []) ''request minimal value empty'' f3);
          data = from_wire ''DATA|rid3|node3|2|gamma|value'';
          f5 = expect (data \<noteq> None) ''data wire parses'' f4;
          f6 = (case data of None \<Rightarrow> f5 | Some m \<Rightarrow>
                  expect_eq (m_value m) ''value'' ''data wire value'' (expect (m_type m = Data) ''data wire type'' f5));
          unknown = from_wire ''BOGUS|rid4|node4|1|k|v'';
          f7 = expect (unknown \<noteq> None) ''unknown wire parses'' f6
      in case unknown of None \<Rightarrow> f7 | Some m \<Rightarrow> expect (m_type m = Unknown) ''unknown wire type'' f7)"

text \<open>\<^verbatim>\<open>Config\<close> with the defaults of its members, and the one the tests start from.\<close>

definition config_default :: config where
  "config_default =
     \<lparr>node_id = [], config_source = [], log_level = [], bind_ip = [], bind_port = 0, redis_socket = [],
      neighbors = [], seed_keys = [], request_keys = [], request_delay_ms = 500, request_ttl = 3,
      query_ttl_ms = 1500, sync_table_capacity = 128, content_bf_bits = 512, content_bf_hashes = 3,
      content_bf_exchange_ms = 1000, content_bf_ttl_ms = 3000, content_bf_fallback_ms = 300,
      query_bf_bits = 1024, query_bf_hashes = 4, query_bf_aggregation_ms = 200, query_bf_ttl_ms = 2000,
      query_bf_max_fill_ratio = round_double (9 / 10), query_bf_max_keys = 0, broadcast_attempt_limit = 3,
      broadcast_window_ms = 1000, topology_reload_ms = 0, async_forward_enable = True, forward_workers = 1,
      forward_queue_max = 1024, forward_drop_policy = ''drop_newest''\<rparr>"

definition smoke_config :: config where
  "smoke_config = config_default\<lparr>node_id := ''node1'', bind_port := 9000, request_ttl := 3, request_delay_ms := 0,
     query_ttl_ms := 1500, sync_table_capacity := 8, neighbors := [\<lparr>nc_host = ''127.0.0.1'', nc_port = 9001\<rparr>]\<rparr>"

text \<open>The error text that a test reads is empty when validation succeeds.\<close>

definition error_text :: "string option \<Rightarrow> string" where
  "error_text e = (case e of None \<Rightarrow> [] | Some t \<Rightarrow> t)"

definition smoke_configs :: "string list \<Rightarrow> string list" where
  "smoke_configs f0 =
     (let cfg = smoke_config;
          f1 = expect (validate_config cfg = None) ''valid config passes'' f0;
          bad_ttl = cfg\<lparr>request_ttl := 0\<rparr>;
          f2 = expect (validate_config bad_ttl \<noteq> None) ''invalid ttl rejected'' f1;
          f3 = expect_eq (error_text (validate_config bad_ttl)) ''request_ttl must be positive'' ''invalid ttl error message'' f2;
          bad_neighbor = cfg\<lparr>neighbors := (neighbors cfg)[0 := (neighbors cfg ! 0)\<lparr>nc_port := 0\<rparr>]\<rparr>;
          f4 = expect (validate_config bad_neighbor \<noteq> None) ''invalid neighbor rejected'' f3
      in expect_eq (error_text (validate_config bad_neighbor)) ''neighbor port must be between 1 and 65535''
           ''invalid neighbor error message'' f4)"

text \<open>The exit code, what goes to the error stream and what goes to the output.\<close>

definition core_smoke :: "int \<times> string list \<times> string" where
  "core_smoke =
     (let fails = smoke_configs (smoke_messages (smoke_strings []))
      in if length fails = 0 then (0, fails, ''netos core tests: ok'' @ [CHR 0x0A])
         else (1, fails, ''netos core tests: '' @ show_nat (length fails) @ '' failures'' @ [CHR 0x0A]))"

subsection \<open>The outcome\<close>

lemma smoke_strings_pass: "smoke_strings [] = []"
  by (simp add: smoke_strings_def expect_def expect_eq_def trim_eq split_keep split_skip is_space_def)

lemma smoke_request_parsed: "from_wire (to_wire smoke_request) = Some smoke_request"
  by (rule from_wire_to_wire_exact)
    (simp add: smoke_request_def wire_ok_def header_ok_def bar_free_def empty_message_def in_int32_def)

lemma smoke_messages_pass: "smoke_messages [] = []"
  unfolding smoke_messages_def smoke_request_parsed
  by (simp add: expect_def expect_eq_def smoke_request_def empty_message_def from_wire_def split_keep parse_type_def)

lemma smoke_configs_pass: "smoke_configs [] = []"
proof -
  obtain r where "round_double (9 / 10) = DFin r" "0 \<le> r" "r \<le> 1"
    using round_double_unit [of "9 / 10"] by auto
  then show ?thesis
    by (simp add: smoke_configs_def expect_def expect_eq_def error_text_def smoke_config_def config_default_def validate_config_def
      config_checks_def neighbor_checks_def Let_def)
qed

text \<open>The model passes the program's own tests: \<^verbatim>\<open>core_smoke\<close> ends with exit code 0, writes nothing to the
  error stream and reports success.\<close>

theorem smoke_tests_pass: "core_smoke = (0, [], ''netos core tests: ok'' @ [CHR 0x0A])"
  by (simp add: core_smoke_def smoke_strings_pass smoke_messages_pass smoke_configs_pass)

end
