(* ===== verification/Spec2Isabelle.thy ===== *)
theory Spec2Isabelle
  imports Network_Integrity Node_Threads Node_Race Redis_Race Node_Pull Log_Output Core_Smoke
begin

text \<open>
  A verification library for the NetOS prototype: a named-data node in C++ that keeps values in a local Redis,
  answers requests of its neighbours over UDP, and asks them for the keys it wants itself.

  \<^bold>\<open>The program.\<close> A node receives datagrams and handles each to its end (\<^verbatim>\<open>Node::handle_wire_message\<close>). A request
  runs through a pipeline: field checks, TTL, duplicate table, cache; it is answered with data to its sender or broadcast
  with a smaller TTL. Data is stored when this node is the origin of the request. A Content-BF is a
  neighbour's Bloom filter of the keys it holds; it goes to the table that direct requests are chosen
  from. A Query-BF is a Bloom filter of wanted keys; every local key in it is answered, and it is broadcast on,
  within the cap of the limiter. In the background a node sends its Content-BF, turns fallbacks
  that are due into wanted keys, flushes the wanted keys as Query-BFs, and reloads its neighbours. Everything that
  is sent goes through a bounded queue with workers, or directly when the queue is not in use.

  \<^bold>\<open>Theories.\<close> Paths are those under \<^verbatim>\<open>src/src/netos\<close>.

  \<^item> \<^verbatim>\<open>Netos_Prelude\<close>: machine integers, clock units, association lists for \<^verbatim>\<open>std::unordered_map\<close>, and the
    interfaces shared by components: a codec, expiry of entries, an approximate set, a system with an invariant.
  \<^item> \<^verbatim>\<open>C_Strings\<close>, \<^verbatim>\<open>C_Double\<close>, \<^verbatim>\<open>C_Strtod\<close>: what the sources use of the C and C++ libraries for strings and
    doubles (a double is a rational rounded to 53 bits, or an infinity, or NaN).
  \<^item> \<^verbatim>\<open>String_Utils\<close>, \<^verbatim>\<open>Logger\<close>, \<^verbatim>\<open>Config\<close>, \<^verbatim>\<open>Config_Validation\<close>, \<^verbatim>\<open>Wire_Message\<close>: \<^verbatim>\<open>core/\<close>.
  \<^item> \<^verbatim>\<open>Bloom_Filter\<close>, \<^verbatim>\<open>Query_Table\<close>, \<^verbatim>\<open>Sync_Table\<close>, \<^verbatim>\<open>Query_Bf_Limiter\<close>, \<^verbatim>\<open>Content_Bf_Table\<close>,
    \<^verbatim>\<open>Content_Bf_Fallback\<close>, \<^verbatim>\<open>Query_Bf_Aggregator\<close>: the files of the same names in \<^verbatim>\<open>tables/\<close>. Each object is a
    record of its members, each method a function on it; the time that a method reads is an argument.
  \<^item> \<^verbatim>\<open>Redis_Client\<close>: \<^verbatim>\<open>cache/redis_client.cpp\<close>, over arbitrary \<^verbatim>\<open>send\<close> and \<^verbatim>\<open>recv\<close>.
  \<^item> \<^verbatim>\<open>Net_Address\<close>, \<^verbatim>\<open>Udp_Network\<close>: \<^verbatim>\<open>network/\<close>: addresses, the neighbour list, sending, broadcasting,
    and the receive loop from start to stop.
  \<^item> \<^verbatim>\<open>Request_Pipeline\<close>, \<^verbatim>\<open>Data_Pipeline\<close>, \<^verbatim>\<open>Forward_Queue\<close>: the files of \<^verbatim>\<open>node/\<close> with those names.
  \<^item> \<^verbatim>\<open>Node_State\<close>, \<^verbatim>\<open>Node_Handlers\<close>, \<^verbatim>\<open>Node_Tasks\<close>: \<^verbatim>\<open>node/node.h\<close>, \<^verbatim>\<open>node/node.cpp\<close> and \<^verbatim>\<open>main.cpp\<close>: the state of a node
    and its helpers and callbacks; the message handlers; start-up and the background work.
  \<^item> \<^verbatim>\<open>Node_Invariant\<close>, \<^verbatim>\<open>Node_Contract\<close>, \<^verbatim>\<open>Node_Own_Requests\<close>, \<^verbatim>\<open>Node_Exchange\<close>, \<^verbatim>\<open>Node_Pull\<close>: what holds of a node in
    all its reachable states, of each message it handles, of the keys it wants itself, of two nodes that talk to each other, and of
    the whole way of a wanted key from its request to its arrival.
  \<^item> \<^verbatim>\<open>Wire_Truncation\<close>, \<^verbatim>\<open>Network_Run\<close>, \<^verbatim>\<open>Network_Integrity\<close>: what is read from a datagram that was cut; networks of any
    number of nodes, with datagrams that are reordered, lost and doubled; that they come to rest, that no value
    is made up in them, and that their nodes hold the keys they advertise. \<^verbatim>\<open>Redis_Server\<close> is a small server for the client to talk to, for a concrete network.
  \<^item> \<^verbatim>\<open>Node_Frame\<close>, \<^verbatim>\<open>Node_Threads\<close>: what the rounds of a node leave alone, as an interface; the background threads in time, with
    their intervals and their sleep: rounds are spaced, no fallback is forgotten as long as the threads wake up in
    time, and the threads of a stopped node end. \<^verbatim>\<open>Node_Race\<close>: an answer that comes between the two halves of a direct request.
  \<^item> \<^verbatim>\<open>Interleaving\<close>: threads as trees of atomic steps that share a state, and the interface, of rely and guarantee, by which an
    invariant is shown thread by thread. \<^verbatim>\<open>Node_Code\<close>: every handler and every round a second time, as code in steps;
    \<^verbatim>\<open>Node_Alone\<close>: the code of a round that nobody interrupts is the function that models it. \<^verbatim>\<open>Node_Interleaving\<close>: all threads
    of a node with all their interleavings, and the invariant there. \<^verbatim>\<open>Redis_Race\<close>: two threads whose replies are crossed.
  \<^item> \<^verbatim>\<open>Log_Output\<close>: the text of a log line with its time stamp.
  \<^item> \<^verbatim>\<open>Core_Smoke\<close>: \<^verbatim>\<open>tests/core_smoke.cpp\<close>, the program's own tests, run on the model.

  \<^bold>\<open>State and environment.\<close> The state of a node is one record that grows with the layers: log, network, queue,
  node. What the program asks of its host (sockets, name resolution, clocks, Redis, environment, files) is a record of
  functions on a world of any type, a parameter of everything above it; what a theorem needs of them is a named hypothesis
  (\<open>stream_recv\<close>: the reply stream comes in pieces; \<open>net_ready\<close>: the socket takes datagrams; \<open>cache_is\<close>: Redis answers from a
  store; \<open>faithful\<close>: GET and SET are the only ways into a store; \<open>clock_runs\<close>: the steady clock does not go back; \<open>in_time\<close>:
  threads wake up with a bounded slack; \<open>punctual\<close>: the scheduler gives them turns with a bounded slack; \<open>wall_fits\<close>: the wall clock counts milliseconds in 64 bits; \<open>replies_end\<close>: the reading of a reply ends; \<open>ordered_replies\<close>: Redis answers the commands of
  its connection in their order), and a witness gives a concrete one.
  The threads are the step relation \<open>node_step\<close>: any round of any thread may come next, so a theorem about
  reachable states holds for every schedule of whole rounds. \<open>node_moves\<close> is finer: the steps of the rounds mix in any order. A
  step is a call that takes a lock, a clock that is read, the counter, a log line, and at the Redis socket one command or one reply;
  a broadcast is a step, since it holds the lock of the neighbour list. By \<open>rounds_interleave\<close> every
  schedule of whole rounds is one of these interleavings. \<open>timed_step\<close> adds the clock and the sleep of the threads;
  \<open>net_step\<close> puts any number of nodes into a network with a multiset of datagrams.

  \<^bold>\<open>What the lemmas show.\<close> Components: wire form and filters are read back; filters have no false negatives; the
  duplicate table, the LRU table, the fallbacks and the limiter refine abstract specifications over every sequence of
  calls; the queue loses and invents nothing, and the aggregator neither as long as it finds no buffer that is too old; every
  configuration file is read line by line as written; selection, validation, loading and broadcasting
  do exactly what is stated; the Redis client returns for every finite stream and frames its commands.
  Nodes: the outcome of every kind of message, error branches included; the invariant of every reachable state; what
  a datagram can cause and that a flood ends; that requests, batches and summaries reach their purpose
  at the next node, that a key which no summary covers is asked for, answered and stored, and that the answer to a relayed
  request is not.
  Networks: for any number of nodes, with any topology and any order of whole rounds, the traffic ends by itself, a value is found
  only under a key that it had at the start (but the empty value gets under the start of a key when a datagram is cut
  there), and a node holds what it advertises. Threads: their rounds are rationed, fallbacks
  are handed on in time, and a stopped node comes to an end. Under every
  interleaving of their steps the tables keep their invariants, and a local key is advertised or about to be.

  \<^bold>\<open>Termination and bounds.\<close> Loops over containers are structural; \<^verbatim>\<open>evict_loop\<close>, \<^verbatim>\<open>send_loop\<close>, \<^verbatim>\<open>read_exact\<close> and
  \<^verbatim>\<open>trim_start\<close> have a measure. \<^verbatim>\<open>read_line\<close> may read for ever and is partial; \<open>redis_calls_return\<close> proves that it
  returns on every finite stream, so that \<open>cache_get\<close> and \<open>cache_set\<close> take its result.
  There is no fuel: \<open>worker_turns\<close> and \<open>request_ids\<close> count the rounds that the statement is about. \<^verbatim>\<open>size_t\<close> and
  \<^verbatim>\<open>uint64_t\<close> are 64-bit words with wrap-around; an \<^verbatim>\<open>int\<close> is an integer in the 32-bit range. Sizes of containers are
  natural numbers.

  \<^bold>\<open>Not modelled.\<close> Data races: what C++ leaves undefined has no step, so the calls of the duplicate table, which has no
  lock, are taken not to overlap, and two threads at the Redis socket mix by whole commands and whole replies. The theorems about
  networks are about whole rounds: \<open>crossed_reply_served\<close> shows what they exclude, a value under another key that comes from the unlocked
  Redis client alone. The delay before the node's own requests: they may come at any time. Socket options, and the texts of
  \<^verbatim>\<open>strerror\<close>, which are parameters. The destructor and the end of the process. The traversal order of \<^verbatim>\<open>std::unordered_map\<close> is that of the list which
  stands for it; no theorem depends on which order it is. Container files and scripts hold no logic of the program.
\<close>

end
